(* ===== verification/Prelude.thy ===== *)
theory Prelude
  imports Main "HOL-Library.Word"
begin

text \<open>
  Shared vocabulary of the development: the integer types of \<^verbatim>\<open>src/common/types.h\<close>, the ways
  a run of the program can leave the defined behaviour of C or end early (\<open>stop\<close>), the
  sequencing of steps that may do so (\<open>ubind\<close>), and the generic facts on bits, words and
  lists that the component theories use.
\<close>

unbundle bit_operations_syntax

section \<open>Integer types\<close>

text \<open>The typedefs \<open>byte\<close>, \<open>word\<close>, \<open>dword\<close> and \<open>qword\<close>; \<open>word\<close> is the name of the library's
  type constructor, so the 16-bit one is \<open>word16\<close>.\<close>

type_synonym byte = "8 word"
type_synonym word16 = "16 word"
type_synonym dword = "32 word"
type_synonym qword = "64 word"

text \<open>\<open>BYTE_MAX\<close>, \<open>WORD_MAX\<close> and \<open>DWORD_MAX\<close>, at the width at which the code compares them.\<close>

abbreviation (input) BYTE_MAX :: word16 where "BYTE_MAX \<equiv> 0xFF"
abbreviation (input) WORD_MAX :: dword where "WORD_MAX \<equiv> 0xFFFF"
abbreviation (input) DWORD_MAX :: qword where "DWORD_MAX \<equiv> 0xFFFFFFFF"

section \<open>Runs that stop\<close>

text \<open>
  The C code checks few of its accesses. An access outside the memory it owns, or the use of
  a value nobody wrote, is undefined behaviour, and the model stops there with a value that says
  which access it was. \<open>Exit\<close> is a call of \<open>exit\<close>, with its status.
\<close>

datatype stop =
    Mem_oob dword        \<comment> \<open>\<open>ctx->memory[addr]\<close> with \<open>addr\<close> past the end\<close>
  | Reg_oob byte         \<comment> \<open>\<open>regs[r]\<close> or \<open>cregs[r]\<close> past the end\<close>
  | Port_oob byte        \<comment> \<open>\<open>ports[no]\<close> past the end\<close>
  | Uninit_data byte     \<comment> \<open>\<open>data\<close> read although no port handler wrote it\<close>
  | Heap_oob nat         \<comment> \<open>a store past the end of a heap block\<close>
  | Image_oob nat        \<comment> \<open>a read past the end of a loaded file\<close>
  | Null_deref           \<comment> \<open>a null pointer followed\<close>
  | Div_zero             \<comment> \<open>a remainder by zero\<close>
  | Exit int             \<comment> \<open>\<open>exit(status)\<close>\<close>

text \<open>The sequencing of steps that may stop: the first \<open>Inl\<close> ends the run.\<close>

fun ubind :: "stop + 'a \<Rightarrow> ('a \<Rightarrow> stop + 'b) \<Rightarrow> stop + 'b" where
  "ubind (Inl e) f = Inl e"
| "ubind (Inr x) f = f x"

lemma ubind_eq_Inr [simp]:
  "ubind m f = Inr y \<longleftrightarrow> (\<exists>x. m = Inr x \<and> f x = Inr y)"
  by (cases m) auto

lemma ubind_eq_Inl:
  "ubind m f = Inl e \<longleftrightarrow> m = Inl e \<or> (\<exists>x. m = Inr x \<and> f x = Inl e)"
  by (cases m) auto

lemma ubind_defined:
  "(\<exists>y. ubind m (\<lambda>x. Inr (f x)) = Inr y) \<longleftrightarrow> (\<exists>x. m = Inr x)"
  by (cases m) auto

lemma ubind_assoc: "ubind (ubind m f) g = ubind m (\<lambda>x. ubind (f x) g)"
  by (cases m) auto

lemma ubind_Inr [simp]: "ubind m Inr = m"
  by (cases m) auto

lemma ubind_if: "ubind (if b then m else n) f = (if b then ubind m f else ubind n f)"
  by simp

lemma ubind_cong [fundef_cong]:
  "m = n \<Longrightarrow> (\<And>x. n = Inr x \<Longrightarrow> f x = g x) \<Longrightarrow> ubind m f = ubind n g"
  by (cases n) auto

section \<open>Collections of facts\<close>

text \<open>
  \<open>ectx_simps\<close> holds the read-over-write equations of the machine state, \<open>wf_intros\<close>
  the preservation facts of its invariant and \<open>norm_simps\<close> the equations that give an
  operation's effect where its accesses are in range.
\<close>

named_theorems ectx_simps "reads over writes of the machine state"
named_theorems wf_intros "operations that keep the machine state well formed"
named_theorems norm_simps "effect of an operation whose accesses are in range"

section \<open>Words\<close>

lemma mask_8: "(0xFF :: 'a::len word) = mask 8"
  by (simp add: mask_eq_exp_minus_1)

lemma mask_16: "(0xFFFF :: 'a::len word) = mask 16"
  by (simp add: mask_eq_exp_minus_1)

lemma mask_4: "(0xF :: 'a::len word) = mask 4"
  by (simp add: mask_eq_exp_minus_1)

lemma mask_6: "(0x3F :: 'a::len word) = mask 6"
  by (simp add: mask_eq_exp_minus_1)

lemma mask_7: "(0x7F :: 'a::len word) = mask 7"
  by (simp add: mask_eq_exp_minus_1)

lemmas masks = mask_4 mask_6 mask_7 mask_8 mask_16

lemma unat_of_nat_dword: "n < 2 ^ 32 \<Longrightarrow> unat (of_nat n :: dword) = n"
  by (simp add: unsigned_of_nat take_bit_nat_eq_self)

lemma unat_dword_less: "unat (x :: dword) < 4294967296"
  using unsigned_less[of x] by simp

lemma ucast_mask_byte [simp]: "(ucast (x AND 0xFF :: dword) :: byte) = ucast x"
  by (rule bit_word_eqI) (auto simp: mask_8 bit_simps)

lemma ucast_mask_word [simp]: "(ucast (x AND 0xFFFF :: dword) :: word16) = ucast x"
  by (rule bit_word_eqI) (auto simp: mask_16 bit_simps)

text \<open>Tests of one bit by a mask.\<close>

lemma test_bits:
  "x AND 1 \<noteq> 0 \<longleftrightarrow> bit x 0" "x AND 0x80 \<noteq> 0 \<longleftrightarrow> bit x 7"
  "x AND 0x8000 \<noteq> 0 \<longleftrightarrow> bit x 15" "x AND 0x80000000 \<noteq> 0 \<longleftrightarrow> bit x 31" for x :: dword
  using and_exp_eq_0_iff_not_bit[of x 0] and_exp_eq_0_iff_not_bit[of x 7]
    and_exp_eq_0_iff_not_bit[of x 15] and_exp_eq_0_iff_not_bit[of x 31]
  by (simp_all add: bit_0)

lemma unat_byte_less: "unat (x :: byte) < 256"
  using unsigned_less[of x] by simp

lemma unat_word16_less: "unat (x :: word16) < 65536"
  using unsigned_less[of x] by simp

lemma take_bit_12_less: "take_bit 12 (x :: word16) < 0x1000"
  using and_mask_less_size[of 12 x] by (simp add: word_size take_bit_eq_mask)

text \<open>The numbers below sixteen, one by one.\<close>

definition nibbles :: "byte list" where
  "nibbles = [0, 1, 2, 3, 4, 5, 6, 7, 8, 9, 10, 11, 12, 13, 14, 15]"

lemma nibble_in: "r < 16 \<longleftrightarrow> r \<in> set nibbles"
proof -
  have "[0..<16] = [0, 1, 2, 3, 4, 5, 6, 7, 8, 9, 10, 11, 12, 13, 14, 15]" by (simp add: upt_rec)
  then have "unat r < 16 \<longleftrightarrow> unat r \<in> set [0, 1, 2, 3, 4, 5, 6, 7, 8, 9, 10, 11, 12, 13, 14, 15]"
    by (metis atLeast_upt lessThan_iff)
  then show ?thesis by (simp add: nibbles_def word_less_nat_alt word_unat_eq_iff)
qed

lemma nibble_all: "(\<forall>r < 16. P r) \<longleftrightarrow> list_all P nibbles" for P :: "byte \<Rightarrow> bool"
  by (auto simp: nibble_in list_all_iff)

section \<open>Hexadecimal digits\<close>

text \<open>The digit that the conversion \<open>%x\<close> prints for the last four bits of a number.\<close>

definition hex_digit :: "nat \<Rightarrow> char" where
  "hex_digit d = ''0123456789abcdef'' ! (d mod 16)"

lemma hex_digits_distinct:
  "list_all (\<lambda>a. list_all (\<lambda>b. hex_digit a = hex_digit b \<longrightarrow> a = b) [0..<16]) [0..<16]"
  by code_simp

lemma hex_digit_eq: "hex_digit a = hex_digit b \<longleftrightarrow> a mod 16 = b mod 16"
proof -
  have "hex_digit (a mod 16) = hex_digit (b mod 16) \<Longrightarrow> a mod 16 = b mod 16"
    using hex_digits_distinct by (simp add: list_all_iff)
  then show ?thesis by (auto simp: hex_digit_def)
qed

text \<open>The last \<open>n\<close> digits of a number determine it up to multiples of \<open>16 ^ n\<close>.\<close>

lemma digits_determine:
  "(\<And>k. k < n \<Longrightarrow> a div 16 ^ k mod 16 = b div 16 ^ k mod 16) \<Longrightarrow> a mod 16 ^ n = b mod 16 ^ n" for a b :: nat
proof (induction n)
  case (Suc n)
  have "x mod 16 ^ Suc n = 16 ^ n * (x div 16 ^ n mod 16) + x mod 16 ^ n" for x :: nat
    using mod_mult2_eq[of x "16 ^ n" 16] by (simp add: mult.commute)
  moreover have "a mod 16 ^ n = b mod 16 ^ n" by (rule Suc.IH) (rule Suc.prems, simp)
  moreover have "a div 16 ^ n mod 16 = b div 16 ^ n mod 16" by (rule Suc.prems) simp
  ultimately show ?case by simp
qed simp

end
