(* ===== verification/Rawdefs.thy ===== *)
theory Rawdefs
  imports Prelude
begin

text \<open>
  The constants of \<^verbatim>\<open>src/common/rawdefs.h\<close> and the integer macros of
  \<^verbatim>\<open>src/common/macros.h\<close>. A constant is an input abbreviation, so a term that names it is
  the numeral itself, as after the preprocessor. The macros work on values that C has promoted to
  \<open>int\<close> or \<open>unsigned int\<close>, so their operands and results are 32-bit words here; the truncation
  to the stored width is written where the code stores the result.
\<close>

unbundle bit_operations_syntax

section \<open>Constants\<close>

subsection \<open>Control register numbers\<close>

abbreviation (input) CPU_CREG_MR1 :: byte where "CPU_CREG_MR1 \<equiv> 0x00"
abbreviation (input) CPU_CREG_MR2 :: byte where "CPU_CREG_MR2 \<equiv> 0x01"
abbreviation (input) CPU_CREG_MR3 :: byte where "CPU_CREG_MR3 \<equiv> 0x05"
abbreviation (input) CPU_CREG_MR4 :: byte where "CPU_CREG_MR4 \<equiv> 0x06"
abbreviation (input) CPU_CREG_CR1 :: byte where "CPU_CREG_CR1 \<equiv> 0x02"
abbreviation (input) CPU_CREG_CR2 :: byte where "CPU_CREG_CR2 \<equiv> 0x03"
abbreviation (input) CPU_CREG_SSP :: byte where "CPU_CREG_SSP \<equiv> 0x04"
abbreviation (input) CPU_CREG_ST1 :: byte where "CPU_CREG_ST1 \<equiv> 0x07"
abbreviation (input) CPU_CREG_ST2 :: byte where "CPU_CREG_ST2 \<equiv> 0x08"
abbreviation (input) CPU_CREG_ST3 :: byte where "CPU_CREG_ST3 \<equiv> 0x09"
abbreviation (input) CPU_CREG_ST4 :: byte where "CPU_CREG_ST4 \<equiv> 0x0A"

subsection \<open>Bits of \<open>MR2\<close>\<close>

abbreviation (input) MR2_MMU_ENABLED :: dword where "MR2_MMU_ENABLED \<equiv> 0x01"

subsection \<open>Bits of \<open>CR1\<close>\<close>

abbreviation (input) CR1_INT_ENABLED :: dword where "CR1_INT_ENABLED \<equiv> 0x01"
abbreviation (input) CR1_PRIV_MODE :: dword where "CR1_PRIV_MODE \<equiv> 0x02"
abbreviation (input) CR1_EXCEPTION :: dword where "CR1_EXCEPTION \<equiv> 0x04"
abbreviation (input) CR1_FAILURE :: dword where "CR1_FAILURE \<equiv> 0x08"

subsection \<open>Flags\<close>

abbreviation (input) FLGS_Z :: dword where "FLGS_Z \<equiv> 0x01"
abbreviation (input) FLGS_C :: dword where "FLGS_C \<equiv> 0x02"
abbreviation (input) FLGS_O :: dword where "FLGS_O \<equiv> 0x04"
abbreviation (input) FLGS_P :: dword where "FLGS_P \<equiv> 0x08"
abbreviation (input) FLGS_S :: dword where "FLGS_S \<equiv> 0x10"
abbreviation (input) FLGS_E :: dword where "FLGS_E \<equiv> 0x20"

subsection \<open>32-bit registers\<close>

abbreviation (input) CPU_REG_R0 :: byte where "CPU_REG_R0 \<equiv> 0x00"
abbreviation (input) CPU_REG_R1 :: byte where "CPU_REG_R1 \<equiv> 0x01"
abbreviation (input) CPU_REG_R2 :: byte where "CPU_REG_R2 \<equiv> 0x02"
abbreviation (input) CPU_REG_R3 :: byte where "CPU_REG_R3 \<equiv> 0x03"
abbreviation (input) CPU_REG_R4 :: byte where "CPU_REG_R4 \<equiv> 0x04"
abbreviation (input) CPU_REG_R5 :: byte where "CPU_REG_R5 \<equiv> 0x05"
abbreviation (input) CPU_REG_R6 :: byte where "CPU_REG_R6 \<equiv> 0x06"
abbreviation (input) CPU_REG_R7 :: byte where "CPU_REG_R7 \<equiv> 0x07"
abbreviation (input) CPU_REG_R8 :: byte where "CPU_REG_R8 \<equiv> 0x08"
abbreviation (input) CPU_REG_R9 :: byte where "CPU_REG_R9 \<equiv> 0x09"
abbreviation (input) CPU_REG_RA :: byte where "CPU_REG_RA \<equiv> 0x0A"
abbreviation (input) CPU_REG_RB :: byte where "CPU_REG_RB \<equiv> 0x0B"
abbreviation (input) CPU_REG_RC :: byte where "CPU_REG_RC \<equiv> 0x0C"
abbreviation (input) CPU_REG_BP :: byte where "CPU_REG_BP \<equiv> 0x0D"
abbreviation (input) CPU_REG_SP :: byte where "CPU_REG_SP \<equiv> 0x0E"
abbreviation (input) CPU_REG_FLGS :: byte where "CPU_REG_FLGS \<equiv> 0x0F"

subsection \<open>16-bit registers\<close>

abbreviation (input) CPU_REG16_R0L :: byte where "CPU_REG16_R0L \<equiv> 0x00"
abbreviation (input) CPU_REG16_R0H :: byte where "CPU_REG16_R0H \<equiv> 0x01"
abbreviation (input) CPU_REG16_R1L :: byte where "CPU_REG16_R1L \<equiv> 0x02"
abbreviation (input) CPU_REG16_R1H :: byte where "CPU_REG16_R1H \<equiv> 0x03"
abbreviation (input) CPU_REG16_R2L :: byte where "CPU_REG16_R2L \<equiv> 0x04"
abbreviation (input) CPU_REG16_R2H :: byte where "CPU_REG16_R2H \<equiv> 0x05"
abbreviation (input) CPU_REG16_R3L :: byte where "CPU_REG16_R3L \<equiv> 0x06"
abbreviation (input) CPU_REG16_R3H :: byte where "CPU_REG16_R3H \<equiv> 0x07"
abbreviation (input) CPU_REG16_R4L :: byte where "CPU_REG16_R4L \<equiv> 0x08"
abbreviation (input) CPU_REG16_R4H :: byte where "CPU_REG16_R4H \<equiv> 0x09"
abbreviation (input) CPU_REG16_R5L :: byte where "CPU_REG16_R5L \<equiv> 0x0A"
abbreviation (input) CPU_REG16_R5H :: byte where "CPU_REG16_R5H \<equiv> 0x0B"
abbreviation (input) CPU_REG16_R6L :: byte where "CPU_REG16_R6L \<equiv> 0x0C"
abbreviation (input) CPU_REG16_R6H :: byte where "CPU_REG16_R6H \<equiv> 0x0D"
abbreviation (input) CPU_REG16_R7L :: byte where "CPU_REG16_R7L \<equiv> 0x0E"
abbreviation (input) CPU_REG16_R7H :: byte where "CPU_REG16_R7H \<equiv> 0x0F"

subsection \<open>8-bit registers\<close>

abbreviation (input) CPU_REG8_R0LL :: byte where "CPU_REG8_R0LL \<equiv> 0x00"
abbreviation (input) CPU_REG8_R0LH :: byte where "CPU_REG8_R0LH \<equiv> 0x01"
abbreviation (input) CPU_REG8_R0HL :: byte where "CPU_REG8_R0HL \<equiv> 0x02"
abbreviation (input) CPU_REG8_R0HH :: byte where "CPU_REG8_R0HH \<equiv> 0x03"
abbreviation (input) CPU_REG8_R1LL :: byte where "CPU_REG8_R1LL \<equiv> 0x04"
abbreviation (input) CPU_REG8_R1LH :: byte where "CPU_REG8_R1LH \<equiv> 0x05"
abbreviation (input) CPU_REG8_R1HL :: byte where "CPU_REG8_R1HL \<equiv> 0x06"
abbreviation (input) CPU_REG8_R1HH :: byte where "CPU_REG8_R1HH \<equiv> 0x07"
abbreviation (input) CPU_REG8_R2LL :: byte where "CPU_REG8_R2LL \<equiv> 0x08"
abbreviation (input) CPU_REG8_R2LH :: byte where "CPU_REG8_R2LH \<equiv> 0x09"
abbreviation (input) CPU_REG8_R2HL :: byte where "CPU_REG8_R2HL \<equiv> 0x0A"
abbreviation (input) CPU_REG8_R2HH :: byte where "CPU_REG8_R2HH \<equiv> 0x0B"
abbreviation (input) CPU_REG8_R3LL :: byte where "CPU_REG8_R3LL \<equiv> 0x0C"
abbreviation (input) CPU_REG8_R3LH :: byte where "CPU_REG8_R3LH \<equiv> 0x0D"
abbreviation (input) CPU_REG8_R3HL :: byte where "CPU_REG8_R3HL \<equiv> 0x0E"
abbreviation (input) CPU_REG8_R3HH :: byte where "CPU_REG8_R3HH \<equiv> 0x0F"

subsection \<open>Opcodes\<close>

abbreviation (input) OP_STOP :: byte where "OP_STOP \<equiv> 0x00"
abbreviation (input) OP_FAIL :: byte where "OP_FAIL \<equiv> 0x01"
abbreviation (input) OP_IRET :: byte where "OP_IRET \<equiv> 0x04"
abbreviation (input) OP_LOADI :: byte where "OP_LOADI \<equiv> 0x06"
abbreviation (input) OP_STOREMA :: byte where "OP_STOREMA \<equiv> 0x08"
abbreviation (input) OP_LOADMA :: byte where "OP_LOADMA \<equiv> 0x09"
abbreviation (input) OP_INT :: byte where "OP_INT \<equiv> 0x0A"
abbreviation (input) OP_JMP :: byte where "OP_JMP \<equiv> 0x0B"
abbreviation (input) OP_CALL :: byte where "OP_CALL \<equiv> 0x0C"
abbreviation (input) OP_STOREAS :: byte where "OP_STOREAS \<equiv> 0x0D"
abbreviation (input) OP_LOADAS :: byte where "OP_LOADAS \<equiv> 0x0E"
abbreviation (input) OP_SMUL :: byte where "OP_SMUL \<equiv> 0x10"
abbreviation (input) OP_SDIV :: byte where "OP_SDIV \<equiv> 0x11"
abbreviation (input) OP_NOT :: byte where "OP_NOT \<equiv> 0x12"
abbreviation (input) OP_SEX :: byte where "OP_SEX \<equiv> 0x14"
abbreviation (input) OP_MOD :: byte where "OP_MOD \<equiv> 0x15"
abbreviation (input) OP_TEST :: byte where "OP_TEST \<equiv> 0x16"
abbreviation (input) OP_CMP :: byte where "OP_CMP \<equiv> 0x18"
abbreviation (input) OP_IN :: byte where "OP_IN \<equiv> 0x19"
abbreviation (input) OP_MOV :: byte where "OP_MOV \<equiv> 0x1A"
abbreviation (input) OP_CMPXCHG :: byte where "OP_CMPXCHG \<equiv> 0x1B"
abbreviation (input) OP_MOVTC :: byte where "OP_MOVTC \<equiv> 0x1D"
abbreviation (input) OP_MOVFC :: byte where "OP_MOVFC \<equiv> 0x1E"
abbreviation (input) OP_SAR :: byte where "OP_SAR \<equiv> 0x1F"
abbreviation (input) OP_XCHG :: byte where "OP_XCHG \<equiv> 0x20"
abbreviation (input) OP_AND :: byte where "OP_AND \<equiv> 0x21"
abbreviation (input) OP_OR :: byte where "OP_OR \<equiv> 0x22"
abbreviation (input) OP_XOR :: byte where "OP_XOR \<equiv> 0x23"
abbreviation (input) OP_SHL :: byte where "OP_SHL \<equiv> 0x24"
abbreviation (input) OP_SHR :: byte where "OP_SHR \<equiv> 0x25"
abbreviation (input) OP_LOADID :: byte where "OP_LOADID \<equiv> 0x26"
abbreviation (input) OP_LOADRD :: byte where "OP_LOADRD \<equiv> 0x27"
abbreviation (input) OP_STOREID :: byte where "OP_STOREID \<equiv> 0x28"
abbreviation (input) OP_STORERD :: byte where "OP_STORERD \<equiv> 0x29"
abbreviation (input) OP_ADD :: byte where "OP_ADD \<equiv> 0x2A"
abbreviation (input) OP_SUB :: byte where "OP_SUB \<equiv> 0x2B"
abbreviation (input) OP_MUL :: byte where "OP_MUL \<equiv> 0x2C"
abbreviation (input) OP_DIV :: byte where "OP_DIV \<equiv> 0x2D"
abbreviation (input) OP_OUT :: byte where "OP_OUT \<equiv> 0x2E"
abbreviation (input) OP_XCHGC :: byte where "OP_XCHGC \<equiv> 0x2F"

subsection \<open>Instruction groups\<close>

abbreviation (input) OPGRP_I :: byte where "OPGRP_I \<equiv> 0x00"
abbreviation (input) OPGRP_II :: byte where "OPGRP_II \<equiv> 0x01"
abbreviation (input) OPGRP_III :: byte where "OPGRP_III \<equiv> 0x02"

subsection \<open>Prefixes\<close>

abbreviation (input) PREFIX_DWORD :: byte where "PREFIX_DWORD \<equiv> 0x00"
abbreviation (input) PREFIX_WORD :: byte where "PREFIX_WORD \<equiv> 0x01"
abbreviation (input) PREFIX_BYTE :: byte where "PREFIX_BYTE \<equiv> 0x02"
abbreviation (input) PREFIX_IMM :: byte where "PREFIX_IMM \<equiv> 0x03"

subsection \<open>Conditions\<close>

abbreviation (input) COND_ALWAYS :: byte where "COND_ALWAYS \<equiv> 0x00"
abbreviation (input) COND_IZ :: byte where "COND_IZ \<equiv> 0x01"
abbreviation (input) COND_NZ :: byte where "COND_NZ \<equiv> 0x02"
abbreviation (input) COND_IS :: byte where "COND_IS \<equiv> 0x03"
abbreviation (input) COND_NS :: byte where "COND_NS \<equiv> 0x04"
abbreviation (input) COND_IO :: byte where "COND_IO \<equiv> 0x05"
abbreviation (input) COND_NO :: byte where "COND_NO \<equiv> 0x06"
abbreviation (input) COND_IP :: byte where "COND_IP \<equiv> 0x07"
abbreviation (input) COND_NP :: byte where "COND_NP \<equiv> 0x08"
abbreviation (input) COND_IZIS :: byte where "COND_IZIS \<equiv> 0x09"
abbreviation (input) COND_IZIC :: byte where "COND_IZIC \<equiv> 0x0A"
abbreviation (input) COND_NZNS :: byte where "COND_NZNS \<equiv> 0x0B"
abbreviation (input) COND_NZNC :: byte where "COND_NZNC \<equiv> 0x0C"
abbreviation (input) COND_IC :: byte where "COND_IC \<equiv> 0x0D"
abbreviation (input) COND_NC :: byte where "COND_NC \<equiv> 0x0E"
abbreviation (input) COND_NF :: byte where "COND_NF \<equiv> 0x0F"

section \<open>Macros\<close>

definition HHBYTE_FROM_DWORD :: "dword \<Rightarrow> dword" where
  "HHBYTE_FROM_DWORD x = drop_bit 24 x"

definition HLBYTE_FROM_DWORD :: "dword \<Rightarrow> dword" where
  "HLBYTE_FROM_DWORD x = drop_bit 16 x AND 0xFF"

definition LHBYTE_FROM_DWORD :: "dword \<Rightarrow> dword" where
  "LHBYTE_FROM_DWORD x = drop_bit 8 x AND 0xFF"

definition LLBYTE_FROM_DWORD :: "dword \<Rightarrow> dword" where
  "LLBYTE_FROM_DWORD x = x AND 0xFF"

definition LWORD_FROM_DWORD :: "dword \<Rightarrow> dword" where
  "LWORD_FROM_DWORD x = x AND 0xFFFF"

definition HWORD_FROM_DWORD :: "dword \<Rightarrow> dword" where
  "HWORD_FROM_DWORD x = drop_bit 16 x AND 0xFFFF"

definition HBYTE_FROM_WORD :: "word16 \<Rightarrow> dword" where
  "HBYTE_FROM_WORD x = drop_bit 8 (ucast x) AND 0xFF"

definition LBYTE_FROM_WORD :: "word16 \<Rightarrow> dword" where
  "LBYTE_FROM_WORD x = ucast x AND 0xFF"

definition WORD_FROM_BYTES :: "byte \<Rightarrow> byte \<Rightarrow> dword" where
  "WORD_FROM_BYTES hi lo = push_bit 8 (ucast hi) OR ucast lo"

definition DWORD_FROM_BYTES :: "byte \<Rightarrow> byte \<Rightarrow> byte \<Rightarrow> byte \<Rightarrow> dword" where
  "DWORD_FROM_BYTES uh ul lh ll =
     push_bit 24 (ucast uh) OR push_bit 16 (ucast ul) OR push_bit 8 (ucast lh) OR ucast ll"

text \<open>
  \<open>SIGNED16\<close> followed by the promotion to \<open>int\<close>, and \<open>SIGNED32\<close>, as the integer
  the two's complement stands for.
\<close>

definition SIGNED16 :: "word16 \<Rightarrow> int" where
  "SIGNED16 x = sint x"

definition SIGNED32 :: "dword \<Rightarrow> int" where
  "SIGNED32 x = sint x"

definition UNSIGNED32 :: "int \<Rightarrow> dword" where
  "UNSIGNED32 i = word_of_int i"

subsection \<open>Splitting and joining\<close>

lemmas macro_defs = HHBYTE_FROM_DWORD_def HLBYTE_FROM_DWORD_def LHBYTE_FROM_DWORD_def
  LLBYTE_FROM_DWORD_def LWORD_FROM_DWORD_def HWORD_FROM_DWORD_def HBYTE_FROM_WORD_def
  LBYTE_FROM_WORD_def WORD_FROM_BYTES_def DWORD_FROM_BYTES_def

lemma dword_byte_index:
  fixes n :: nat
  assumes "n < 32"
  obtains "n < 8" | "8 \<le> n" "n < 16" | "16 \<le> n" "n < 24" | "24 \<le> n" "n < 32"
  using assms by linarith

lemma bit_DWORD_FROM_BYTES:
  "bit (DWORD_FROM_BYTES uh ul lh ll) n \<longleftrightarrow>
     (if n < 8 then bit ll n else if n < 16 then bit lh (n - 8)
      else if n < 24 then bit ul (n - 16) else bit uh (n - 24))"
  by (auto simp: DWORD_FROM_BYTES_def bit_simps dest: bit_imp_le_length)

lemma DWORD_FROM_BYTES_split [simp]:
  "DWORD_FROM_BYTES (ucast (HHBYTE_FROM_DWORD d)) (ucast (HLBYTE_FROM_DWORD d))
     (ucast (LHBYTE_FROM_DWORD d)) (ucast (LLBYTE_FROM_DWORD d)) = d"
  by (rule bit_word_eqI)
     (auto simp: bit_DWORD_FROM_BYTES HHBYTE_FROM_DWORD_def HLBYTE_FROM_DWORD_def
       LHBYTE_FROM_DWORD_def LLBYTE_FROM_DWORD_def mask_8 bit_simps)

lemma split_DWORD_FROM_BYTES [simp]:
  "(ucast (HHBYTE_FROM_DWORD (DWORD_FROM_BYTES uh ul lh ll)) :: byte) = uh"
  "(ucast (HLBYTE_FROM_DWORD (DWORD_FROM_BYTES uh ul lh ll)) :: byte) = ul"
  "(ucast (LHBYTE_FROM_DWORD (DWORD_FROM_BYTES uh ul lh ll)) :: byte) = lh"
  "(ucast (LLBYTE_FROM_DWORD (DWORD_FROM_BYTES uh ul lh ll)) :: byte) = ll"
  by (rule bit_word_eqI; auto simp: bit_DWORD_FROM_BYTES HHBYTE_FROM_DWORD_def
       HLBYTE_FROM_DWORD_def LHBYTE_FROM_DWORD_def LLBYTE_FROM_DWORD_def mask_8 bit_simps)+

lemma bit_WORD_FROM_BYTES:
  "bit (WORD_FROM_BYTES hi lo) n \<longleftrightarrow> (if n < 8 then bit lo n else bit hi (n - 8))"
  by (auto simp: WORD_FROM_BYTES_def bit_simps dest: bit_imp_le_length)

lemma WORD_FROM_BYTES_split [simp]:
  "(ucast (WORD_FROM_BYTES (ucast (HBYTE_FROM_WORD w)) (ucast (LBYTE_FROM_WORD w))) :: word16) = w"
  by (rule bit_word_eqI)
     (auto simp: bit_WORD_FROM_BYTES HBYTE_FROM_WORD_def LBYTE_FROM_WORD_def mask_8 bit_simps)

lemma split_WORD_FROM_BYTES [simp]:
  "(ucast (HBYTE_FROM_WORD (ucast (WORD_FROM_BYTES hi lo))) :: byte) = hi"
  "(ucast (LBYTE_FROM_WORD (ucast (WORD_FROM_BYTES hi lo))) :: byte) = lo"
  by (rule bit_word_eqI; auto simp: bit_WORD_FROM_BYTES HBYTE_FROM_WORD_def
       LBYTE_FROM_WORD_def mask_8 bit_simps)+

text \<open>Adding a signed displacement to an unsigned address wraps around.\<close>

lemma UNSIGNED32_sint [simp]: "UNSIGNED32 (SIGNED32 x) = x"
  by (simp add: UNSIGNED32_def SIGNED32_def)

end
