(* ===== verification/Contexts.thy ===== *)
theory Contexts
  imports Rawdefs
begin

text \<open>
  The structs of \<^verbatim>\<open>src/common/types.h\<close> as records, and the accesses to the two register
  arrays. An array that C indexes without a check is a list here, and an access past its end stops
  the run with \<open>Reg_oob\<close>. Not part of the records: the mutexes, the log function and its buffer
  (output only) and the queue of \<open>dma_context\<close>, which nothing allocates.
\<close>

unbundle bit_operations_syntax

section \<open>Structs\<close>

record cache_context =
  cache_start :: dword
  cache :: "byte list"
  hit_count :: word16
  wb_required :: byte

text \<open>
  \<open>memory\<close> is the block of \<open>memory_size\<close> bytes that \<open>emu_create_context\<close> allocates, as a map from
  offsets to bytes: only the offsets below \<open>memory_size\<close> are the program's.
\<close>

record memory_context =
  lines :: "cache_context list"
  memory :: "dword \<Rightarrow> byte"
  memory_size :: dword
  cache_lines :: word16
  cache_line_size :: word16

record cpu_context =
  cregs :: "dword list"
  regs :: "dword list"
  pos :: dword
  int_present :: dword
  ints :: "byte list"

record statistic_context =
  cache_miss_count :: dword
  cache_hits :: qword
  interrupt_count :: dword
  instruction_count :: qword

record emulator_context =
  memory_context :: memory_context
  cpu_context :: cpu_context
  statistic_context :: statistic_context

record instruction_context =
  opcode :: byte
  dst :: byte
  opa :: byte
  opb :: byte
  imm12 :: word16
  imm16 :: word16
  prefix :: byte
  condition :: byte

section \<open>Access paths\<close>

text \<open>
  \<open>ectx->cpu_context->regs[r]\<close> and \<open>ectx->cpu_context->cregs[r]\<close>, read and written, and the
  instruction pointer \<open>ectx->cpu_context->pos\<close>.
\<close>

definition get_reg :: "byte \<Rightarrow> emulator_context \<Rightarrow> stop + dword" where
  "get_reg r s =
     (if unat r < length (regs (cpu_context s)) then Inr (regs (cpu_context s) ! unat r)
      else Inl (Reg_oob r))"

definition set_reg :: "byte \<Rightarrow> dword \<Rightarrow> emulator_context \<Rightarrow> stop + emulator_context" where
  "set_reg r v s =
     (if unat r < length (regs (cpu_context s))
      then Inr (s\<lparr>cpu_context := (cpu_context s)
                   \<lparr>regs := (regs (cpu_context s))[unat r := v]\<rparr>\<rparr>)
      else Inl (Reg_oob r))"

definition get_creg :: "byte \<Rightarrow> emulator_context \<Rightarrow> stop + dword" where
  "get_creg r s =
     (if unat r < length (cregs (cpu_context s)) then Inr (cregs (cpu_context s) ! unat r)
      else Inl (Reg_oob r))"

definition set_creg :: "byte \<Rightarrow> dword \<Rightarrow> emulator_context \<Rightarrow> stop + emulator_context" where
  "set_creg r v s =
     (if unat r < length (cregs (cpu_context s))
      then Inr (s\<lparr>cpu_context := (cpu_context s)
                   \<lparr>cregs := (cregs (cpu_context s))[unat r := v]\<rparr>\<rparr>)
      else Inl (Reg_oob r))"

definition get_pos :: "emulator_context \<Rightarrow> dword" where
  "get_pos s = pos (cpu_context s)"

definition set_pos :: "dword \<Rightarrow> emulator_context \<Rightarrow> emulator_context" where
  "set_pos p s = s\<lparr>cpu_context := (cpu_context s)\<lparr>pos := p\<rparr>\<rparr>"

section \<open>Well-formed states\<close>

text \<open>
  Both register arrays have sixteen cells. Under this invariant an access with a number below
  sixteen does not stop, and it is the total read \<open>reg_of\<close>, \<open>creg_of\<close> or write \<open>upd_reg\<close>, \<open>upd_creg\<close>.
\<close>

definition wf :: "emulator_context \<Rightarrow> bool" where
  "wf s \<longleftrightarrow> length (regs (cpu_context s)) = 16 \<and> length (cregs (cpu_context s)) = 16"

definition reg_of :: "emulator_context \<Rightarrow> byte \<Rightarrow> dword" where
  "reg_of s r = regs (cpu_context s) ! unat r"

definition creg_of :: "emulator_context \<Rightarrow> byte \<Rightarrow> dword" where
  "creg_of s r = cregs (cpu_context s) ! unat r"

definition mem_at :: "emulator_context \<Rightarrow> dword \<Rightarrow> byte" where
  "mem_at s a = memory (memory_context s) a"

definition msize :: "emulator_context \<Rightarrow> dword" where
  "msize s = memory_size (memory_context s)"

definition upd_reg :: "byte \<Rightarrow> dword \<Rightarrow> emulator_context \<Rightarrow> emulator_context" where
  "upd_reg r v s = s\<lparr>cpu_context := (cpu_context s)
                      \<lparr>regs := (regs (cpu_context s))[unat r := v]\<rparr>\<rparr>"

definition upd_creg :: "byte \<Rightarrow> dword \<Rightarrow> emulator_context \<Rightarrow> emulator_context" where
  "upd_creg r v s = s\<lparr>cpu_context := (cpu_context s)
                      \<lparr>cregs := (cregs (cpu_context s))[unat r := v]\<rparr>\<rparr>"

lemma get_reg_norm [norm_simps]: "wf s \<Longrightarrow> r < 16 \<Longrightarrow> get_reg r s = Inr (reg_of s r)"
  by (simp add: get_reg_def wf_def reg_of_def word_less_nat_alt)

lemma set_reg_norm [norm_simps]: "wf s \<Longrightarrow> r < 16 \<Longrightarrow> set_reg r v s = Inr (upd_reg r v s)"
  by (simp add: set_reg_def wf_def upd_reg_def word_less_nat_alt)

lemma get_creg_norm [norm_simps]: "wf s \<Longrightarrow> r < 16 \<Longrightarrow> get_creg r s = Inr (creg_of s r)"
  by (simp add: get_creg_def wf_def creg_of_def word_less_nat_alt)

lemma set_creg_norm [norm_simps]: "wf s \<Longrightarrow> r < 16 \<Longrightarrow> set_creg r v s = Inr (upd_creg r v s)"
  by (simp add: set_creg_def wf_def upd_creg_def word_less_nat_alt)

lemma wf_upd [simp, wf_intros]:
  "wf (upd_reg r v s) = wf s" "wf (upd_creg r v s) = wf s" "wf (set_pos p s) = wf s"
  by (simp_all add: wf_def upd_reg_def upd_creg_def set_pos_def)

lemma reg_of_upd [ectx_simps]:
  "wf s \<Longrightarrow> r < 16 \<Longrightarrow> reg_of (upd_reg r v s) r' = (if r' = r then v else reg_of s r')"
  "reg_of (upd_creg r v s) r' = reg_of s r'"
  "reg_of (set_pos p s) r' = reg_of s r'"
  by (auto simp: reg_of_def upd_reg_def upd_creg_def set_pos_def wf_def word_less_nat_alt
      nth_list_update dest: unsigned_word_eqI)

lemma creg_of_upd [ectx_simps]:
  "wf s \<Longrightarrow> r < 16 \<Longrightarrow> creg_of (upd_creg r v s) r' = (if r' = r then v else creg_of s r')"
  "creg_of (upd_reg r v s) r' = creg_of s r'"
  "creg_of (set_pos p s) r' = creg_of s r'"
  by (auto simp: creg_of_def upd_reg_def upd_creg_def set_pos_def wf_def word_less_nat_alt
      nth_list_update dest: unsigned_word_eqI)

lemma pos_upd [ectx_simps]:
  "get_pos (upd_reg r v s) = get_pos s" "get_pos (upd_creg r v s) = get_pos s"
  "get_pos (set_pos p s) = p"
  by (simp_all add: get_pos_def upd_reg_def upd_creg_def set_pos_def)

lemma memory_upd [ectx_simps]:
  "memory_context (upd_reg r v s) = memory_context s"
  "memory_context (upd_creg r v s) = memory_context s"
  "memory_context (set_pos p s) = memory_context s"
  "mem_at (upd_reg r v s) = mem_at s" "mem_at (upd_creg r v s) = mem_at s" "mem_at (set_pos p s) = mem_at s"
  "msize (upd_reg r v s) = msize s" "msize (upd_creg r v s) = msize s"
  "msize (set_pos p s) = msize s"
  by (simp_all add: upd_reg_def upd_creg_def set_pos_def mem_at_def msize_def fun_eq_iff)

lemma stat_upd [ectx_simps]:
  "statistic_context (upd_reg r v s) = statistic_context s"
  "statistic_context (upd_creg r v s) = statistic_context s"
  "statistic_context (set_pos p s) = statistic_context s"
  by (simp_all add: upd_reg_def upd_creg_def set_pos_def)

text \<open>An access with a number of sixteen or more stops, and with nothing else.\<close>

lemma get_reg_Inl: "get_reg r s = Inl e \<Longrightarrow> e = Reg_oob r"
  by (auto simp: get_reg_def split: if_splits)

lemma set_reg_Inl: "set_reg r v s = Inl e \<Longrightarrow> e = Reg_oob r"
  by (auto simp: set_reg_def split: if_splits)

text \<open>Two well-formed states with the same cells, pointer, memory and counters are equal.\<close>

lemma regs_eqI:
  assumes "wf s" "wf t" "\<And>r. r < 16 \<Longrightarrow> reg_of s r = reg_of t r"
  shows "regs (cpu_context s) = regs (cpu_context t)"
proof (rule nth_equalityI)
  show "length (regs (cpu_context s)) = length (regs (cpu_context t))"
    using assms by (simp add: wf_def)
next
  fix i assume "i < length (regs (cpu_context s))"
  then have i: "i < 16" using assms(1) by (simp add: wf_def)
  then have "(of_nat i :: byte) < 16" "unat (of_nat i :: byte) = i"
    by (simp_all add: word_less_nat_alt unat_of_nat)
  with assms(3)[of "of_nat i"] show "regs (cpu_context s) ! i = regs (cpu_context t) ! i"
    by (simp add: reg_of_def)
qed

text \<open>
  A small well-formed state for worked examples: \<open>n\<close> bytes of zeroed memory and zeroed registers.
\<close>

definition sample_ectx :: "dword \<Rightarrow> emulator_context" where
  "sample_ectx n =
     \<lparr>memory_context = \<lparr>lines = [], memory = (\<lambda>_. 0), memory_size = n,
                         cache_lines = 0, cache_line_size = 0\<rparr>,
      cpu_context = \<lparr>cregs = replicate 16 0, regs = replicate 16 0, pos = 0,
                      int_present = 0, ints = []\<rparr>,
      statistic_context = \<lparr>cache_miss_count = 0, cache_hits = 0, interrupt_count = 0,
                            instruction_count = 0\<rparr>\<rparr>"

lemma sample_ectx_simps [simp]:
  "wf (sample_ectx n)" "memory_size (memory_context (sample_ectx n)) = n"
  "msize (sample_ectx n) = n" "mem_at (sample_ectx n) a = 0" "get_pos (sample_ectx n) = 0"
  "r < 16 \<Longrightarrow> reg_of (sample_ectx n) r = 0" "r < 16 \<Longrightarrow> creg_of (sample_ectx n) r = 0"
  by (simp_all add: sample_ectx_def wf_def msize_def mem_at_def get_pos_def reg_of_def creg_of_def
      word_less_nat_alt)

end
