(* ===== verification/Registers.thy ===== *)
theory Registers
  imports Contexts
begin

text \<open>
  The views of the register array of \<^verbatim>\<open>src/cpu/cpu.c\<close>: each dword register is two word
  registers, and four byte registers. The accessors take the array \<open>regs\<close> of the context they are
  called with, so the state stands for it here. The flags of register \<open>FLGS\<close> are set and cleared
  by masks.
\<close>

unbundle bit_operations_syntax

section \<open>Accessors\<close>

definition cpu_get_byte_reg :: "byte \<Rightarrow> emulator_context \<Rightarrow> stop + byte" where
  "cpu_get_byte_reg r ectx =
     ubind (get_reg (r div 4) ectx) (\<lambda>i.
     let i = drop_bit (unat (r mod 4) * 8) i AND 0xFF in
     Inr (ucast i))"

definition cpu_set_byte_reg :: "byte \<Rightarrow> byte \<Rightarrow> emulator_context \<Rightarrow> stop + emulator_context" where
  "cpu_set_byte_reg r val ectx =
     ubind (get_reg (r div 4) ectx) (\<lambda>i.
     let i = i AND NOT (push_bit (unat (r mod 4) * 8) 0xFF);
         i = i OR push_bit (unat (r mod 4) * 8) (ucast val) in
     set_reg (r div 4) i ectx)"

definition cpu_get_word_reg :: "byte \<Rightarrow> emulator_context \<Rightarrow> stop + word16" where
  "cpu_get_word_reg r ectx =
     ubind (get_reg (r div 2) ectx) (\<lambda>i.
     let i = drop_bit (unat (r mod 2) * 16) i AND 0xFFFF in
     Inr (ucast i))"

definition cpu_set_word_reg :: "byte \<Rightarrow> word16 \<Rightarrow> emulator_context \<Rightarrow> stop + emulator_context" where
  "cpu_set_word_reg r val ectx =
     ubind (get_reg (r div 2) ectx) (\<lambda>i.
     let i = i AND NOT (push_bit (unat (r mod 2) * 16) 0xFFFF);
         i = i OR push_bit (unat (r mod 2) * 16) (ucast val) in
     set_reg (r div 2) i ectx)"

text \<open>
  \<open>cctx->regs[CPU_REG_FLGS] |= m\<close> where the condition holds, \<open>&= ~m\<close> where it does not: the
  pattern by which every instruction sets a flag.
\<close>

definition put_flag :: "bool \<Rightarrow> dword \<Rightarrow> emulator_context \<Rightarrow> stop + emulator_context" where
  "put_flag b m ectx =
     ubind (get_reg CPU_REG_FLGS ectx) (\<lambda>f.
     set_reg CPU_REG_FLGS (if b then f OR m else f AND NOT m) ectx)"

section \<open>An interface of register files\<close>

text \<open>
  What the instructions rely on: a numbered register of the file can be read and written while
  the invariant holds, a write shows in that register and in no other of the file, and writing
  back the value read changes nothing.
\<close>

locale register_file =
  fixes inv :: "'s \<Rightarrow> bool"
    and valid :: "byte \<Rightarrow> bool"
    and get :: "byte \<Rightarrow> 's \<Rightarrow> stop + 'v"
    and put :: "byte \<Rightarrow> 'v \<Rightarrow> 's \<Rightarrow> stop + 's"
  assumes get_ok: "inv s \<Longrightarrow> valid r \<Longrightarrow> \<exists>v. get r s = Inr v"
    and put_ok: "inv s \<Longrightarrow> valid r \<Longrightarrow> \<exists>s'. put r v s = Inr s' \<and> inv s'"
    and get_put: "inv s \<Longrightarrow> valid r \<Longrightarrow> valid r' \<Longrightarrow> put r v s = Inr s' \<Longrightarrow>
      get r' s' = (if r' = r then Inr v else get r' s)"
    and put_get: "inv s \<Longrightarrow> valid r \<Longrightarrow> get r s = Inr v \<Longrightarrow> put r v s = Inr s"
begin

text \<open>Copying register \<open>b\<close> to register \<open>a\<close>.\<close>

lemma copy_correct:
  assumes "inv s" "valid a" "valid b"
  shows "\<exists>s'. ubind (get b s) (\<lambda>v. put a v s) = Inr s' \<and> inv s' \<and>
           get a s' = get b s \<and> (\<forall>r. valid r \<and> r \<noteq> a \<longrightarrow> get r s' = get r s)"
proof -
  obtain v where v: "get b s = Inr v" using get_ok assms by blast
  obtain s' where s': "put a v s = Inr s'" "inv s'" using put_ok assms by blast
  show ?thesis
    using v s' get_put[OF assms(1,2) _ s'(1)] assms by auto
qed

text \<open>Copying a register to itself is no change.\<close>

lemma copy_self: "inv s \<Longrightarrow> valid a \<Longrightarrow> ubind (get a s) (\<lambda>v. put a v s) = Inr s"
  using get_ok[of s a] put_get[of s a] by auto

text \<open>Exchanging two registers through a temporary.\<close>

lemma swap_correct:
  assumes "inv s" "valid a" "valid b"
  shows "\<exists>s'. ubind (get a s) (\<lambda>t. ubind (get b s) (\<lambda>v. ubind (put a v s) (put b t))) = Inr s' \<and>
           inv s' \<and> get a s' = get b s \<and> get b s' = get a s \<and>
           (\<forall>r. valid r \<and> r \<noteq> a \<and> r \<noteq> b \<longrightarrow> get r s' = get r s)"
proof -
  obtain t v where tv: "get a s = Inr t" "get b s = Inr v" using get_ok assms by blast
  obtain s1 where s1: "put a v s = Inr s1" "inv s1" using put_ok assms by blast
  obtain s2 where s2: "put b t s1 = Inr s2" "inv s2" using put_ok s1(2) assms by blast
  show ?thesis
    using tv s1 s2 get_put[OF assms(1,2) _ s1(1)] get_put[OF s1(2) assms(3) _ s2(1)] assms
    by auto
qed

text \<open>The second of two writes to one register wins.\<close>

lemma get_put_put:
  assumes "inv s" "valid a" "put a v s = Inr s1" "put a w s1 = Inr s2" "valid r"
  shows "get r s2 = (if r = a then Inr w else get r s)"
proof -
  have "inv s1" using put_ok[OF assms(1,2), of v] assms(3) by auto
  then show ?thesis
    using get_put[OF assms(1,2,5,3)] get_put[OF _ assms(2,5,4)] by auto
qed

end

section \<open>The three register files\<close>

lemma get_reg_set_reg:
  assumes "wf s" "r < 16" "set_reg r v s = Inr s'"
  shows "get_reg r' s' = (if r' = r then Inr v else get_reg r' s)"
  using assms
  by (auto simp: get_reg_def set_reg_def wf_def word_less_nat_alt nth_list_update
      dest: unsigned_word_eqI split: if_splits)

interpretation dwords: register_file wf "\<lambda>r. r < 16" get_reg set_reg
proof
  fix s s' :: emulator_context and r r' :: byte and v :: dword
  assume s: "wf s" "r < 16"
  show "\<exists>v. get_reg r s = Inr v" using s by (simp add: get_reg_norm)
  show "\<exists>s'. set_reg r v s = Inr s' \<and> wf s'" using s by (simp add: set_reg_norm)
  show "get_reg r' s' = (if r' = r then Inr v else get_reg r' s)"
    if "set_reg r v s = Inr s'" "r' < 16"
    using s that by (simp add: get_reg_set_reg)
  show "set_reg r v s = Inr s" if "get_reg r s = Inr v"
    using s that by (auto simp: get_reg_norm set_reg_norm upd_reg_def reg_of_def wf_def)
qed

subsection \<open>Parts of a dword\<close>

text \<open>Reading and replacing \<open>n\<close> bits of \<open>i\<close> at position \<open>k\<close>.\<close>

definition field :: "nat \<Rightarrow> nat \<Rightarrow> dword \<Rightarrow> dword" where
  "field n k i = drop_bit k i AND mask n"

definition set_field :: "nat \<Rightarrow> nat \<Rightarrow> dword \<Rightarrow> dword \<Rightarrow> dword" where
  "set_field n k v i = (i AND NOT (push_bit k (mask n))) OR push_bit k v"

lemma bit_field: "bit (field n k i) j \<longleftrightarrow> j < n \<and> bit i (k + j)"
  by (auto simp: field_def bit_simps dest: bit_imp_le_length)

lemma bit_set_field:
  assumes "k + n \<le> 32" "take_bit n v = v"
  shows "bit (set_field n k v i) j \<longleftrightarrow>
     (if k \<le> j \<and> j < k + n then bit v (j - k) else bit i j)"
proof -
  have v: "\<not> bit v m" if "n \<le> m" for m
    using assms(2) that by (metis bit_take_bit_iff leD)
  show ?thesis
  proof (cases "k \<le> j \<and> j < k + n")
    case True
    then show ?thesis using assms(1) by (auto simp: set_field_def bit_simps)
  next
    case False
    then have "k \<le> j \<Longrightarrow> \<not> bit v (j - k)" by (intro v) simp
    with False show ?thesis
      by (auto simp: set_field_def bit_simps dest: bit_imp_le_length)
  qed
qed

lemma field_set_field:
  assumes "k + n \<le> 32" "take_bit n v = v"
  shows "field n k (set_field n k v i) = v"
proof (rule bit_word_eqI)
  fix j
  have "bit v m \<Longrightarrow> m < n" for m
    using assms(2) by (metis bit_take_bit_iff)
  then show "bit (field n k (set_field n k v i)) j = bit v j"
    by (auto simp: bit_field bit_set_field[OF assms])
qed

lemma field_set_field_other:
  assumes "k + n \<le> 32" "take_bit n v = v" "k' + n \<le> k \<or> k + n \<le> k'"
  shows "field n k' (set_field n k v i) = field n k' i"
  by (rule bit_word_eqI) (use assms(3) in \<open>auto simp: bit_field bit_set_field[OF assms(1,2)]\<close>)

lemma set_field_field:
  assumes "k + n \<le> 32"
  shows "set_field n k (field n k i) i = i"
proof (rule bit_word_eqI)
  fix j
  have "take_bit n (field n k i) = field n k i"
    by (rule bit_word_eqI) (simp add: bit_field bit_take_bit_iff)
  then show "bit (set_field n k (field n k i) i) j = bit i j"
    using bit_set_field[OF assms, of "field n k i"] by (auto simp: bit_field)
qed

lemma take_bit_ucast_byte [simp]: "take_bit 8 (ucast (v :: byte) :: dword) = ucast v"
  by (rule bit_word_eqI) (auto simp: bit_simps dest: bit_imp_le_length)

lemma take_bit_ucast_word [simp]: "take_bit 16 (ucast (v :: word16) :: dword) = ucast v"
  by (rule bit_word_eqI) (auto simp: bit_simps dest: bit_imp_le_length)

lemma ucast_ucast_field [simp]:
  "(ucast (ucast (field 8 k i) :: byte) :: dword) = field 8 k i"
  "(ucast (ucast (field 16 k i) :: word16) :: dword) = field 16 k i"
  by (rule bit_word_eqI; auto simp: bit_simps bit_field)+

lemma ucast_ucast_small [simp]:
  "(ucast (ucast (v :: byte) :: dword) :: byte) = v"
  "(ucast (ucast (w :: word16) :: dword) :: word16) = w"
  by (rule bit_word_eqI; auto simp: bit_simps)+

subsection \<open>Byte and word registers as parts\<close>

definition byte_reg :: "emulator_context \<Rightarrow> byte \<Rightarrow> byte" where
  "byte_reg s r = ucast (field 8 (unat (r mod 4) * 8) (reg_of s (r div 4)))"

definition upd_byte_reg :: "byte \<Rightarrow> byte \<Rightarrow> emulator_context \<Rightarrow> emulator_context" where
  "upd_byte_reg r v s =
     upd_reg (r div 4) (set_field 8 (unat (r mod 4) * 8) (ucast v) (reg_of s (r div 4))) s"

definition word_reg :: "emulator_context \<Rightarrow> byte \<Rightarrow> word16" where
  "word_reg s r = ucast (field 16 (unat (r mod 2) * 16) (reg_of s (r div 2)))"

definition upd_word_reg :: "byte \<Rightarrow> word16 \<Rightarrow> emulator_context \<Rightarrow> emulator_context" where
  "upd_word_reg r v s =
     upd_reg (r div 2) (set_field 16 (unat (r mod 2) * 16) (ucast v) (reg_of s (r div 2))) s"

lemma div_bounds:
  "r < 64 \<Longrightarrow> r div 4 < 16" "r < 32 \<Longrightarrow> r div 2 < 16" for r :: byte
  by (simp_all add: word_less_nat_alt unat_div)

lemma mod_bounds: "unat (r mod 4) < 4" "unat (r mod 2) < 2" for r :: byte
  by (simp_all add: unat_mod)

lemma cpu_get_byte_reg_norm [norm_simps]:
  "wf s \<Longrightarrow> r < 64 \<Longrightarrow> cpu_get_byte_reg r s = Inr (byte_reg s r)"
  by (simp add: cpu_get_byte_reg_def get_reg_norm div_bounds byte_reg_def field_def mask_8)

lemma cpu_set_byte_reg_norm [norm_simps]:
  "wf s \<Longrightarrow> r < 64 \<Longrightarrow> cpu_set_byte_reg r v s = Inr (upd_byte_reg r v s)"
  by (simp add: cpu_set_byte_reg_def get_reg_norm set_reg_norm div_bounds upd_byte_reg_def
      set_field_def mask_8 Let_def)

lemma cpu_get_word_reg_norm [norm_simps]:
  "wf s \<Longrightarrow> r < 32 \<Longrightarrow> cpu_get_word_reg r s = Inr (word_reg s r)"
  by (simp add: cpu_get_word_reg_def get_reg_norm div_bounds word_reg_def field_def mask_16)

lemma cpu_set_word_reg_norm [norm_simps]:
  "wf s \<Longrightarrow> r < 32 \<Longrightarrow> cpu_set_word_reg r v s = Inr (upd_word_reg r v s)"
  by (simp add: cpu_set_word_reg_def get_reg_norm set_reg_norm div_bounds upd_word_reg_def
      set_field_def mask_16 Let_def)

lemma wf_upd_part [simp, wf_intros]:
  "wf (upd_byte_reg r v s) = wf s" "wf (upd_word_reg r w s) = wf s"
  by (simp_all add: upd_byte_reg_def upd_word_reg_def)

lemma part_neq:
  "r \<noteq> r' \<Longrightarrow> r div 4 = r' div 4 \<Longrightarrow> unat (r mod 4) \<noteq> unat (r' mod 4)"
  "r \<noteq> r' \<Longrightarrow> r div 2 = r' div 2 \<Longrightarrow> unat (r mod 2) \<noteq> unat (r' mod 2)" for r r' :: byte
  by (metis unsigned_word_eqI div_mult_mod_eq)+

lemma byte_reg_upd [ectx_simps]:
  assumes "wf s" "r < 64"
  shows "byte_reg (upd_byte_reg r v s) r' = (if r' = r then v else byte_reg s r')"
proof (cases "r' \<noteq> r \<and> r' div 4 = r div 4")
  case True
  then have "unat (r' mod 4) * 8 + 8 \<le> unat (r mod 4) * 8 \<or>
             unat (r mod 4) * 8 + 8 \<le> unat (r' mod 4) * 8"
    using part_neq(1)[of r' r] by auto
  then show ?thesis
    using True assms mod_bounds(1)[of r] field_set_field_other[of "unat (r mod 4) * 8" 8 "ucast v"]
    by (simp add: byte_reg_def upd_byte_reg_def reg_of_upd div_bounds)
next
  case False
  then show ?thesis
    using assms mod_bounds(1)[of r] field_set_field[of "unat (r mod 4) * 8" 8 "ucast v"]
    by (auto simp: byte_reg_def upd_byte_reg_def reg_of_upd div_bounds)
qed

lemma word_reg_upd [ectx_simps]:
  assumes "wf s" "r < 32"
  shows "word_reg (upd_word_reg r v s) r' = (if r' = r then v else word_reg s r')"
proof (cases "r' \<noteq> r \<and> r' div 2 = r div 2")
  case True
  then have "unat (r' mod 2) * 16 + 16 \<le> unat (r mod 2) * 16 \<or>
             unat (r mod 2) * 16 + 16 \<le> unat (r' mod 2) * 16"
    using part_neq(2)[of r' r] by auto
  then show ?thesis
    using True assms mod_bounds(2)[of r] field_set_field_other[of "unat (r mod 2) * 16" 16 "ucast v"]
    by (simp add: word_reg_def upd_word_reg_def reg_of_upd div_bounds)
next
  case False
  then show ?thesis
    using assms mod_bounds(2)[of r] field_set_field[of "unat (r mod 2) * 16" 16 "ucast v"]
    by (auto simp: word_reg_def upd_word_reg_def reg_of_upd div_bounds)
qed

lemma upd_reg_same: "wf s \<Longrightarrow> r < 16 \<Longrightarrow> upd_reg r (reg_of s r) s = s"
  by (simp add: upd_reg_def reg_of_def)

lemma upd_reg_twice: "upd_reg r v (upd_reg r w s) = upd_reg r v s"
  by (simp add: upd_reg_def)

lemma upd_reg_swap: "r \<noteq> q \<Longrightarrow> upd_reg r v (upd_reg q w s) = upd_reg q w (upd_reg r v s)"
  by (simp add: upd_reg_def list_update_swap unsigned_word_eqI word_unat_eq_iff)

interpretation bytes: register_file wf "\<lambda>r. r < 64" cpu_get_byte_reg cpu_set_byte_reg
proof
  fix s s' :: emulator_context and r r' :: byte and v :: byte
  assume s: "wf s" "r < 64"
  show "\<exists>v. cpu_get_byte_reg r s = Inr v" using s by (simp add: cpu_get_byte_reg_norm)
  show "\<exists>s'. cpu_set_byte_reg r v s = Inr s' \<and> wf s'" using s by (simp add: cpu_set_byte_reg_norm)
  show "cpu_get_byte_reg r' s' = (if r' = r then Inr v else cpu_get_byte_reg r' s)"
    if "cpu_set_byte_reg r v s = Inr s'" "r' < 64"
    using s that by (auto simp: cpu_get_byte_reg_norm cpu_set_byte_reg_norm byte_reg_upd)
  show "cpu_set_byte_reg r v s = Inr s" if "cpu_get_byte_reg r s = Inr v"
    using s that mod_bounds(1)[of r]
    by (auto simp: cpu_get_byte_reg_norm cpu_set_byte_reg_norm upd_byte_reg_def byte_reg_def
        set_field_field upd_reg_same div_bounds)
qed

interpretation words: register_file wf "\<lambda>r. r < 32" cpu_get_word_reg cpu_set_word_reg
proof
  fix s s' :: emulator_context and r r' :: byte and v :: word16
  assume s: "wf s" "r < 32"
  show "\<exists>v. cpu_get_word_reg r s = Inr v" using s by (simp add: cpu_get_word_reg_norm)
  show "\<exists>s'. cpu_set_word_reg r v s = Inr s' \<and> wf s'" using s by (simp add: cpu_set_word_reg_norm)
  show "cpu_get_word_reg r' s' = (if r' = r then Inr v else cpu_get_word_reg r' s)"
    if "cpu_set_word_reg r v s = Inr s'" "r' < 32"
    using s that by (auto simp: cpu_get_word_reg_norm cpu_set_word_reg_norm word_reg_upd)
  show "cpu_set_word_reg r v s = Inr s" if "cpu_get_word_reg r s = Inr v"
    using s that mod_bounds(2)[of r]
    by (auto simp: cpu_get_word_reg_norm cpu_set_word_reg_norm upd_word_reg_def word_reg_def
        set_field_field upd_reg_same div_bounds)
qed

lemma views_div:
  fixes n :: byte
  assumes "n < 16"
  shows "k < 4 \<Longrightarrow> (4 * n + of_nat k) div 4 = n \<and> unat ((4 * n + of_nat k) mod 4) = k \<and> 4 * n + of_nat k < 64"
    "k < 2 \<Longrightarrow> (2 * n + of_nat k) div 2 = n \<and> unat ((2 * n + of_nat k) mod 2) = k \<and> 2 * n + of_nat k < 32"
proof -
  have n: "unat n < 16" using assms by (simp add: word_less_nat_alt)
  have u4: "unat (4 * n + of_nat k) = 4 * unat n + k" if "k < 4"
    using n that by (simp add: unat_word_ariths unsigned_of_nat take_bit_nat_eq_self)
  have u2: "unat (2 * n + of_nat k) = 2 * unat n + k" if "k < 2"
    using n that by (simp add: unat_word_ariths unsigned_of_nat take_bit_nat_eq_self)
  show "k < 4 \<Longrightarrow> (4 * n + of_nat k) div 4 = n \<and> unat ((4 * n + of_nat k) mod 4) = k \<and> 4 * n + of_nat k < 64"
    using u4 n by (simp add: word_unat_eq_iff unat_div unat_mod word_less_nat_alt)
  show "k < 2 \<Longrightarrow> (2 * n + of_nat k) div 2 = n \<and> unat ((2 * n + of_nat k) mod 2) = k \<and> 2 * n + of_nat k < 32"
    using u2 n by (simp add: word_unat_eq_iff unat_div unat_mod word_less_nat_alt)
qed

lemma view_regs:
  assumes "n < 16"
  shows "k < 4 \<Longrightarrow> byte_reg s (4 * n + of_nat k) = ucast (drop_bit (8 * k) (reg_of s n))"
    "k < 2 \<Longrightarrow> word_reg s (2 * n + of_nat k) = ucast (drop_bit (16 * k) (reg_of s n))"
proof -
  show "byte_reg s (4 * n + of_nat k) = ucast (drop_bit (8 * k) (reg_of s n))" if "k < 4"
    using views_div(1)[OF assms that]
    by (intro bit_word_eqI) (simp add: byte_reg_def bit_simps bit_field mult.commute)
  show "word_reg s (2 * n + of_nat k) = ucast (drop_bit (16 * k) (reg_of s n))" if "k < 2"
    using views_div(2)[OF assms that]
    by (intro bit_word_eqI) (simp add: word_reg_def bit_simps bit_field mult.commute)
qed

section \<open>Properties\<close>

text \<open>
  C32. The three register files are views of one array, in little-endian order: byte register
  \<open>4n+k\<close> is byte \<open>k\<close> of dword register \<open>n\<close> and word register \<open>2n+k\<close> is its word \<open>k\<close>, so the dword is
  the four bytes put together and each word is its two bytes.
\<close>

theorem register_views:
  assumes "wf s" "n < 16" "get_reg n s = Inr d"
  shows "(\<forall>k < 4. cpu_get_byte_reg (4 * n + of_nat k) s = Inr (ucast (drop_bit (8 * k) d))) \<and>
         (\<forall>k < 2. cpu_get_word_reg (2 * n + of_nat k) s = Inr (ucast (drop_bit (16 * k) d))) \<and>
         (\<exists>b0 b1 b2 b3. map (\<lambda>k. cpu_get_byte_reg (4 * n + of_nat k) s) [0..<4] = map Inr [b0, b1, b2, b3] \<and>
            d = DWORD_FROM_BYTES b3 b2 b1 b0)"
proof -
  have d: "d = reg_of s n" using assms by (simp add: get_reg_norm)
  have b: "cpu_get_byte_reg (4 * n + of_nat k) s = Inr (ucast (drop_bit (8 * k) d))" if "k < 4" for k
    using view_regs(1)[OF assms(2) that] views_div(1)[OF assms(2) that] assms(1)
    by (simp add: d cpu_get_byte_reg_norm)
  have w: "cpu_get_word_reg (2 * n + of_nat k) s = Inr (ucast (drop_bit (16 * k) d))" if "k < 2" for k
    using view_regs(2)[OF assms(2) that] views_div(2)[OF assms(2) that] assms(1)
    by (simp add: d cpu_get_word_reg_norm)
  have "d = DWORD_FROM_BYTES (ucast (drop_bit 24 d)) (ucast (drop_bit 16 d)) (ucast (drop_bit 8 d)) (ucast d)"
    using DWORD_FROM_BYTES_split[of d] by (simp add: macro_defs)
  moreover have "map (\<lambda>k. cpu_get_byte_reg (4 * n + of_nat k) s) [0..<4] =
      map Inr [ucast d, ucast (drop_bit 8 d), ucast (drop_bit 16 d), ucast (drop_bit 24 d)]"
    using b[of 0] b[of 1] b[of 2] b[of 3] by (simp add: upt_rec numeral_eq_Suc)
  ultimately show ?thesis using b w by blast
qed

theorem register_views_witness:
  "cpu_get_byte_reg 9 (upd_reg 2 0x11223344 (sample_ectx 64)) = Inr 0x33"
proof -
  let ?s = "upd_reg 2 0x11223344 (sample_ectx 64)"
  have "get_reg 2 ?s = Inr 0x11223344" by (simp add: get_reg_norm reg_of_upd)
  then have "\<forall>k < 4. cpu_get_byte_reg (4 * 2 + of_nat k) ?s = Inr (ucast (drop_bit (8 * k) (0x11223344 :: dword)))"
    using register_views[of ?s 2 "0x11223344"] by simp
  from spec[OF this, of 1] show ?thesis by simp
qed

text \<open>
  Writing a byte or word register always succeeds, is read back, and leaves every other register
  of the same width, the control registers, the memory and the instruction pointer as they were.
\<close>

theorem subregister_write:
  assumes "wf s"
  shows "(\<forall>r < 64. \<exists>s'. cpu_set_byte_reg r v s = Inr s' \<and> wf s' \<and> cpu_get_byte_reg r s' = Inr v \<and>
            (\<forall>q < 64. q \<noteq> r \<longrightarrow> cpu_get_byte_reg q s' = cpu_get_byte_reg q s) \<and>
            creg_of s' = creg_of s \<and> memory_context s' = memory_context s \<and> get_pos s' = get_pos s) \<and>
         (\<forall>r < 32. \<exists>s'. cpu_set_word_reg r w s = Inr s' \<and> wf s' \<and> cpu_get_word_reg r s' = Inr w \<and>
            (\<forall>q < 32. q \<noteq> r \<longrightarrow> cpu_get_word_reg q s' = cpu_get_word_reg q s) \<and>
            creg_of s' = creg_of s \<and> memory_context s' = memory_context s \<and> get_pos s' = get_pos s)"
proof (intro conjI allI impI)
  fix r :: byte assume r: "r < 64"
  have eq: "cpu_set_byte_reg r v s = Inr (upd_byte_reg r v s)"
    using assms r by (rule cpu_set_byte_reg_norm)
  show "\<exists>s'. cpu_set_byte_reg r v s = Inr s' \<and> wf s' \<and> cpu_get_byte_reg r s' = Inr v \<and>
            (\<forall>q < 64. q \<noteq> r \<longrightarrow> cpu_get_byte_reg q s' = cpu_get_byte_reg q s) \<and>
            creg_of s' = creg_of s \<and> memory_context s' = memory_context s \<and> get_pos s' = get_pos s"
    using bytes.get_put[OF assms r _ eq] r assms eq
    by (auto simp: upd_byte_reg_def ectx_simps fun_eq_iff)
next
  fix r :: byte assume r: "r < 32"
  have eq: "cpu_set_word_reg r w s = Inr (upd_word_reg r w s)"
    using assms r by (rule cpu_set_word_reg_norm)
  show "\<exists>s'. cpu_set_word_reg r w s = Inr s' \<and> wf s' \<and> cpu_get_word_reg r s' = Inr w \<and>
            (\<forall>q < 32. q \<noteq> r \<longrightarrow> cpu_get_word_reg q s' = cpu_get_word_reg q s) \<and>
            creg_of s' = creg_of s \<and> memory_context s' = memory_context s \<and> get_pos s' = get_pos s"
    using words.get_put[OF assms r _ eq] r assms eq
    by (auto simp: upd_word_reg_def ectx_simps fun_eq_iff)
qed

theorem subregister_write_witness:
  "\<exists>s'. cpu_set_byte_reg 5 0xAB (sample_ectx 64) = Inr s' \<and> cpu_get_byte_reg 5 s' = Inr 0xAB"
  using conjunct1[OF subregister_write[of "sample_ectx 64" "0xAB" 0]]
  by (auto dest: spec[of _ 5])

end
