(* ===== verification/Memory.thy ===== *)
theory Memory
  imports Contexts
begin

text \<open>
  Physical memory, \<^verbatim>\<open>src/cpu/memory.c\<close>: reads and writes of bytes, words and dwords in
  little-endian order. The code indexes \<open>ctx->memory\<close> without comparing the address with
  \<open>memory_size\<close>, so an access past the end is undefined behaviour and stops the model. The
  functions return the C flag (always 1) as a boolean, with the value read or the new state.
\<close>

unbundle bit_operations_syntax

section \<open>Operations\<close>

text \<open>\<open>ctx->memory[addr]\<close>, read and written.\<close>

definition load_cell :: "dword \<Rightarrow> emulator_context \<Rightarrow> stop + byte" where
  "load_cell addr ectx =
     (if addr < memory_size (memory_context ectx) then Inr (memory (memory_context ectx) addr)
      else Inl (Mem_oob addr))"

definition store_cell :: "dword \<Rightarrow> byte \<Rightarrow> emulator_context \<Rightarrow> stop + emulator_context" where
  "store_cell addr b ectx =
     (if addr < memory_size (memory_context ectx)
      then Inr (ectx\<lparr>memory_context := (memory_context ectx)
                      \<lparr>memory := (memory (memory_context ectx))(addr := b)\<rparr>\<rparr>)
      else Inl (Mem_oob addr))"

definition mem_write_byte_p ::
  "byte \<Rightarrow> dword \<Rightarrow> emulator_context \<Rightarrow> stop + (bool \<times> emulator_context)" where
  "mem_write_byte_p b addr ectx =
     ubind (store_cell addr b ectx) (\<lambda>ectx. Inr (True, ectx))"

definition mem_write_word_p ::
  "word16 \<Rightarrow> dword \<Rightarrow> emulator_context \<Rightarrow> stop + (bool \<times> emulator_context)" where
  "mem_write_word_p w addr ectx =
     ubind (store_cell (addr + 0) (ucast (LBYTE_FROM_WORD w)) ectx) (\<lambda>ectx.
     ubind (store_cell (addr + 1) (ucast (HBYTE_FROM_WORD w)) ectx) (\<lambda>ectx.
     Inr (True, ectx)))"

definition mem_write_dword_p ::
  "dword \<Rightarrow> dword \<Rightarrow> emulator_context \<Rightarrow> stop + (bool \<times> emulator_context)" where
  "mem_write_dword_p d addr ectx =
     ubind (store_cell (addr + 0) (ucast (LLBYTE_FROM_DWORD d)) ectx) (\<lambda>ectx.
     ubind (store_cell (addr + 1) (ucast (LHBYTE_FROM_DWORD d)) ectx) (\<lambda>ectx.
     ubind (store_cell (addr + 2) (ucast (HLBYTE_FROM_DWORD d)) ectx) (\<lambda>ectx.
     ubind (store_cell (addr + 3) (ucast (HHBYTE_FROM_DWORD d)) ectx) (\<lambda>ectx.
     Inr (True, ectx)))))"

definition mem_get_byte_p :: "dword \<Rightarrow> emulator_context \<Rightarrow> stop + (bool \<times> byte)" where
  "mem_get_byte_p addr ectx = ubind (load_cell addr ectx) (\<lambda>b. Inr (True, b))"

definition mem_get_word_p :: "dword \<Rightarrow> emulator_context \<Rightarrow> stop + (bool \<times> word16)" where
  "mem_get_word_p addr ectx =
     ubind (load_cell (addr + 0) ectx) (\<lambda>lo.
     ubind (load_cell (addr + 1) ectx) (\<lambda>hi.
     Inr (True, ucast (WORD_FROM_BYTES hi lo))))"

definition mem_get_dword_p :: "dword \<Rightarrow> emulator_context \<Rightarrow> stop + (bool \<times> dword)" where
  "mem_get_dword_p addr ectx =
     ubind (load_cell (addr + 0) ectx) (\<lambda>ll.
     ubind (load_cell (addr + 1) ectx) (\<lambda>lh.
     ubind (load_cell (addr + 2) ectx) (\<lambda>ul.
     ubind (load_cell (addr + 3) ectx) (\<lambda>uh.
     Inr (True, DWORD_FROM_BYTES uh ul lh ll)))))"

definition mem_get_instruction_p :: "dword \<Rightarrow> emulator_context \<Rightarrow> stop + (bool \<times> dword)" where
  "mem_get_instruction_p addr ectx = mem_get_dword_p addr ectx"

section \<open>An interface of byte cells\<close>

text \<open>
  What the multi-byte accesses rely on: a cell is readable and writable exactly where it is in
  range, a write does not move the range, and a read returns the last byte written. The lemmas
  of the locale are about storing and loading a run of consecutive cells.
\<close>

fun store_seq ::
  "(dword \<Rightarrow> byte \<Rightarrow> 'm \<Rightarrow> stop + 'm) \<Rightarrow> dword \<Rightarrow> byte list \<Rightarrow> 'm \<Rightarrow> stop + 'm" where
  "store_seq st a [] m = Inr m"
| "store_seq st a (b # bs) m = ubind (st a b m) (store_seq st (a + 1) bs)"

fun load_seq ::
  "(dword \<Rightarrow> 'm \<Rightarrow> stop + byte) \<Rightarrow> dword \<Rightarrow> nat \<Rightarrow> 'm \<Rightarrow> stop + byte list" where
  "load_seq ld a 0 m = Inr []"
| "load_seq ld a (Suc n) m =
     ubind (ld a m) (\<lambda>b. ubind (load_seq ld (a + 1) n m) (\<lambda>bs. Inr (b # bs)))"

locale cells =
  fixes ok :: "dword \<Rightarrow> 'm \<Rightarrow> bool"
    and ld :: "dword \<Rightarrow> 'm \<Rightarrow> stop + byte"
    and st :: "dword \<Rightarrow> byte \<Rightarrow> 'm \<Rightarrow> stop + 'm"
  assumes ld_ok: "ok a m \<longleftrightarrow> (\<exists>b. ld a m = Inr b)"
    and st_ok: "ok a m \<longleftrightarrow> (\<exists>m'. st a b m = Inr m')"
    and ok_st: "st a b m = Inr m' \<Longrightarrow> ok a' m' = ok a' m"
    and ld_st: "st a b m = Inr m' \<Longrightarrow> ld a' m' = (if a' = a then Inr b else ld a' m)"
begin

lemma ok_store_seq: "store_seq st a bs m = Inr m' \<Longrightarrow> ok a' m' = ok a' m"
  by (induction bs arbitrary: a m) (auto dest!: ok_st[of _ _ _ _ a'])

lemma store_seq_defined:
  "(\<exists>m'. store_seq st a bs m = Inr m') \<longleftrightarrow> (\<forall>i < length bs. ok (a + of_nat i) m)"
proof (induction bs arbitrary: a m)
  case (Cons b bs)
  show ?case
  proof (cases "ok a m")
    case True
    then obtain m1 where m1: "st a b m = Inr m1" using st_ok by blast
    then have "(\<exists>m'. store_seq st a (b # bs) m = Inr m') \<longleftrightarrow>
               (\<forall>i < length bs. ok (a + of_nat (Suc i)) m)"
      by (simp add: Cons.IH ok_st[OF m1] add.assoc)
    with True show ?thesis by (simp add: All_less_Suc2)
  next
    case False
    then show ?thesis using st_ok[of a m b] by (auto simp: All_less_Suc2)
  qed
qed simp

text \<open>The effect of a run of stores on any single cell.\<close>

lemma ld_store_seq:
  assumes "store_seq st a bs m = Inr m'" and "length bs \<le> 2 ^ 32"
  shows "ld a' m' = (if unat (a' - a) < length bs then Inr (bs ! unat (a' - a)) else ld a' m)"
  using assms
proof (induction bs arbitrary: a m)
  case (Cons b bs)
  then obtain m1 where m1: "st a b m = Inr m1" and rest: "store_seq st (a + 1) bs m1 = Inr m'"
    by auto
  have IH: "ld a' m' = (if unat (a' - (a + 1)) < length bs then Inr (bs ! unat (a' - (a + 1)))
                        else ld a' m1)"
    using Cons.IH[OF rest] Cons.prems(2) by simp
  show ?case
  proof (cases "a' = a")
    case True
    have "unat (a' - (a + 1)) = 2 ^ 32 - 1"
      by (simp add: True unsigned_minus_1_eq_mask mask_eq_exp_minus_1)
    then show ?thesis using IH Cons.prems(2) True ld_st[OF m1] by simp
  next
    case False
    then have "unat (a' - a) = Suc (unat (a' - (a + 1)))"
      by (metis (no_types, opaque_lifting) add.commute diff_add_cancel diff_diff_add
          eq_iff_diff_eq_0 unatSuc)
    then show ?thesis using IH False ld_st[OF m1] by simp
  qed
qed simp

lemma load_seq_eqI:
  assumes "\<And>i. i < length bs \<Longrightarrow> ld (a + of_nat i) m = Inr (bs ! i)"
  shows "load_seq ld a (length bs) m = Inr bs"
  using assms
proof (induction bs arbitrary: a)
  case (Cons b bs)
  have "ld a m = Inr b" using Cons.prems[of 0] by simp
  moreover have "load_seq ld (a + 1) (length bs) m = Inr bs"
    using Cons.prems[of "Suc i" for i] by (intro Cons.IH) (simp add: add.assoc)
  ultimately show ?case by simp
qed simp

text \<open>A run of cells that is stored and loaded back is the run that was stored.\<close>

lemma load_after_store:
  assumes "store_seq st a bs m = Inr m'" and "length bs < 2 ^ 32"
  shows "load_seq ld a (length bs) m' = Inr bs"
proof (rule load_seq_eqI)
  fix i assume "i < length bs"
  then have "unat (of_nat i :: dword) = i" using assms(2) by (simp add: unat_of_nat_dword)
  then show "ld (a + of_nat i) m' = Inr (bs ! i)"
    using ld_store_seq[OF assms(1), of "a + of_nat i"] assms(2) \<open>i < length bs\<close> by simp
qed

lemma load_seq_defined:
  "(\<exists>bs. load_seq ld a n m = Inr bs) \<longleftrightarrow> (\<forall>i < n. ok (a + of_nat i) m)"
proof (induction n arbitrary: a)
  case (Suc n)
  have "(\<exists>bs. load_seq ld a (Suc n) m = Inr bs) \<longleftrightarrow>
        ok a m \<and> (\<exists>bs. load_seq ld (a + 1) n m = Inr bs)"
    by (auto simp: ld_ok)
  also have "\<dots> \<longleftrightarrow> ok a m \<and> (\<forall>i < n. ok (a + of_nat (Suc i)) m)"
    by (simp add: Suc.IH add.assoc)
  also have "\<dots> \<longleftrightarrow> (\<forall>i < Suc n. ok (a + of_nat i) m)"
    by (simp add: All_less_Suc2)
  finally show ?case .
qed simp

end

text \<open>The program's memory provides that interface.\<close>

definition mem_ok :: "dword \<Rightarrow> emulator_context \<Rightarrow> bool" where
  "mem_ok addr ectx \<longleftrightarrow> addr < memory_size (memory_context ectx)"

interpretation ram: cells mem_ok load_cell store_cell
  by unfold_locales
     (auto simp: mem_ok_def load_cell_def store_cell_def split: if_splits)

section \<open>Bounds\<close>

text \<open>\<open>n\<close> bytes from \<open>addr\<close> on lie inside the memory; no address wraps around then.\<close>

definition fits :: "nat \<Rightarrow> dword \<Rightarrow> emulator_context \<Rightarrow> bool" where
  "fits n addr ectx \<longleftrightarrow> unat addr + n \<le> unat (memory_size (memory_context ectx))"

lemma fits_iff_cells:
  assumes "0 < n"
  shows "(\<forall>i < n. mem_ok (addr + of_nat i) ectx) \<longleftrightarrow> fits n addr ectx"
  using assms
proof (induction n)
  case (Suc n)
  let ?size = "unat (memory_size (memory_context ectx))"
  have size: "?size < 2 ^ 32"
    using unat_dword_less[of "memory_size (memory_context ectx)"] by simp
  have cell: "mem_ok (addr + of_nat n) ectx \<longleftrightarrow> unat addr + n < ?size" if "unat addr + n \<le> ?size"
  proof -
    have "unat (addr + of_nat n) = unat addr + n"
      using that size by (simp add: unat_word_ariths unsigned_of_nat take_bit_nat_eq_self)
    then show ?thesis by (simp add: mem_ok_def word_less_nat_alt)
  qed
  show ?case
  proof (cases n)
    case 0
    then show ?thesis
      by (auto simp: fits_def mem_ok_def word_less_nat_alt)
  next
    case (Suc k)
    then have "(\<forall>i < n. mem_ok (addr + of_nat i) ectx) \<longleftrightarrow> unat addr + n \<le> ?size"
      using Suc.IH by (simp add: fits_def)
    then show ?thesis using cell by (auto simp: fits_def less_Suc_eq)
  qed
qed simp

lemma fits_mono: "fits n a s \<Longrightarrow> k \<le> n \<Longrightarrow> fits k a s"
  by (simp add: fits_def)

lemma fits_upd [simp, ectx_simps]:
  "fits n a (upd_reg r v s) = fits n a s" "fits n a (upd_creg r v s) = fits n a s"
  "fits n a (set_pos p s) = fits n a s"
  by (simp_all add: fits_def memory_upd)

text \<open>The accesses as runs of cells.\<close>

lemma mem_get_byte_p_seq:
  "mem_get_byte_p addr s = ubind (load_seq load_cell addr 1 s) (\<lambda>bs. Inr (True, bs ! 0))"
  by (simp add: mem_get_byte_p_def ubind_assoc)

lemma mem_get_word_p_seq:
  "mem_get_word_p addr s =
     ubind (load_seq load_cell addr 2 s) (\<lambda>bs. Inr (True, ucast (WORD_FROM_BYTES (bs ! 1) (bs ! 0))))"
  by (simp add: mem_get_word_p_def ubind_assoc numeral_eq_Suc)

lemma mem_get_dword_p_seq:
  "mem_get_dword_p addr s =
     ubind (load_seq load_cell addr 4 s)
       (\<lambda>bs. Inr (True, DWORD_FROM_BYTES (bs ! 3) (bs ! 2) (bs ! 1) (bs ! 0)))"
  by (simp add: mem_get_dword_p_def ubind_assoc numeral_eq_Suc add.assoc)

lemma mem_write_byte_p_seq:
  "mem_write_byte_p b addr s = ubind (store_seq store_cell addr [b] s) (\<lambda>s. Inr (True, s))"
  by (simp add: mem_write_byte_p_def ubind_assoc)

lemma mem_write_word_p_seq:
  "mem_write_word_p w addr s =
     ubind (store_seq store_cell addr [ucast (LBYTE_FROM_WORD w), ucast (HBYTE_FROM_WORD w)] s)
       (\<lambda>s. Inr (True, s))"
  by (simp add: mem_write_word_p_def ubind_assoc)

lemma mem_write_dword_p_seq:
  "mem_write_dword_p d addr s =
     ubind (store_seq store_cell addr
       [ucast (LLBYTE_FROM_DWORD d), ucast (LHBYTE_FROM_DWORD d),
        ucast (HLBYTE_FROM_DWORD d), ucast (HHBYTE_FROM_DWORD d)] s)
       (\<lambda>s. Inr (True, s))"
  by (simp add: mem_write_dword_p_def ubind_assoc add.assoc)

section \<open>Effects in range\<close>

definition upd_mem :: "dword \<Rightarrow> byte \<Rightarrow> emulator_context \<Rightarrow> emulator_context" where
  "upd_mem a b s = s\<lparr>memory_context := (memory_context s)
                      \<lparr>memory := (memory (memory_context s))(a := b)\<rparr>\<rparr>"

definition word_at :: "emulator_context \<Rightarrow> dword \<Rightarrow> word16" where
  "word_at s a = ucast (WORD_FROM_BYTES (mem_at s (a + 1)) (mem_at s a))"

definition dword_at :: "emulator_context \<Rightarrow> dword \<Rightarrow> dword" where
  "dword_at s a =
     DWORD_FROM_BYTES (mem_at s (a + 3)) (mem_at s (a + 2)) (mem_at s (a + 1)) (mem_at s a)"

definition put_word :: "word16 \<Rightarrow> dword \<Rightarrow> emulator_context \<Rightarrow> emulator_context" where
  "put_word w a s =
     upd_mem (a + 1) (ucast (HBYTE_FROM_WORD w)) (upd_mem a (ucast (LBYTE_FROM_WORD w)) s)"

definition put_dword :: "dword \<Rightarrow> dword \<Rightarrow> emulator_context \<Rightarrow> emulator_context" where
  "put_dword d a s =
     upd_mem (a + 3) (ucast (HHBYTE_FROM_DWORD d)) (upd_mem (a + 2) (ucast (HLBYTE_FROM_DWORD d))
       (upd_mem (a + 1) (ucast (LHBYTE_FROM_DWORD d)) (upd_mem a (ucast (LLBYTE_FROM_DWORD d)) s)))"

lemma mem_at_upd_mem [ectx_simps]: "mem_at (upd_mem a b s) a' = (if a' = a then b else mem_at s a')"
  by (simp add: mem_at_def upd_mem_def)

lemma upd_mem_frame [simp, ectx_simps]:
  "cpu_context (upd_mem a b s) = cpu_context s"
  "statistic_context (upd_mem a b s) = statistic_context s"
  "msize (upd_mem a b s) = msize s"
  "fits n x (upd_mem a b s) = fits n x s"
  "wf (upd_mem a b s) = wf s"
  "reg_of (upd_mem a b s) = reg_of s" "creg_of (upd_mem a b s) = creg_of s"
  "get_pos (upd_mem a b s) = get_pos s"
  by (simp_all add: upd_mem_def msize_def fits_def wf_def reg_of_def creg_of_def get_pos_def
      fun_eq_iff)

lemma put_frame [simp, ectx_simps]:
  "cpu_context (put_word w a s) = cpu_context s" "cpu_context (put_dword d a s) = cpu_context s"
  "statistic_context (put_word w a s) = statistic_context s"
  "statistic_context (put_dword d a s) = statistic_context s"
  "msize (put_word w a s) = msize s" "msize (put_dword d a s) = msize s"
  "fits n x (put_word w a s) = fits n x s" "fits n x (put_dword d a s) = fits n x s"
  "wf (put_word w a s) = wf s" "wf (put_dword d a s) = wf s"
  "reg_of (put_word w a s) = reg_of s" "reg_of (put_dword d a s) = reg_of s"
  "creg_of (put_word w a s) = creg_of s" "creg_of (put_dword d a s) = creg_of s"
  "get_pos (put_word w a s) = get_pos s" "get_pos (put_dword d a s) = get_pos s"
  by (simp_all add: put_word_def put_dword_def)

lemma store_cell_norm: "mem_ok a s \<Longrightarrow> store_cell a b s = Inr (upd_mem a b s)"
  by (simp add: store_cell_def mem_ok_def upd_mem_def)

lemma load_cell_norm: "mem_ok a s \<Longrightarrow> load_cell a s = Inr (mem_at s a)"
  by (simp add: load_cell_def mem_ok_def mem_at_def)

lemma mem_ok_upd_mem [simp]: "mem_ok a (upd_mem a' b s) = mem_ok a s"
  by (simp add: mem_ok_def upd_mem_def)

lemma fits_cells:
  "fits 1 a s \<Longrightarrow> mem_ok a s"
  "fits 2 a s \<Longrightarrow> mem_ok a s \<and> mem_ok (a + 1) s"
  "fits 4 a s \<Longrightarrow> mem_ok a s \<and> mem_ok (a + 1) s \<and> mem_ok (a + 2) s \<and> mem_ok (a + 3) s"
proof -
  show "fits 1 a s \<Longrightarrow> mem_ok a s"
    using fits_iff_cells[of 1 a s] by simp
  show "fits 2 a s \<Longrightarrow> mem_ok a s \<and> mem_ok (a + 1) s"
    using fits_iff_cells[of 2 a s] by (force simp: numeral_eq_Suc All_less_Suc)
  show "fits 4 a s \<Longrightarrow> mem_ok a s \<and> mem_ok (a + 1) s \<and> mem_ok (a + 2) s \<and> mem_ok (a + 3) s"
    using fits_iff_cells[of 4 a s] by (auto simp: numeral_eq_Suc All_less_Suc add.assoc)
qed

lemma mem_get_byte_p_norm [norm_simps]:
  "fits 1 a s \<Longrightarrow> mem_get_byte_p a s = Inr (True, mem_at s a)"
  by (simp add: mem_get_byte_p_def load_cell_norm fits_cells)

lemma mem_get_word_p_norm [norm_simps]:
  "fits 2 a s \<Longrightarrow> mem_get_word_p a s = Inr (True, word_at s a)"
  by (simp add: mem_get_word_p_def load_cell_norm fits_cells word_at_def)

lemma mem_get_dword_p_norm [norm_simps]:
  "fits 4 a s \<Longrightarrow> mem_get_dword_p a s = Inr (True, dword_at s a)"
  by (simp add: mem_get_dword_p_def load_cell_norm fits_cells dword_at_def)

lemma mem_write_byte_p_norm [norm_simps]:
  "fits 1 a s \<Longrightarrow> mem_write_byte_p b a s = Inr (True, upd_mem a b s)"
  by (simp add: mem_write_byte_p_def store_cell_norm fits_cells)

lemma mem_write_word_p_norm [norm_simps]:
  "fits 2 a s \<Longrightarrow> mem_write_word_p w a s = Inr (True, put_word w a s)"
  by (simp add: mem_write_word_p_def store_cell_norm fits_cells put_word_def)

lemma mem_write_dword_p_norm [norm_simps]:
  "fits 4 a s \<Longrightarrow> mem_write_dword_p d a s = Inr (True, put_dword d a s)"
  by (simp add: mem_write_dword_p_def store_cell_norm fits_cells put_dword_def)

text \<open>Out of range, an access stops at one of its own cells.\<close>

lemma load_seq_Inl: "load_seq load_cell a n s = Inl e \<Longrightarrow> \<exists>i < n. e = Mem_oob (a + of_nat i)"
proof (induction n arbitrary: a)
  case (Suc n)
  then consider "load_cell a s = Inl e" | "load_seq load_cell (a + 1) n s = Inl e"
    by (auto simp: ubind_eq_Inl)
  then show ?case
  proof cases
    case 1
    then show ?thesis by (auto simp: load_cell_def split: if_splits intro!: exI[of _ 0])
  next
    case 2
    then obtain i where "i < n" "e = Mem_oob (a + 1 + of_nat i)" using Suc.IH by blast
    then show ?thesis by (auto simp: add.assoc intro!: exI[of _ "Suc i"])
  qed
qed simp

lemma store_seq_Inl:
  "store_seq store_cell a bs s = Inl e \<Longrightarrow> \<exists>i < length bs. e = Mem_oob (a + of_nat i)"
proof (induction bs arbitrary: a s)
  case (Cons b bs)
  then consider "store_cell a b s = Inl e"
    | s' where "store_seq store_cell (a + 1) bs s' = Inl e"
    by (auto simp: ubind_eq_Inl)
  then show ?case
  proof cases
    case 1
    then show ?thesis by (auto simp: store_cell_def split: if_splits intro!: exI[of _ 0])
  next
    case 2
    then obtain i where "i < length bs" "e = Mem_oob (a + 1 + of_nat i)" using Cons.IH by blast
    then show ?thesis by (auto simp: add.assoc intro!: exI[of _ "Suc i"])
  qed
qed simp

section \<open>Reads over writes\<close>

text \<open>Two runs of \<open>n\<close> and \<open>k\<close> bytes, neither of which wraps around, share no cell.\<close>

definition apart :: "nat \<Rightarrow> dword \<Rightarrow> nat \<Rightarrow> dword \<Rightarrow> bool" where
  "apart n a k b \<longleftrightarrow> unat a + n \<le> unat b \<or> unat b + k \<le> unat a"

lemma fits_unat:
  assumes "fits n a s" "i < n"
  shows "unat (a + of_nat i) = unat a + i"
proof -
  have "unat a + i < 2 ^ 32"
    using assms unat_dword_less[of "memory_size (memory_context s)"] by (simp add: fits_def)
  then show ?thesis
    by (simp add: unat_word_ariths unsigned_of_nat take_bit_nat_eq_self)
qed

lemma fits_unat_cells:
  "fits 2 a s \<Longrightarrow> unat (a + 1) = unat a + 1"
  "fits 4 a s \<Longrightarrow> unat (a + 1) = unat a + 1"
  "fits 4 a s \<Longrightarrow> unat (a + 2) = unat a + 2"
  "fits 4 a s \<Longrightarrow> unat (a + 3) = unat a + 3"
  using fits_unat[of 2 a s 1] fits_unat[of 4 a s 1] fits_unat[of 4 a s 2] fits_unat[of 4 a s 3]
  by simp_all

lemma word_at_put_word [simp, ectx_simps]: "word_at (put_word w a s) a = w"
  by (simp add: word_at_def put_word_def mem_at_upd_mem)

lemma dword_at_put_dword [simp, ectx_simps]: "dword_at (put_dword d a s) a = d"
  by (simp add: dword_at_def put_dword_def mem_at_upd_mem)

lemma mem_ok_put [simp]: "mem_ok x (put_word w a s) = mem_ok x s"
  "mem_ok x (put_dword d a s) = mem_ok x s"
  by (simp_all add: put_word_def put_dword_def)

lemma mem_at_put_dword:
  "mem_at (put_dword d a s) x =
     (if x = a then ucast d else if x = a + 1 then ucast (drop_bit 8 d)
      else if x = a + 2 then ucast (drop_bit 16 d) else if x = a + 3 then ucast (drop_bit 24 d)
      else mem_at s x)"
  by (simp add: put_dword_def mem_at_upd_mem macro_defs)

lemma mem_at_put_word_apart:
  "fits 2 a s \<Longrightarrow> apart 2 a 1 x \<Longrightarrow> mem_at (put_word w a s) x = mem_at s x"
  using fits_unat_cells(1)[of a s]
  by (auto simp: put_word_def mem_at_upd_mem apart_def)

lemma mem_at_put_dword_apart:
  "fits 4 a s \<Longrightarrow> apart 4 a 1 x \<Longrightarrow> mem_at (put_dword d a s) x = mem_at s x"
  using fits_unat_cells(2-4)[of a s]
  by (auto simp: put_dword_def mem_at_upd_mem apart_def)

lemma dword_at_put_dword_apart:
  assumes "fits 4 a s" "fits 4 b s" "apart 4 a 4 b"
  shows "dword_at (put_dword d a s) b = dword_at s b"
proof -
  note b = fits_unat_cells(2-4)[OF assms(2)]
  have "apart 4 a 1 b" "apart 4 a 1 (b + 1)" "apart 4 a 1 (b + 2)" "apart 4 a 1 (b + 3)"
    using assms(3) b by (auto simp: apart_def)
  then show ?thesis
    by (simp add: dword_at_def mem_at_put_dword_apart[OF assms(1)])
qed

lemma dword_at_upd [ectx_simps]:
  "dword_at (upd_reg r v s) a = dword_at s a" "dword_at (upd_creg r v s) a = dword_at s a"
  "dword_at (set_pos p s) a = dword_at s a"
  "word_at (upd_reg r v s) a = word_at s a" "word_at (upd_creg r v s) a = word_at s a"
  "word_at (set_pos p s) a = word_at s a"
  by (simp_all add: dword_at_def word_at_def memory_upd)

section \<open>Bounds of the multi-byte accesses\<close>

lemma mem_get_defined:
  "(\<exists>r. mem_get_byte_p a s = Inr r) \<longleftrightarrow> fits 1 a s"
  "(\<exists>r. mem_get_word_p a s = Inr r) \<longleftrightarrow> fits 2 a s"
  "(\<exists>r. mem_get_dword_p a s = Inr r) \<longleftrightarrow> fits 4 a s"
  by (simp_all only: mem_get_byte_p_seq mem_get_word_p_seq mem_get_dword_p_seq ubind_defined
      ram.load_seq_defined fits_iff_cells zero_less_numeral zero_less_one)

lemma mem_write_defined:
  "(\<exists>r. mem_write_byte_p b a s = Inr r) \<longleftrightarrow> fits 1 a s"
  "(\<exists>r. mem_write_word_p w a s = Inr r) \<longleftrightarrow> fits 2 a s"
  "(\<exists>r. mem_write_dword_p d a s = Inr r) \<longleftrightarrow> fits 4 a s"
proof -
  have len: "length [x] = 1" "length [x, y] = 2" "length [x, y, u, v] = 4" for x y u v :: byte
    by simp_all
  show "(\<exists>r. mem_write_byte_p b a s = Inr r) \<longleftrightarrow> fits 1 a s"
    "(\<exists>r. mem_write_word_p w a s = Inr r) \<longleftrightarrow> fits 2 a s"
    "(\<exists>r. mem_write_dword_p d a s = Inr r) \<longleftrightarrow> fits 4 a s"
    by (simp_all only: mem_write_byte_p_seq mem_write_word_p_seq mem_write_dword_p_seq
        ubind_defined ram.store_seq_defined len fits_iff_cells zero_less_numeral zero_less_one)
qed

lemma mem_get_Inl:
  "mem_get_byte_p a s = Inl e \<Longrightarrow> e = Mem_oob a"
  "mem_get_word_p a s = Inl e \<Longrightarrow> e \<in> Mem_oob ` {a, a + 1}"
  "mem_get_dword_p a s = Inl e \<Longrightarrow> e \<in> Mem_oob ` {a, a + 1, a + 2, a + 3}"
  by (auto simp: mem_get_byte_p_def mem_get_word_p_def mem_get_dword_p_def ubind_eq_Inl
      load_cell_def split: if_splits)

lemma mem_write_Inl:
  "mem_write_byte_p b a s = Inl e \<Longrightarrow> e = Mem_oob a"
  "mem_write_word_p w a s = Inl e \<Longrightarrow> e \<in> Mem_oob ` {a, a + 1}"
  "mem_write_dword_p d a s = Inl e \<Longrightarrow> e \<in> Mem_oob ` {a, a + 1, a + 2, a + 3}"
  by (auto simp: mem_write_byte_p_def mem_write_word_p_def mem_write_dword_p_def ubind_eq_Inl
      store_cell_def split: if_splits)

section \<open>Properties\<close>

text \<open>
  C30. A dword access succeeds exactly when its four bytes lie inside the emulated memory, with no
  wrap-around of the address; otherwise the run stops at one of those four cells, the code having
  no bounds check of its own. Alignment plays no part: the code performs an unaligned access like any
  other, where the manual prohibits it and has an alignment fault fire.
\<close>

theorem mem_dword_bounds:
  "(if unat addr + 4 \<le> unat (memory_size (memory_context s))
    then (\<exists>v. mem_get_dword_p addr s = Inr (True, v)) \<and>
         (\<exists>s'. mem_write_dword_p d addr s = Inr (True, s'))
    else (\<exists>i \<in> {0, 1, 2, 3}. mem_get_dword_p addr s = Inl (Mem_oob (addr + i))) \<and>
         (\<exists>i \<in> {0, 1, 2, 3}. mem_write_dword_p d addr s = Inl (Mem_oob (addr + i))))"
proof (cases "fits 4 addr s")
  case True
  then show ?thesis
    by (simp add: fits_def[symmetric] mem_get_dword_p_norm mem_write_dword_p_norm)
next
  case False
  then obtain e e' where "mem_get_dword_p addr s = Inl e" "mem_write_dword_p d addr s = Inl e'"
    using mem_get_defined(3)[of addr s] mem_write_defined(3)[of d addr s]
    by (metis sumE)
  then show ?thesis
    using False mem_get_Inl(3)[of addr s e] mem_write_Inl(3)[of d addr s e']
    by (auto simp: fits_def)
qed

text \<open>
  C31. A dword written inside the memory is read back unchanged, little-endian byte by byte, and
  no other cell, no register and no counter changes.
\<close>

theorem mem_dword_roundtrip:
  assumes "mem_write_dword_p d addr s = Inr (ok, s')"
  shows "ok \<and> mem_get_dword_p addr s' = Inr (True, d) \<and>
    (\<forall>n \<in> {0, 1, 2, 3}. mem_get_byte_p (addr + of_nat n) s' =
       Inr (True, ucast (drop_bit (8 * n) d))) \<and>
    (\<forall>a. a \<notin> {addr, addr + 1, addr + 2, addr + 3} \<longrightarrow>
       mem_get_byte_p a s' = mem_get_byte_p a s) \<and>
    cpu_context s' = cpu_context s \<and> statistic_context s' = statistic_context s"
proof -
  have fit: "fits 4 addr s"
    using mem_write_defined(3)[of d addr s] assms by blast
  then have s': "s' = put_dword d addr s" and ok
    using assms by (simp_all add: mem_write_dword_p_norm)
  have cell: "mem_get_byte_p a t = (if mem_ok a t then Inr (True, mem_at t a) else Inl (Mem_oob a))"
    for a t
    by (simp add: mem_get_byte_p_def load_cell_def mem_ok_def mem_at_def)
  have "mem_get_dword_p addr s' = Inr (True, d)"
    using fit by (simp add: s' mem_get_dword_p_norm)
  moreover have "\<forall>n \<in> {0, 1, 2, 3}. mem_get_byte_p (addr + of_nat n) s' =
                   Inr (True, ucast (drop_bit (8 * n) d))"
    using fits_cells(3)[OF fit] by (simp add: cell s' mem_at_put_dword)
  moreover have "\<forall>a. a \<notin> {addr, addr + 1, addr + 2, addr + 3} \<longrightarrow>
                   mem_get_byte_p a s' = mem_get_byte_p a s"
    by (simp add: cell s' mem_at_put_dword)
  ultimately show ?thesis using \<open>ok\<close> by (simp add: s')
qed

theorem mem_dword_roundtrip_witness:
  "\<exists>s s'. mem_write_dword_p 0x11223344 8 s = Inr (True, s') \<and>
     mem_get_dword_p 8 s' = Inr (True, 0x11223344) \<and> mem_get_byte_p (8 + of_nat 1) s' = Inr (True, 0x33)"
proof -
  let ?s = "sample_ectx 64"
  have w: "mem_write_dword_p 0x11223344 8 ?s = Inr (True, put_dword 0x11223344 8 ?s)"
    by (rule mem_write_dword_p_norm) (simp add: fits_def)
  from mem_dword_roundtrip[OF this] have "mem_get_dword_p 8 (put_dword 0x11223344 8 ?s) = Inr (True, 0x11223344)"
    "mem_get_byte_p (8 + of_nat 1) (put_dword 0x11223344 8 ?s) = Inr (True, 0x33)"
    by simp_all
  with w show ?thesis by blast
qed

end
