(* ===== verification/Decode.thy ===== *)
theory Decode
  imports Memory
begin

text \<open>
  The decoder, \<^verbatim>\<open>src/cpu/decode.c\<close>: it fetches the dword at the instruction pointer, advances
  the pointer by four and splits the four bytes into every field of the instruction, whatever the
  opcode. \<open>dec_fetch_ins\<close> fills a static struct, all of whose fields it writes on each call, so the
  struct is a value here; the C code reads the bytes through a \<open>byte*\<close>, on a little-endian host.
\<close>

unbundle bit_operations_syntax

section \<open>Operations\<close>

definition decode_bytes :: "byte \<Rightarrow> byte \<Rightarrow> byte \<Rightarrow> byte \<Rightarrow> instruction_context" where
  "decode_bytes b1 b2 b3 b4 =
     \<lparr>opcode = b1 AND 0x3F,
      dst = b2 AND 0xF,
      opa = drop_bit 4 b3,
      opb = b3 AND 0xF,
      imm12 = ucast (push_bit 8 (ucast (b3 AND 0xF) :: dword) OR ucast b4),
      imm16 = ucast (WORD_FROM_BYTES b4 b3),
      prefix = drop_bit 6 b1,
      condition = drop_bit 4 b2\<rparr>"

definition dec_fetch_ins ::
  "emulator_context \<Rightarrow> stop + (instruction_context option \<times> emulator_context)" where
  "dec_fetch_ins s =
     ubind (mem_get_instruction_p (get_pos s) s) (\<lambda>(success, idata).
     if \<not> success then Inr (None, s)
     else
       let s = set_pos (get_pos s + 4) s;
           b1 = ucast idata; b2 = ucast (drop_bit 8 idata);
           b3 = ucast (drop_bit 16 idata); b4 = ucast (drop_bit 24 idata)
       in Inr (Some (decode_bytes b1 b2 b3 b4), s))"

section \<open>Well-formed instructions\<close>

text \<open>What the struct's fields hold after a decode: each is as wide as its bits in the format.\<close>

definition wf_ins :: "instruction_context \<Rightarrow> bool" where
  "wf_ins i \<longleftrightarrow> opcode i < 64 \<and> prefix i < 4 \<and> condition i < 16 \<and>
     dst i < 16 \<and> opa i < 16 \<and> opb i < 16 \<and> imm12 i < 0x1000"

lemma and_mask_bounds:
  "x AND 0xF < (16 :: byte)" "x AND 0x3F < (64 :: byte)"
  "drop_bit 4 x < (16 :: byte)" "drop_bit 6 x < (4 :: byte)"
proof -
  show "x AND 0xF < 16" "x AND 0x3F < 64"
    using and_mask_less_size[of 4 x] and_mask_less_size[of 6 x]
    by (simp_all add: mask_4 mask_6 word_size)
  show "drop_bit 4 x < 16" "drop_bit 6 x < 4"
    using unat_byte_less[of x]
    by (simp_all add: word_less_nat_alt drop_bit_eq_div unat_div)
qed

lemma bit_imm12:
  "bit (ucast (push_bit 8 (ucast (b3 AND 0xF :: byte) :: dword) OR ucast (b4 :: byte)) :: word16) n \<longleftrightarrow>
     (if n < 8 then bit b4 n else n < 12 \<and> bit b3 (n - 8))"
  by (auto simp: mask_4 bit_simps dest: bit_imp_le_length)

lemma wf_ins_decode [simp, intro]: "wf_ins (decode_bytes b1 b2 b3 b4)"
proof -
  have "take_bit 12 (imm12 (decode_bytes b1 b2 b3 b4)) = imm12 (decode_bytes b1 b2 b3 b4)"
    by (rule bit_word_eqI) (auto simp: decode_bytes_def bit_take_bit_iff bit_imm12)
  then have "imm12 (decode_bytes b1 b2 b3 b4) < 0x1000"
    by (metis take_bit_12_less)
  then show ?thesis
    by (simp add: wf_ins_def decode_bytes_def and_mask_bounds)
qed

section \<open>The instruction format\<close>

text \<open>
  The four bytes of an instruction as the documentation lays them out (prefix and opcode, condition
  and destination, operands A and B, the low byte of the 12-bit immediate): decoding is the inverse
  of this layout, so no two instruction words decode to the same struct.
\<close>

definition ins_bytes :: "instruction_context \<Rightarrow> byte list" where
  "ins_bytes i =
     [push_bit 6 (prefix i) OR opcode i, push_bit 4 (condition i) OR dst i,
      push_bit 4 (opa i) OR opb i, ucast (imm12 i)]"

lemma nibbles_join: "push_bit 4 (drop_bit 4 x) OR (x AND 0xF) = x" for x :: byte
  by (rule bit_word_eqI) (auto simp: mask_4 bit_simps)

lemma opcode_join: "push_bit 6 (drop_bit 6 x) OR (x AND 0x3F) = x" for x :: byte
  by (rule bit_word_eqI) (auto simp: mask_6 bit_simps)

lemma ucast_imm12:
  "(ucast (ucast (push_bit 8 (ucast (b3 AND 0xF :: byte) :: dword) OR ucast (b4 :: byte)) :: word16) :: byte) = b4"
  by (rule bit_word_eqI) (auto simp: bit_simps)

lemma ins_bytes_decode [simp]: "ins_bytes (decode_bytes b1 b2 b3 b4) = [b1, b2, b3, b4]"
  by (simp add: ins_bytes_def decode_bytes_def nibbles_join opcode_join ucast_imm12)

lemma decode_bytes_inj:
  "decode_bytes b1 b2 b3 b4 = decode_bytes c1 c2 c3 c4 \<longleftrightarrow>
     b1 = c1 \<and> b2 = c2 \<and> b3 = c3 \<and> b4 = c4"
proof
  assume "decode_bytes b1 b2 b3 b4 = decode_bytes c1 c2 c3 c4"
  then have "ins_bytes (decode_bytes b1 b2 b3 b4) = ins_bytes (decode_bytes c1 c2 c3 c4)"
    by (rule arg_cong)
  then show "b1 = c1 \<and> b2 = c2 \<and> b3 = c3 \<and> b4 = c4"
    by (simp only: ins_bytes_decode list.inject simp_thms)
qed simp

text \<open>The fields of a decoded instruction in terms of its bytes.\<close>

lemma decode_bytes_sel [simp]:
  "opcode (decode_bytes b1 b2 b3 b4) = b1 AND 0x3F" "prefix (decode_bytes b1 b2 b3 b4) = drop_bit 6 b1"
  "condition (decode_bytes b1 b2 b3 b4) = drop_bit 4 b2" "dst (decode_bytes b1 b2 b3 b4) = b2 AND 0xF"
  "opa (decode_bytes b1 b2 b3 b4) = drop_bit 4 b3" "opb (decode_bytes b1 b2 b3 b4) = b3 AND 0xF"
  by (simp_all add: decode_bytes_def)

section \<open>Effect of a fetch\<close>

text \<open>The instruction that stands in memory at an address.\<close>

definition ins_at :: "emulator_context \<Rightarrow> dword \<Rightarrow> instruction_context" where
  "ins_at s a = decode_bytes (mem_at s a) (mem_at s (a + 1)) (mem_at s (a + 2)) (mem_at s (a + 3))"

lemma bytes_of_dword:
  "ucast (DWORD_FROM_BYTES uh ul lh ll) = (ll :: byte)"
  "ucast (drop_bit 8 (DWORD_FROM_BYTES uh ul lh ll)) = (lh :: byte)"
  "ucast (drop_bit 16 (DWORD_FROM_BYTES uh ul lh ll)) = (ul :: byte)"
  "ucast (drop_bit 24 (DWORD_FROM_BYTES uh ul lh ll)) = (uh :: byte)"
  by (rule bit_word_eqI; auto simp: bit_ucast_iff bit_drop_bit_eq bit_DWORD_FROM_BYTES)+

lemma dec_fetch_ins_norm [norm_simps]:
  "fits 4 (get_pos s) s \<Longrightarrow>
     dec_fetch_ins s = Inr (Some (ins_at s (get_pos s)), set_pos (get_pos s + 4) s)"
  by (simp add: dec_fetch_ins_def mem_get_instruction_p_def mem_get_dword_p_norm dword_at_def
      bytes_of_dword ins_at_def Let_def)

lemma dec_fetch_ins_Inl:
  "dec_fetch_ins s = Inl e \<Longrightarrow> \<exists>i \<in> {0, 1, 2, 3}. e = Mem_oob (get_pos s + i)"
  using mem_get_Inl(3)[of "get_pos s" s e]
  by (auto simp: dec_fetch_ins_def mem_get_instruction_p_def ubind_eq_Inl Let_def
      split: prod.splits if_splits)

lemma dec_fetch_ins_defined: "(\<exists>r. dec_fetch_ins s = Inr r) \<longleftrightarrow> fits 4 (get_pos s) s"
proof
  assume "\<exists>r. dec_fetch_ins s = Inr r"
  then have "\<exists>r. mem_get_dword_p (get_pos s) s = Inr r"
    by (auto simp: dec_fetch_ins_def mem_get_instruction_p_def)
  with mem_get_defined(3)[of "get_pos s" s] show "fits 4 (get_pos s) s" by blast
qed (simp add: dec_fetch_ins_norm)

lemma wf_ins_at [simp]: "wf_ins (ins_at s a)"
  by (simp add: ins_at_def)

lemma ins_at_upd [ectx_simps]:
  "ins_at (upd_reg r v s) = ins_at s" "ins_at (upd_creg r v s) = ins_at s"
  "ins_at (set_pos p s) = ins_at s"
  by (simp_all add: ins_at_def memory_upd fun_eq_iff)

lemma unat_WORD_FROM_BYTES:
  "unat (ucast (WORD_FROM_BYTES hi lo) :: word16) = 256 * unat hi + unat lo"
proof -
  have "(ucast (WORD_FROM_BYTES hi lo) :: word16) = push_bit 8 (ucast hi) + ucast lo"
  proof -
    have "(ucast (WORD_FROM_BYTES hi lo) :: word16) = push_bit 8 (ucast hi) OR ucast lo"
      by (rule bit_word_eqI) (auto simp: bit_simps bit_WORD_FROM_BYTES dest: bit_imp_le_length)
    also have "\<dots> = push_bit 8 (ucast hi) + ucast lo"
      by (rule disjunctive_add_eq_or[symmetric], rule bit_word_eqI)
         (auto simp: bit_simps dest: bit_imp_le_length)
    finally show ?thesis .
  qed
  then show ?thesis
    using unat_byte_less[of hi] unat_byte_less[of lo]
    by (simp add: push_bit_eq_mult unat_word_ariths unsigned_ucast_eq take_bit_nat_eq_self)
qed

section \<open>Properties\<close>

text \<open>
  C19. Where the four bytes at the instruction pointer lie inside the memory, the decoder returns an
  instruction whose fields are those of the documented layout of exactly those bytes (prefix 2
  bits, opcode 6, condition, destination and operands 4 each, a 12-bit big-endian immediate that
  shares operand B, a 16-bit little-endian immediate that shares both operands), each within its
  width, and the only effect is that the instruction pointer advances by four. Outside the memory
  the fetch stops at one of the four cells.
\<close>

theorem dec_fetch_ins_correct:
  "(if unat (get_pos s) + 4 \<le> unat (memory_size (memory_context s))
    then (\<exists>i. dec_fetch_ins s = Inr (Some i, set_pos (get_pos s + 4) s) \<and> wf_ins i \<and>
            ins_bytes i = map (mem_at s) [get_pos s, get_pos s + 1, get_pos s + 2, get_pos s + 3] \<and>
            unat (imm16 i) = 256 * unat (ins_bytes i ! 3) + unat (ins_bytes i ! 2) \<and>
            unat (imm12 i) = 256 * unat (opb i) + unat (ins_bytes i ! 3))
    else (\<exists>k \<in> {0, 1, 2, 3}. dec_fetch_ins s = Inl (Mem_oob (get_pos s + k))))"
proof (cases "fits 4 (get_pos s) s")
  case True
  have imms: "unat (imm16 i) = 256 * unat b4 + unat b3 \<and> unat (imm12 i) = 256 * unat (opb i) + unat b4"
    if "i = decode_bytes b1 b2 b3 b4" for i b1 b2 b3 b4
    using unat_WORD_FROM_BYTES[of b4 b3] unat_WORD_FROM_BYTES[of "b3 AND 0xF" b4]
    by (simp add: that decode_bytes_def WORD_FROM_BYTES_def)
  show ?thesis
    using True imms[OF ins_at_def[of s "get_pos s"]]
    by (simp add: fits_def[symmetric] dec_fetch_ins_norm) (simp add: ins_at_def)
next
  case False
  then obtain e where "dec_fetch_ins s = Inl e"
    using dec_fetch_ins_defined[of s] by (cases "dec_fetch_ins s") auto
  then show ?thesis
    using False dec_fetch_ins_Inl[of s e] by (auto simp: fits_def)
qed

end
