(* ===== verification/Alu.thy ===== *)
theory Alu
  imports Registers Decode "HOL-Library.Signed_Division"
begin

text \<open>
  The arithmetic and logic instructions of \<^verbatim>\<open>src/cpu/cpu.c\<close>. Operand A is a register, operand B
  a register or the 12-bit immediate, the result goes to register \<open>dst\<close>, and some instructions
  set flags of register \<open>FLGS\<close> after the result is stored (which shows where \<open>dst\<close> is \<open>FLGS\<close> itself).
  The three pieces of inline assembly are modelled by what the x86 instructions compute.
\<close>

unbundle bit_operations_syntax

section \<open>Operations\<close>

text \<open>The \<open>if\<close> on the prefix that chooses operand B, the same in every instruction that has it.\<close>

definition operand_b :: "instruction_context \<Rightarrow> emulator_context \<Rightarrow> stop + dword" where
  "operand_b ins ectx =
     (if prefix ins = PREFIX_IMM then Inr (ucast (imm12 ins)) else get_reg (opb ins) ectx)"

text \<open>\<open>addl\<close>, \<open>subl\<close> and \<open>imull\<close>: the result, the overflow flag and (not for \<open>imull\<close>) the carry flag.\<close>

definition asm_addl :: "dword \<Rightarrow> dword \<Rightarrow> dword \<times> bool \<times> bool" where
  "asm_addl a b = (a + b, sint a + sint b \<noteq> sint (a + b), unat a + unat b \<ge> 2 ^ 32)"

definition asm_subl :: "dword \<Rightarrow> dword \<Rightarrow> dword \<times> bool \<times> bool" where
  "asm_subl a b = (a - b, sint a - sint b \<noteq> sint (a - b), unat a < unat b)"

definition asm_imull :: "dword \<Rightarrow> dword \<Rightarrow> dword \<times> bool" where
  "asm_imull a b = (a * b, sint a * sint b \<noteq> sint (a * b))"

definition ins_add :: "instruction_context \<Rightarrow> emulator_context \<Rightarrow> stop + emulator_context" where
  "ins_add ins ectx =
     ubind (get_reg (opa ins) ectx) (\<lambda>a.
     ubind (operand_b ins ectx) (\<lambda>b.
     let (a, ov, cy) = asm_addl a b in
     ubind (set_reg (dst ins) a ectx) (\<lambda>ectx.
     ubind (put_flag ov FLGS_O ectx) (\<lambda>ectx.
     put_flag cy FLGS_C ectx))))"

definition ins_and :: "instruction_context \<Rightarrow> emulator_context \<Rightarrow> stop + emulator_context" where
  "ins_and ins ectx =
     ubind (get_reg (opa ins) ectx) (\<lambda>a.
     ubind (operand_b ins ectx) (\<lambda>b.
     set_reg (dst ins) (a AND b) ectx))"

definition ins_cmp :: "instruction_context \<Rightarrow> emulator_context \<Rightarrow> stop + emulator_context" where
  "ins_cmp ins ectx =
     ubind (get_reg (opa ins) ectx) (\<lambda>a.
     ubind (operand_b ins ectx) (\<lambda>b.
     ubind (put_flag (a = b) FLGS_Z ectx) (\<lambda>ectx.
     ubind (put_flag (a < b) FLGS_C ectx) (\<lambda>ectx.
     let as = SIGNED32 a; bs = SIGNED32 b in
     put_flag (as < bs) FLGS_S ectx))))"

definition ins_div :: "instruction_context \<Rightarrow> emulator_context \<Rightarrow> stop + emulator_context" where
  "ins_div ins ectx =
     ubind (operand_b ins ectx) (\<lambda>b.
     if b = 0 then Inr ectx
     else ubind (get_reg (opa ins) ectx) (\<lambda>a. set_reg (dst ins) (a div b) ectx))"

definition ins_mod :: "instruction_context \<Rightarrow> emulator_context \<Rightarrow> stop + emulator_context" where
  "ins_mod ins ectx =
     ubind (get_reg (opb ins) ectx) (\<lambda>modulo.
     ubind (get_reg (opa ins) ectx) (\<lambda>value.
     if modulo = 0 then Inr ectx
     else set_reg (dst ins) (value mod modulo) ectx))"

definition ins_mul :: "instruction_context \<Rightarrow> emulator_context \<Rightarrow> stop + emulator_context" where
  "ins_mul ins ectx =
     ubind (operand_b ins ectx) (\<lambda>b.
     ubind (get_reg (opa ins) ectx) (\<lambda>a.
     let res = (ucast a :: qword) * ucast b in
     ubind (put_flag (res > DWORD_MAX) FLGS_C ectx) (\<lambda>ectx.
     set_reg (dst ins) (ucast res) ectx)))"

definition ins_not :: "instruction_context \<Rightarrow> emulator_context \<Rightarrow> stop + emulator_context" where
  "ins_not ins ectx = ubind (get_reg (opb ins) ectx) (\<lambda>b. set_reg (opa ins) (NOT b) ectx)"

definition ins_or :: "instruction_context \<Rightarrow> emulator_context \<Rightarrow> stop + emulator_context" where
  "ins_or ins ectx =
     ubind (get_reg (opa ins) ectx) (\<lambda>a.
     ubind (operand_b ins ectx) (\<lambda>b.
     set_reg (dst ins) (a OR b) ectx))"

definition ins_sar :: "instruction_context \<Rightarrow> emulator_context \<Rightarrow> stop + emulator_context" where
  "ins_sar ins ectx =
     ubind (get_reg (opa ins) ectx) (\<lambda>a.
     let as = SIGNED32 a in
     ubind (operand_b ins ectx) (\<lambda>b.
     let b = b mod 32 in
     ubind (put_flag (a AND 1 \<noteq> 0) FLGS_C ectx) (\<lambda>ectx.
     set_reg (dst ins) (UNSIGNED32 (drop_bit (unat b) as)) ectx)))"

definition ins_sex :: "instruction_context \<Rightarrow> emulator_context \<Rightarrow> stop + emulator_context" where
  "ins_sex ins ectx =
     ubind (get_reg (opa ins) ectx) (\<lambda>val.
     ubind (get_reg (opb ins) ectx) (\<lambda>unmaskedValue.
     let val =
       (if prefix ins = PREFIX_BYTE then
          (let maskedValue = unmaskedValue AND 0x000000FF;
               signFlag = maskedValue AND 0x00000080
           in if signFlag \<noteq> 0 then 0xFFFFFF00 OR maskedValue else maskedValue)
        else if prefix ins = PREFIX_WORD then
          (let maskedValue = unmaskedValue AND 0x0000FFFF;
               signFlag = maskedValue AND 0x00008000
           in if signFlag \<noteq> 0 then 0xFFFF0000 OR maskedValue else maskedValue)
        else val)
     in set_reg (opa ins) val ectx))"

text \<open>\<open>r\<close> is the quotient of two \<open>sqword\<close>s, rounded towards zero as in C.\<close>

definition ins_sdiv :: "instruction_context \<Rightarrow> emulator_context \<Rightarrow> stop + emulator_context" where
  "ins_sdiv ins ectx =
     ubind (get_reg (opa ins) ectx) (\<lambda>a.
     ubind (operand_b ins ectx) (\<lambda>b.
     if b = 0 then Inr ectx
     else
       let aq = SIGNED32 a; bq = SIGNED32 b;
           r = aq sdiv bq;
           over = r > 2147483647 \<or> r < -2147483648;
           r = (if over then 0 else r)
       in ubind (put_flag over FLGS_O ectx) (\<lambda>ectx.
          set_reg (dst ins) (UNSIGNED32 r) ectx)))"

definition ins_shl :: "instruction_context \<Rightarrow> emulator_context \<Rightarrow> stop + emulator_context" where
  "ins_shl ins ectx =
     ubind (get_reg (opa ins) ectx) (\<lambda>a.
     ubind (operand_b ins ectx) (\<lambda>b.
     let b = b mod 32 in
     ubind (put_flag (a AND 0x80000000 \<noteq> 0) FLGS_C ectx) (\<lambda>ectx.
     set_reg (dst ins) (push_bit (unat b) a) ectx)))"

definition ins_shr :: "instruction_context \<Rightarrow> emulator_context \<Rightarrow> stop + emulator_context" where
  "ins_shr ins ectx =
     ubind (get_reg (opa ins) ectx) (\<lambda>a.
     ubind (operand_b ins ectx) (\<lambda>b.
     let b = b mod 32 in
     ubind (put_flag (a AND 1 \<noteq> 0) FLGS_C ectx) (\<lambda>ectx.
     set_reg (dst ins) (drop_bit (unat b) a) ectx)))"

definition ins_smul :: "instruction_context \<Rightarrow> emulator_context \<Rightarrow> stop + emulator_context" where
  "ins_smul ins ectx =
     ubind (get_reg (opa ins) ectx) (\<lambda>a.
     ubind (operand_b ins ectx) (\<lambda>b.
     let (a, ov) = asm_imull a b in
     ubind (set_reg (dst ins) a ectx) (\<lambda>ectx.
     put_flag ov FLGS_O ectx)))"

definition ins_sub :: "instruction_context \<Rightarrow> emulator_context \<Rightarrow> stop + emulator_context" where
  "ins_sub ins ectx =
     ubind (get_reg (opa ins) ectx) (\<lambda>a.
     ubind (operand_b ins ectx) (\<lambda>b.
     let (a, ov, cy) = asm_subl a b in
     ubind (set_reg (dst ins) a ectx) (\<lambda>ectx.
     ubind (put_flag ov FLGS_O ectx) (\<lambda>ectx.
     put_flag cy FLGS_C ectx))))"

text \<open>The \<open>for\<close> loop of \<open>ins_test\<close> with \<open>n\<close> iterations left.\<close>

fun test_loop :: "nat \<Rightarrow> dword \<Rightarrow> int \<Rightarrow> int" where
  "test_loop 0 val bits = bits"
| "test_loop (Suc n) val bits =
     test_loop n (drop_bit 1 val) (if val AND 1 \<noteq> 0 then bits + 1 else bits)"

definition ins_test :: "instruction_context \<Rightarrow> emulator_context \<Rightarrow> stop + emulator_context" where
  "ins_test ins ectx =
     ubind (get_reg (dst ins) ectx) (\<lambda>val.
     let val = (if prefix ins = PREFIX_IMM then ucast (imm16 ins) else val) in
     ubind (put_flag (val = 0) FLGS_Z ectx) (\<lambda>ectx.
     ubind (put_flag (val AND 0x80000000 \<noteq> 0) FLGS_S ectx) (\<lambda>ectx.
     ubind (put_flag (\<not> (val AND 1 \<noteq> 0)) FLGS_E ectx) (\<lambda>ectx.
     let bits = test_loop 32 val 0 in
     put_flag (bits mod 2 = 1) FLGS_P ectx))))"

definition ins_xor :: "instruction_context \<Rightarrow> emulator_context \<Rightarrow> stop + emulator_context" where
  "ins_xor ins ectx =
     ubind (get_reg (opa ins) ectx) (\<lambda>a.
     ubind (operand_b ins ectx) (\<lambda>b.
     set_reg (dst ins) (a XOR b) ectx))"

section \<open>Flags\<close>

definition upd_flag :: "bool \<Rightarrow> dword \<Rightarrow> emulator_context \<Rightarrow> emulator_context" where
  "upd_flag b m s =
     upd_reg CPU_REG_FLGS (if b then reg_of s CPU_REG_FLGS OR m else reg_of s CPU_REG_FLGS AND NOT m) s"

text \<open>The flags as bits: number 0 is \<open>Z\<close>, 1 \<open>C\<close>, 2 \<open>O\<close>, 3 \<open>P\<close>, 4 \<open>S\<close> and 5 \<open>E\<close>.\<close>

definition flag :: "emulator_context \<Rightarrow> dword \<Rightarrow> bool" where
  "flag s m \<longleftrightarrow> reg_of s CPU_REG_FLGS AND m \<noteq> 0"

definition opb_of :: "instruction_context \<Rightarrow> emulator_context \<Rightarrow> dword" where
  "opb_of i s = (if prefix i = PREFIX_IMM then ucast (imm12 i) else reg_of s (opb i))"

lemma put_flag_norm [norm_simps]: "wf s \<Longrightarrow> put_flag b m s = Inr (upd_flag b m s)"
  by (simp add: put_flag_def get_reg_norm set_reg_norm upd_flag_def)

lemma operand_b_norm [norm_simps]:
  "wf s \<Longrightarrow> wf_ins i \<Longrightarrow> operand_b i s = Inr (opb_of i s)"
  by (simp add: operand_b_def get_reg_norm opb_of_def wf_ins_def)

lemma wf_upd_flag [simp, wf_intros]: "wf (upd_flag b m s) = wf s"
  by (simp add: upd_flag_def)

lemma upd_flag_frame [ectx_simps]:
  "wf s \<Longrightarrow> r \<noteq> CPU_REG_FLGS \<Longrightarrow> reg_of (upd_flag b m s) r = reg_of s r"
  "creg_of (upd_flag b m s) c = creg_of s c" "get_pos (upd_flag b m s) = get_pos s"
  "memory_context (upd_flag b m s) = memory_context s"
  "statistic_context (upd_flag b m s) = statistic_context s"
  by (simp_all add: upd_flag_def ectx_simps)

lemma reg_of_upd_flag [ectx_simps]:
  "wf s \<Longrightarrow> reg_of (upd_flag b m s) CPU_REG_FLGS =
     (if b then reg_of s CPU_REG_FLGS OR m else reg_of s CPU_REG_FLGS AND NOT m)"
  by (simp add: upd_flag_def ectx_simps)

text \<open>A flag that is set or cleared reads back, and the flags of the other masks are untouched.\<close>

lemma bits_apart: "m AND n = 0 \<Longrightarrow> bit n k \<Longrightarrow> \<not> bit m k" for m n :: dword
  using bit_and_iff[of m n k] by auto

lemma and_mask_other:
  "m AND n = 0 \<Longrightarrow> (x AND NOT m) AND n = x AND n"
  "m AND n = 0 \<Longrightarrow> (x OR m) AND n = x AND n" for x m n :: dword
  by (rule bit_word_eqI; auto simp: bit_simps dest: bits_apart)+

lemma flag_upd_flag [ectx_simps]:
  "wf s \<Longrightarrow> m \<noteq> 0 \<Longrightarrow> flag (upd_flag b m s) m = b"
  "wf s \<Longrightarrow> m AND n = 0 \<Longrightarrow> flag (upd_flag b m s) n = flag s n"
proof -
  assume s: "wf s"
  have "(x OR m) AND m = m" "(x AND NOT m) AND m = 0" for x :: dword
    by (rule bit_word_eqI; auto simp: bit_simps)+
  then show "m \<noteq> 0 \<Longrightarrow> flag (upd_flag b m s) m = b"
    using s by (simp add: flag_def reg_of_upd_flag)
  show "m AND n = 0 \<Longrightarrow> flag (upd_flag b m s) n = flag s n"
    using s by (simp add: flag_def reg_of_upd_flag and_mask_other)
qed

lemma flag_upd_reg [ectx_simps]:
  "wf s \<Longrightarrow> r < 16 \<Longrightarrow> r \<noteq> CPU_REG_FLGS \<Longrightarrow> flag (upd_reg r v s) m = flag s m"
  by (simp add: flag_def ectx_simps)


section \<open>Effects\<close>

text \<open>
  What an instruction leaves alone: memory, counters, the instruction pointer, the control
  registers and every register outside \<open>R\<close>.
\<close>

definition same_but :: "byte set \<Rightarrow> emulator_context \<Rightarrow> emulator_context \<Rightarrow> bool" where
  "same_but R s s' \<longleftrightarrow> wf s' \<and> memory_context s' = memory_context s \<and>
     statistic_context s' = statistic_context s \<and> get_pos s' = get_pos s \<and>
     creg_of s' = creg_of s \<and> (\<forall>r. r \<notin> R \<longrightarrow> reg_of s' r = reg_of s r)"

lemma same_but_refl [simp, intro]: "wf s \<Longrightarrow> same_but R s s"
  by (simp add: same_but_def)

lemma same_but_upd_reg [intro]: "same_but R s t \<Longrightarrow> r < 16 \<Longrightarrow> r \<in> R \<Longrightarrow> same_but R s (upd_reg r v t)"
  by (auto simp: same_but_def ectx_simps fun_eq_iff)

lemma same_but_upd_flag [intro]: "same_but R s t \<Longrightarrow> CPU_REG_FLGS \<in> R \<Longrightarrow> same_but R s (upd_flag b m t)"
  by (simp add: upd_flag_def same_but_upd_reg)

lemma wf_ins_less: "wf_ins i \<Longrightarrow> opa i < 16" "wf_ins i \<Longrightarrow> opb i < 16" "wf_ins i \<Longrightarrow> dst i < 16"
  by (simp_all add: wf_ins_def)

text \<open>The effect of every instruction of this theory on a well-formed state.\<close>

lemma alu_norms [norm_simps]:
  assumes "wf s" "wf_ins i"
  shows
    "ins_add i s =
       (let a = reg_of s (opa i); b = opb_of i s in
        Inr (upd_flag (unat a + unat b \<ge> 2 ^ 32) FLGS_C
          (upd_flag (sint a + sint b \<noteq> sint (a + b)) FLGS_O (upd_reg (dst i) (a + b) s))))"
    "ins_sub i s =
       (let a = reg_of s (opa i); b = opb_of i s in
        Inr (upd_flag (unat a < unat b) FLGS_C
          (upd_flag (sint a - sint b \<noteq> sint (a - b)) FLGS_O (upd_reg (dst i) (a - b) s))))"
    "ins_smul i s =
       (let a = reg_of s (opa i); b = opb_of i s in
        Inr (upd_flag (sint a * sint b \<noteq> sint (a * b)) FLGS_O (upd_reg (dst i) (a * b) s)))"
    "ins_and i s = Inr (upd_reg (dst i) (reg_of s (opa i) AND opb_of i s) s)"
    "ins_or i s = Inr (upd_reg (dst i) (reg_of s (opa i) OR opb_of i s) s)"
    "ins_xor i s = Inr (upd_reg (dst i) (reg_of s (opa i) XOR opb_of i s) s)"
    "ins_not i s = Inr (upd_reg (opa i) (NOT (reg_of s (opb i))) s)"
  using assms
  by (simp_all add: ins_add_def ins_sub_def ins_smul_def ins_and_def ins_or_def ins_xor_def
      ins_not_def asm_addl_def asm_subl_def asm_imull_def get_reg_norm set_reg_norm put_flag_norm
      operand_b_norm wf_ins_less Let_def)

lemma mul_norms [norm_simps]:
  assumes "wf s" "wf_ins i"
  shows
    "ins_mul i s =
       (let a = reg_of s (opa i); b = opb_of i s; res = (ucast a :: qword) * ucast b in
        Inr (upd_reg (dst i) (ucast res) (upd_flag (res > DWORD_MAX) FLGS_C s)))"
    "ins_div i s =
       (let a = reg_of s (opa i); b = opb_of i s in
        Inr (if b = 0 then s else upd_reg (dst i) (a div b) s))"
    "ins_mod i s =
       (let a = reg_of s (opa i); b = reg_of s (opb i) in
        Inr (if b = 0 then s else upd_reg (dst i) (a mod b) s))"
    "ins_sdiv i s =
       (let a = reg_of s (opa i); b = opb_of i s; r = sint a sdiv sint b;
            over = r > 2147483647 \<or> r < -2147483648 in
        Inr (if b = 0 then s
             else upd_reg (dst i) (word_of_int (if over then 0 else r)) (upd_flag over FLGS_O s)))"
  using assms
  by (simp_all add: ins_mul_def ins_div_def ins_mod_def ins_sdiv_def get_reg_norm set_reg_norm
      put_flag_norm operand_b_norm wf_ins_less Let_def SIGNED32_def UNSIGNED32_def)

lemma shift_norms [norm_simps]:
  assumes "wf s" "wf_ins i"
  shows
    "ins_shl i s =
       (let a = reg_of s (opa i); b = opb_of i s in
        Inr (upd_reg (dst i) (push_bit (unat b mod 32) a) (upd_flag (a AND 0x80000000 \<noteq> 0) FLGS_C s)))"
    "ins_shr i s =
       (let a = reg_of s (opa i); b = opb_of i s in
        Inr (upd_reg (dst i) (drop_bit (unat b mod 32) a) (upd_flag (a AND 1 \<noteq> 0) FLGS_C s)))"
    "ins_sar i s =
       (let a = reg_of s (opa i); b = opb_of i s in
        Inr (upd_reg (dst i) (word_of_int (drop_bit (unat b mod 32) (sint a)))
              (upd_flag (a AND 1 \<noteq> 0) FLGS_C s)))"
  using assms
  by (simp_all add: ins_shl_def ins_shr_def ins_sar_def get_reg_norm set_reg_norm
      put_flag_norm operand_b_norm wf_ins_less Let_def SIGNED32_def UNSIGNED32_def unat_mod)

definition test_val :: "instruction_context \<Rightarrow> emulator_context \<Rightarrow> dword" where
  "test_val i s = (if prefix i = PREFIX_IMM then ucast (imm16 i) else reg_of s (dst i))"

lemma cmp_test_norms [norm_simps]:
  assumes "wf s" "wf_ins i"
  shows
    "ins_cmp i s =
       (let a = reg_of s (opa i); b = opb_of i s in
        Inr (upd_flag (sint a < sint b) FLGS_S (upd_flag (a < b) FLGS_C (upd_flag (a = b) FLGS_Z s))))"
    "ins_test i s =
       (let v = test_val i s in
        Inr (upd_flag (test_loop 32 v 0 mod 2 = 1) FLGS_P
          (upd_flag (\<not> (v AND 1 \<noteq> 0)) FLGS_E
            (upd_flag (v AND 0x80000000 \<noteq> 0) FLGS_S (upd_flag (v = 0) FLGS_Z s)))))"
  using assms
  by (simp_all add: ins_cmp_def ins_test_def get_reg_norm set_reg_norm test_val_def
      put_flag_norm operand_b_norm wf_ins_less Let_def SIGNED32_def)

text \<open>What \<open>SEX\<close> computes: the sign extension of the low byte or word.\<close>

definition sex_val :: "byte \<Rightarrow> dword \<Rightarrow> dword \<Rightarrow> dword" where
  "sex_val p a b =
     (if p = PREFIX_BYTE then scast (ucast b :: byte)
      else if p = PREFIX_WORD then scast (ucast b :: word16) else a)"

lemma sex_fill:
  fixes b :: dword
  assumes "k = 8 \<and> fill = 0xFFFFFF00 \<or> k = 16 \<and> fill = 0xFFFF0000" "n < 32"
  shows "bit (if bit b (k - 1) then fill OR (b AND mask k) else b AND mask k) n \<longleftrightarrow>
         bit b (if n < k then n else k - 1)"
proof -
  have "(0xFFFFFF00 :: dword) = NOT (mask 8)" "(0xFFFF0000 :: dword) = NOT (mask 16)"
    by (simp_all add: mask_eq_exp_minus_1)
  then have "fill = NOT (mask k)" using assms(1) by auto
  then have fill: "bit fill n \<longleftrightarrow> k \<le> n" using assms(2) by (simp add: bit_simps not_less)
  show ?thesis using assms(2) by (auto simp: bit_simps fill)
qed

lemma sex_byte:
  "(if (b AND 0xFF) AND 0x80 \<noteq> 0 then 0xFFFFFF00 OR (b AND 0xFF) else b AND 0xFF) =
     (scast (ucast b :: byte) :: dword)" (is "?l = ?r")
  and sex_word:
  "(if (b AND 0xFFFF) AND 0x8000 \<noteq> 0 then 0xFFFF0000 OR (b AND 0xFFFF) else b AND 0xFFFF) =
     (scast (ucast b :: word16) :: dword)" (is "?l' = ?r'") for b :: dword
proof -
  have t: "(b AND 0xFF) AND 0x80 \<noteq> 0 \<longleftrightarrow> bit b (8 - 1)"
      "(b AND 0xFFFF) AND 0x8000 \<noteq> 0 \<longleftrightarrow> bit b (16 - 1)"
    by (simp_all only: test_bits mask_8 mask_16) (simp_all add: bit_simps)
  show "?l = ?r"
  proof (rule bit_word_eqI)
    fix n :: nat assume n: "n < LENGTH(32)"
    have "bit ?r n \<longleftrightarrow> bit b (if n < 8 then n else 8 - 1)"
      using n by (auto simp: bit_simps min_def not_less le_less_Suc_eq dest: le_antisym)
    then show "bit ?l n = bit ?r n"
      using sex_fill[of 8 "0xFFFFFF00" n b] n unfolding t(1) unfolding mask_8 by simp
  qed
  show "?l' = ?r'"
  proof (rule bit_word_eqI)
    fix n :: nat assume n: "n < LENGTH(32)"
    have "bit ?r' n \<longleftrightarrow> bit b (if n < 16 then n else 16 - 1)"
      using n by (auto simp: bit_simps min_def not_less le_less_Suc_eq dest: le_antisym)
    then show "bit ?l' n = bit ?r' n"
      using sex_fill[of 16 "0xFFFF0000" n b] n unfolding t(2) unfolding mask_16 by simp
  qed
qed

lemma ins_sex_norm [norm_simps]:
  assumes "wf s" "wf_ins i"
  shows "ins_sex i s =
    Inr (upd_reg (opa i) (sex_val (prefix i) (reg_of s (opa i)) (reg_of s (opb i))) s)"
  using assms
  by (simp only: ins_sex_def get_reg_norm set_reg_norm wf_ins_less ubind.simps Let_def sex_byte
      sex_word sex_val_def)

text \<open>The loop of \<open>TEST\<close> counts the bits that are set.\<close>

lemma test_loop_eq: "test_loop n v k = k + int (card {i. i < n \<and> bit v i})"
proof (induction n arbitrary: v k)
  case (Suc n)
  have split: "{i. i < Suc n \<and> bit v i} =
      (if bit v 0 then {0} else {}) \<union> Suc ` {i. i < n \<and> bit (drop_bit 1 v) i}"
    by (auto simp: bit_drop_bit_eq image_iff less_Suc_eq_0_disj)
  have "card {i. i < Suc n \<and> bit v i} =
      (if bit v 0 then 1 else 0) + card {i. i < n \<and> bit (drop_bit 1 v) i}"
    unfolding split by (subst card_Un_disjoint) (auto simp: card_image)
  then show ?case
    by (simp add: Suc.IH test_bits(1) del: bit_0)
qed simp

section \<open>An interface of three-operand instructions\<close>

text \<open>
  What the arithmetic instructions share: operand A is a register, operand B whatever \<open>src\<close> says,
  and where \<open>ok\<close> accepts operand B, register \<open>dst\<close> becomes \<open>f a b\<close> and nothing but the flags
  register changes with it. Otherwise nothing changes at all.
\<close>

locale three_operand =
  fixes exec :: "instruction_context \<Rightarrow> emulator_context \<Rightarrow> stop + emulator_context"
    and src :: "instruction_context \<Rightarrow> emulator_context \<Rightarrow> dword"
    and ok :: "dword \<Rightarrow> bool"
    and f :: "dword \<Rightarrow> dword \<Rightarrow> dword"
  assumes refused: "wf s \<Longrightarrow> wf_ins i \<Longrightarrow> \<not> ok (src i s) \<Longrightarrow> exec i s = Inr s"
    and computed: "wf s \<Longrightarrow> wf_ins i \<Longrightarrow> ok (src i s) \<Longrightarrow>
      \<exists>s'. exec i s = Inr s' \<and> same_but {dst i, CPU_REG_FLGS} s s' \<and>
        (dst i \<noteq> CPU_REG_FLGS \<longrightarrow> reg_of s' (dst i) = f (reg_of s (opa i)) (src i s))"
begin

lemma total:
  assumes "wf s" "wf_ins i"
  shows "\<exists>s'. exec i s = Inr s' \<and> same_but {dst i, CPU_REG_FLGS} s s'"
  using refused[OF assms] computed[OF assms] assms(1) by (cases "ok (src i s)") auto

lemma result:
  assumes "wf s" "wf_ins i" "ok (src i s)" "dst i \<noteq> CPU_REG_FLGS"
  shows "\<exists>s'. exec i s = Inr s' \<and> same_but {dst i, CPU_REG_FLGS} s s' \<and>
           reg_of s' (dst i) = f (reg_of s (opa i)) (src i s)"
  using computed[OF assms(1-3)] assms(4) by auto

text \<open>Operands that are neither the destination nor the flags survive.\<close>

lemma keeps:
  assumes "wf s" "wf_ins i" "exec i s = Inr s'" "r \<noteq> dst i" "r \<noteq> CPU_REG_FLGS"
  shows "reg_of s' r = reg_of s r"
  using total[OF assms(1,2)] assms(3-5) by (auto simp: same_but_def)

end

lemmas three_operand_intros = same_but_upd_reg same_but_upd_flag same_but_refl

lemma alu_result [ectx_simps]:
  assumes "wf s" "r < 16" "r \<noteq> CPU_REG_FLGS"
  shows "reg_of (upd_flag b m (upd_reg r v s)) r = v"
    "reg_of (upd_flag c n (upd_flag b m (upd_reg r v s))) r = v"
  using assms by (simp_all add: ectx_simps)

interpretation add: three_operand ins_add opb_of "\<lambda>_. True" "(+)"
  by unfold_locales
     (auto simp: alu_norms Let_def ectx_simps wf_ins_less intro!: three_operand_intros)

interpretation sub: three_operand ins_sub opb_of "\<lambda>_. True" "(-)"
  by unfold_locales
     (auto simp: alu_norms Let_def ectx_simps wf_ins_less intro!: three_operand_intros)

interpretation smul: three_operand ins_smul opb_of "\<lambda>_. True" "(*)"
  by unfold_locales
     (auto simp: alu_norms Let_def ectx_simps wf_ins_less intro!: three_operand_intros)

interpretation band: three_operand ins_and opb_of "\<lambda>_. True" "(AND)"
  by unfold_locales (auto simp: alu_norms ectx_simps wf_ins_less intro!: three_operand_intros)

interpretation bor: three_operand ins_or opb_of "\<lambda>_. True" "(OR)"
  by unfold_locales (auto simp: alu_norms ectx_simps wf_ins_less intro!: three_operand_intros)

interpretation bxor: three_operand ins_xor opb_of "\<lambda>_. True" "(XOR)"
  by unfold_locales (auto simp: alu_norms ectx_simps wf_ins_less intro!: three_operand_intros)

lemma ucast_mul: "(ucast ((ucast a :: qword) * ucast b) :: dword) = a * b" for a b :: dword
proof (rule word_unat_eq_iff[THEN iffD2])
  have "unat a * unat b < 18446744073709551616"
    using mult_strict_mono'[OF unat_dword_less[of a] unat_dword_less[of b]] by simp
  then show "unat (ucast ((ucast a :: qword) * ucast b) :: dword) = unat (a * b)"
    using unat_dword_less[of a] unat_dword_less[of b]
    by (simp add: unat_word_ariths unsigned_ucast_eq take_bit_eq_mod)
qed

interpretation mul: three_operand ins_mul opb_of "\<lambda>_. True" "(*)"
  by unfold_locales
     (auto simp: mul_norms Let_def ectx_simps wf_ins_less ucast_mul intro!: three_operand_intros)

interpretation udiv: three_operand ins_div opb_of "\<lambda>b. b \<noteq> 0" "(div)"
  by unfold_locales
     (auto simp: mul_norms Let_def ectx_simps wf_ins_less intro!: three_operand_intros)

interpretation umod: three_operand ins_mod "\<lambda>i s. reg_of s (opb i)" "\<lambda>b. b \<noteq> 0" "(mod)"
  by unfold_locales
     (auto simp: mul_norms Let_def ectx_simps wf_ins_less intro!: three_operand_intros)

interpretation sdiv: three_operand ins_sdiv opb_of "\<lambda>b. b \<noteq> 0"
  "\<lambda>a b. if sint a sdiv sint b > 2147483647 \<or> sint a sdiv sint b < -2147483648 then 0
          else word_of_int (sint a sdiv sint b)"
  by unfold_locales
     (auto simp: mul_norms Let_def ectx_simps wf_ins_less intro!: three_operand_intros)

interpretation shl: three_operand ins_shl opb_of "\<lambda>_. True" "\<lambda>a b. push_bit (unat b mod 32) a"
  by unfold_locales
     (auto simp: shift_norms Let_def ectx_simps wf_ins_less intro!: three_operand_intros)

interpretation shr: three_operand ins_shr opb_of "\<lambda>_. True" "\<lambda>a b. drop_bit (unat b mod 32) a"
  by unfold_locales
     (auto simp: shift_norms Let_def ectx_simps wf_ins_less intro!: three_operand_intros)

interpretation sar: three_operand ins_sar opb_of "\<lambda>_. True"
  "\<lambda>a b. word_of_int (drop_bit (unat b mod 32) (sint a))"
  by unfold_locales
     (auto simp: shift_norms Let_def ectx_simps wf_ins_less intro!: three_operand_intros)

section \<open>Properties\<close>

text \<open>
  What it means that an instruction computes \<open>f\<close>: it does not stop, register \<open>dst\<close> holds \<open>f\<close> of the
  operands, and memory, counters, pointer, control registers and the registers other than \<open>dst\<close>
  and \<open>FLGS\<close> are as before.
\<close>

definition performs ::
  "(instruction_context \<Rightarrow> emulator_context \<Rightarrow> stop + emulator_context) \<Rightarrow> (dword \<Rightarrow> dword \<Rightarrow> dword) \<Rightarrow>
   instruction_context \<Rightarrow> emulator_context \<Rightarrow> bool" where
  "performs exec f i s \<longleftrightarrow>
     (\<exists>s'. exec i s = Inr s' \<and> same_but {dst i, CPU_REG_FLGS} s s' \<and>
        reg_of s' (dst i) = f (reg_of s (opa i)) (opb_of i s))"

lemma as_numbers:
  "a + b = of_nat (unat a + unat b)" "a - b = of_int (uint a - uint b)"
  "a * b = of_nat (unat a * unat b)" "a * b = of_int (sint a * sint b)"
  "push_bit n a = of_nat (unat a * 2 ^ n)" "drop_bit n a = of_nat (unat a div 2 ^ n)"
  "a div b = of_nat (unat a div unat b)" "a mod b = of_nat (unat a mod unat b)"
  for a b :: dword
proof -
  show "drop_bit n a = of_nat (unat a div 2 ^ n)"
    by (metis drop_bit_eq_div unat_drop_bit_eq of_nat_unat ucast_id)
  show "a div b = of_nat (unat a div unat b)" "a mod b = of_nat (unat a mod unat b)"
    by (simp_all flip: unat_div unat_mod)
qed (simp_all add: push_bit_eq_mult)

text \<open>The signed quotient leaves the 32-bit range for one pair of operands only.\<close>

lemma sdiv_range:
  fixes a b :: int
  assumes "- (2 ^ 31) \<le> a" "a < 2 ^ 31" "b \<noteq> 0"
  shows "a sdiv b > 2147483647 \<or> a sdiv b < -2147483648 \<longleftrightarrow> a = - (2 ^ 31) \<and> b = -1"
proof -
  have q: "\<bar>a\<bar> div \<bar>b\<bar> \<le> \<bar>a\<bar>" "0 \<le> \<bar>a\<bar> div \<bar>b\<bar>"
    using assms(3) by (simp_all add: int_div_le_self pos_imp_zdiv_nonneg_iff) (cases "a = 0"; simp add: int_div_le_self)
  have small: "\<bar>a\<bar> div \<bar>b\<bar> \<le> 2 ^ 30" if "\<bar>b\<bar> \<noteq> 1"
  proof -
    have "2 \<le> \<bar>b\<bar>" using assms(3) that by linarith
    then have "\<bar>a\<bar> div \<bar>b\<bar> \<le> \<bar>a\<bar> div 2" by (intro zdiv_mono2) auto
    moreover have "\<bar>a\<bar> div 2 \<le> 2 ^ 31 div 2" using assms(1,2) by (intro zdiv_mono1) auto
    ultimately show ?thesis by simp
  qed
  show ?thesis
  proof (cases "\<bar>b\<bar> = 1")
    case True
    then have "b = 1 \<or> b = -1" by linarith
    then show ?thesis using assms(1,2)
      by (cases "a = 0") (auto simp: signed_divide_int_def sgn_if)
  next
    case False
    have "\<bar>a sdiv b\<bar> \<le> \<bar>a\<bar> div \<bar>b\<bar>"
      using q(2) by (auto simp: signed_divide_int_def abs_mult sgn_if)
    then show ?thesis using small[OF False] False by auto
  qed
qed

lemma sdiv_over:
  "b \<noteq> 0 \<Longrightarrow> (sint a sdiv sint b > 2147483647 \<or> sint a sdiv sint b < -2147483648) \<longleftrightarrow>
     sint a = - (2 ^ 31) \<and> sint b = -1" for a b :: dword
  using sint_ge[of a] sint_lt[of a] by (intro sdiv_range) (simp_all add: signed_eq_0_iff)

text \<open>
  C15. With a destination other than the flags register, \<open>ADD\<close>, \<open>SUB\<close>, \<open>MUL\<close>, \<open>SMUL\<close>, \<open>AND\<close>, \<open>OR\<close>, \<open>XOR\<close>, \<open>SHL\<close>,
  \<open>SHR\<close>, \<open>SAR\<close>, \<open>DIV\<close> and \<open>SDIV\<close> (for a divisor other than zero), \<open>MOD\<close> (register operand, not zero) and
  \<open>NOT\<close> compute the function of their operands modulo 2^32: sums, differences and products of the
  unsigned and of the signed values, bitwise operations, shifts by the low five bits of operand B
  (arithmetic for \<open>SAR\<close>), unsigned quotient and remainder, the signed quotient rounded towards zero (zero
  for the one pair of operands whose quotient does not fit), the complement of operand B. They change
  nothing else than the destination and the flags, and \<open>NOT\<close> not even the flags.
\<close>

theorem alu_results:
  assumes "wf s" "wf_ins i" "dst i \<noteq> CPU_REG_FLGS"
  shows "performs ins_add (\<lambda>a b. of_nat (unat a + unat b)) i s \<and>
    performs ins_sub (\<lambda>a b. of_int (uint a - uint b)) i s \<and>
    performs ins_mul (\<lambda>a b. of_nat (unat a * unat b)) i s \<and>
    performs ins_smul (\<lambda>a b. of_int (sint a * sint b)) i s \<and>
    performs ins_and (AND) i s \<and> performs ins_or (OR) i s \<and> performs ins_xor (XOR) i s \<and>
    performs ins_shl (\<lambda>a b. of_nat (unat a * 2 ^ (unat b mod 32))) i s \<and>
    performs ins_shr (\<lambda>a b. of_nat (unat a div 2 ^ (unat b mod 32))) i s \<and>
    performs ins_sar (\<lambda>a b. of_int (sint a div 2 ^ (unat b mod 32))) i s \<and>
    (opb_of i s \<noteq> 0 \<longrightarrow> performs ins_div (\<lambda>a b. of_nat (unat a div unat b)) i s) \<and>
    (prefix i \<noteq> PREFIX_IMM \<and> opb_of i s \<noteq> 0 \<longrightarrow>
       performs ins_mod (\<lambda>a b. of_nat (unat a mod unat b)) i s) \<and>
    (opb_of i s \<noteq> 0 \<longrightarrow>
       performs ins_sdiv (\<lambda>a b. if sint a = - (2 ^ 31) \<and> sint b = -1 then 0 else of_int (sint a sdiv sint b)) i s) \<and>
    (\<exists>s'. ins_not i s = Inr s' \<and> same_but {opa i} s s' \<and>
       (\<forall>k < 32. bit (reg_of s' (opa i)) k \<longleftrightarrow> \<not> bit (reg_of s (opb i)) k))"
proof -
  note r = assms(1,2) TrueI assms(3)
  have "performs ins_add (\<lambda>a b. of_nat (unat a + unat b)) i s"
    "performs ins_sub (\<lambda>a b. of_int (uint a - uint b)) i s"
    "performs ins_mul (\<lambda>a b. of_nat (unat a * unat b)) i s"
    "performs ins_smul (\<lambda>a b. of_int (sint a * sint b)) i s"
    "performs ins_and (AND) i s" "performs ins_or (OR) i s" "performs ins_xor (XOR) i s"
    unfolding performs_def as_numbers[symmetric]
    by (rule add.result[OF r] sub.result[OF r] mul.result[OF r] smul.result[OF r]
        band.result[OF r] bor.result[OF r] bxor.result[OF r])+
  moreover have "performs ins_shl (\<lambda>a b. of_nat (unat a * 2 ^ (unat b mod 32))) i s"
    "performs ins_shr (\<lambda>a b. of_nat (unat a div 2 ^ (unat b mod 32))) i s"
    unfolding performs_def as_numbers[symmetric]
    by (rule shl.result[OF r] shr.result[OF r])+
  moreover have "performs ins_sar (\<lambda>a b. of_int (sint a div 2 ^ (unat b mod 32))) i s"
    unfolding performs_def using sar.result[OF r] by (simp add: drop_bit_eq_div)
  moreover have "opb_of i s \<noteq> 0 \<longrightarrow> performs ins_div (\<lambda>a b. of_nat (unat a div unat b)) i s"
    unfolding performs_def as_numbers(7)[symmetric] using udiv.result[OF assms(1,2) _ assms(3)]
    by blast
  moreover have "prefix i \<noteq> PREFIX_IMM \<and> opb_of i s \<noteq> 0 \<longrightarrow>
       performs ins_mod (\<lambda>a b. of_nat (unat a mod unat b)) i s"
    unfolding performs_def as_numbers(8)[symmetric] using umod.result[OF assms(1,2) _ assms(3)]
    by (simp add: opb_of_def)
  moreover have "opb_of i s \<noteq> 0 \<longrightarrow>
       performs ins_sdiv (\<lambda>a b. if sint a = - (2 ^ 31) \<and> sint b = -1 then 0 else of_int (sint a sdiv sint b)) i s"
    unfolding performs_def using sdiv.result[OF assms(1,2) _ assms(3)] sdiv_over[of "opb_of i s" "reg_of s (opa i)"]
    by (cases "opb_of i s = 0") (simp_all cong: if_cong)
  moreover have "\<exists>s'. ins_not i s = Inr s' \<and> same_but {opa i} s s' \<and>
       (\<forall>k < 32. bit (reg_of s' (opa i)) k \<longleftrightarrow> \<not> bit (reg_of s (opb i)) k)"
    using assms by (auto simp: alu_norms reg_of_upd bit_simps wf_ins_less intro!: same_but_upd_reg)
  ultimately show ?thesis by blast
qed

theorem alu_results_witness:
  "\<exists>i s s'. ins_sub i s = Inr s' \<and> reg_of s' 2 = of_int (uint (7 :: dword) - uint (9 :: dword))"
proof -
  let ?s = "upd_reg 1 7 (sample_ectx 64)" and ?i = "decode_bytes 0xEB 0x02 0x10 0x09"
  have "performs ins_sub (\<lambda>a b. of_int (uint a - uint b)) ?i ?s"
    using alu_results[of ?s ?i] by simp
  then show ?thesis
    unfolding performs_def by (auto simp: reg_of_upd opb_of_def decode_bytes_def)
qed

text \<open>Signed results that fit.\<close>

lemma sint_of_int_iff:
  "sint (of_int k :: dword) = k \<longleftrightarrow> - (2 ^ 31) \<le> k \<and> k < 2 ^ 31"
  by (simp add: signed_of_int signed_take_bit_int_eq_self_iff)

lemma signed_overflow_iff:
  "k \<noteq> sint (of_int k :: dword) \<longleftrightarrow> k \<notin> {- (2 ^ 31) ..< 2 ^ 31}"
  using sint_of_int_iff[of k] by auto

lemma sint_signed_ops:
  "sint (a + b) = sint (of_int (sint a + sint b) :: dword)"
  "sint (a - b) = sint (of_int (sint a - sint b) :: dword)"
  "sint (a * b) = sint (of_int (sint a * sint b) :: dword)" for a b :: dword
  by simp_all

lemma mul_carry_iff:
  "(ucast a :: qword) * ucast b > DWORD_MAX \<longleftrightarrow> 2 ^ 32 \<le> unat a * unat b" for a b :: dword
proof -
  have "unat a * unat b < 18446744073709551616"
    using mult_strict_mono'[OF unat_dword_less[of a] unat_dword_less[of b]] by simp
  then have "unat ((ucast a :: qword) * ucast b) = unat a * unat b"
    using unat_dword_less[of a] unat_dword_less[of b]
    by (simp add: unat_word_ariths unsigned_ucast_eq take_bit_eq_mod)
  then show ?thesis by (auto simp: word_less_nat_alt)
qed

text \<open>The flags after a run of an instruction.\<close>

definition flags_after ::
  "(instruction_context \<Rightarrow> emulator_context \<Rightarrow> stop + emulator_context) \<Rightarrow> instruction_context \<Rightarrow>
   emulator_context \<Rightarrow> (dword \<times> bool) list \<Rightarrow> bool" where
  "flags_after exec i s fs \<longleftrightarrow>
     (\<exists>s'. exec i s = Inr s' \<and> (\<forall>(m, b) \<in> set fs. flag s' m = b) \<and>
        (\<forall>m \<in> {FLGS_Z, FLGS_C, FLGS_O, FLGS_P, FLGS_S, FLGS_E}. m \<notin> fst ` set fs \<longrightarrow> flag s' m = flag s m))"

text \<open>
  C10. With a destination other than the flags register the flags are the documented ones: after \<open>ADD\<close> and \<open>SUB\<close> carry is the unsigned carry or
  borrow and overflow says that the signed result left the 32-bit range; \<open>MUL\<close> sets carry when the
  unsigned product needs more than 32 bits, \<open>SMUL\<close> overflow when the signed one does; a left shift
  puts the most significant bit of operand A into carry, a right shift the least significant one;
  \<open>CMP\<close> sets zero, carry and sign by equality, unsigned and signed order. No other flag changes.
\<close>

theorem alu_flags:
  assumes "wf s" "wf_ins i" "dst i \<noteq> CPU_REG_FLGS" "a = reg_of s (opa i)" "b = opb_of i s"
  shows
    "flags_after ins_add i s [(FLGS_C, 2 ^ 32 \<le> unat a + unat b),
       (FLGS_O, sint a + sint b \<notin> {- (2 ^ 31) ..< 2 ^ 31})] \<and>
     flags_after ins_sub i s [(FLGS_C, unat a < unat b),
       (FLGS_O, sint a - sint b \<notin> {- (2 ^ 31) ..< 2 ^ 31})] \<and>
     flags_after ins_mul i s [(FLGS_C, 2 ^ 32 \<le> unat a * unat b)] \<and>
     flags_after ins_smul i s [(FLGS_O, sint a * sint b \<notin> {- (2 ^ 31) ..< 2 ^ 31})] \<and>
     flags_after ins_shl i s [(FLGS_C, bit a 31)] \<and>
     flags_after ins_shr i s [(FLGS_C, bit a 0)] \<and>
     flags_after ins_sar i s [(FLGS_C, bit a 0)] \<and>
     flags_after ins_cmp i s [(FLGS_Z, a = b), (FLGS_C, unat a < unat b), (FLGS_S, sint a < sint b)]"
proof -
  note s = assms(1-3) wf_ins_less[OF assms(2)]
  note fl = flags_after_def alu_norms mul_norms shift_norms cmp_test_norms Let_def flag_upd_flag
    flag_upd_reg s assms(4,5)[symmetric]
  have "flags_after ins_add i s [(FLGS_C, 2 ^ 32 \<le> unat a + unat b),
       (FLGS_O, sint a + sint b \<noteq> sint (a + b))]"
    "flags_after ins_sub i s [(FLGS_C, unat a < unat b), (FLGS_O, sint a - sint b \<noteq> sint (a - b))]"
    "flags_after ins_smul i s [(FLGS_O, sint a * sint b \<noteq> sint (a * b))]"
    by (simp_all add: fl)
  moreover have "flags_after ins_mul i s [(FLGS_C, (ucast a :: qword) * ucast b > DWORD_MAX)]"
    "flags_after ins_shl i s [(FLGS_C, a AND 0x80000000 \<noteq> 0)]"
    "flags_after ins_shr i s [(FLGS_C, a AND 1 \<noteq> 0)]"
    "flags_after ins_sar i s [(FLGS_C, a AND 1 \<noteq> 0)]"
    "flags_after ins_cmp i s [(FLGS_Z, a = b), (FLGS_C, a < b), (FLGS_S, sint a < sint b)]"
    by (simp_all add: fl)
  ultimately show ?thesis
    unfolding sint_signed_ops signed_overflow_iff mul_carry_iff test_bits word_less_nat_alt[of a b]
    by blast
qed

theorem alu_flags_witness:
  "\<exists>i s. flags_after ins_cmp i s [(FLGS_Z, False), (FLGS_C, False), (FLGS_S, True)]"
proof -
  let ?s = "upd_reg 1 0xFFFFFFFF (sample_ectx 64)" and ?i = "decode_bytes 0xD8 0 0x10 0x09"
  have "flags_after ins_cmp ?i ?s [(FLGS_Z, reg_of ?s (opa ?i) = opb_of ?i ?s),
      (FLGS_C, unat (reg_of ?s (opa ?i)) < unat (opb_of ?i ?s)),
      (FLGS_S, sint (reg_of ?s (opa ?i)) < sint (opb_of ?i ?s))]"
    using alu_flags[of ?s ?i] by simp
  then have "flags_after ins_cmp ?i ?s [(FLGS_Z, False), (FLGS_C, False), (FLGS_S, True)]"
    by (simp add: reg_of_upd opb_of_def decode_bytes_def)
  then show ?thesis by blast
qed

text \<open>
  \<open>TEST\<close> sets zero, sign, even and parity by the value tested: zero if it is 0, sign if it is
  negative as a signed dword, even if its last bit is clear, parity if the number of its bits that
  are set is odd. Carry and overflow stay, and so does every register but \<open>FLGS\<close>.
\<close>

theorem test_flags:
  assumes "wf s" "wf_ins i" "v = (if prefix i = PREFIX_IMM then ucast (imm16 i) else reg_of s (dst i))"
  shows "flags_after ins_test i s [(FLGS_Z, v = 0), (FLGS_S, sint v < 0), (FLGS_E, even (unat v)),
           (FLGS_P, odd (card {k. k < 32 \<and> bit v k}))] \<and>
         (\<exists>s'. ins_test i s = Inr s' \<and> same_but {CPU_REG_FLGS} s s')"
proof
  have par: "test_loop 32 v 0 mod 2 = 1 \<longleftrightarrow> odd (card {k. k < 32 \<and> bit v k})"
    by (simp add: test_loop_eq flip: odd_iff_mod_2_eq_one)
  have sgn: "v AND 0x80000000 \<noteq> 0 \<longleftrightarrow> sint v < 0"
    using bit_last_iff[of v] by (simp add: test_bits(4))
  have ev: "\<not> (v AND 1 \<noteq> 0) \<longleftrightarrow> even (unat v)"
    by (metis test_bits(1) bit_0 bit_unsigned_iff possible_bit_nat)
  show "flags_after ins_test i s [(FLGS_Z, v = 0), (FLGS_S, sint v < 0), (FLGS_E, even (unat v)),
           (FLGS_P, odd (card {k. k < 32 \<and> bit v k}))]"
    unfolding par[symmetric] sgn[symmetric] ev[symmetric]
    using assms by (simp add: flags_after_def cmp_test_norms Let_def test_val_def flag_upd_flag)
  show "\<exists>s'. ins_test i s = Inr s' \<and> same_but {CPU_REG_FLGS} s s'"
    using assms by (auto simp: cmp_test_norms Let_def intro!: same_but_upd_flag)
qed

theorem test_flags_witness:
  "flags_after ins_test (decode_bytes 0xD6 0 0x07 0) (sample_ectx 64)
     [(FLGS_Z, False), (FLGS_S, False), (FLGS_E, False), (FLGS_P, True)]"
proof -
  have bits: "{k. k < 32 \<and> bit (7 :: dword) k} = {0, 1, 2}"
  proof -
    have "(7 :: dword) = mask 3" by (simp add: mask_eq_exp_minus_1)
    then have "{k. k < 32 \<and> bit (7 :: dword) k} = {k. k < 32 \<and> bit (mask 3 :: dword) k}" by (simp only:)
    also have "\<dots> = {0, 1, 2}" by (auto simp: bit_mask_iff)
    finally show ?thesis .
  qed
  have v: "(7 :: dword) = (if prefix (decode_bytes 0xD6 0 0x07 0) = PREFIX_IMM
      then ucast (imm16 (decode_bytes 0xD6 0 0x07 0)) else reg_of (sample_ectx 64) (dst (decode_bytes 0xD6 0 0x07 0)))"
    by (simp add: decode_bytes_def WORD_FROM_BYTES_def)
  show ?thesis
    using conjunct1[OF test_flags[OF _ wf_ins_decode v]] unfolding bits by simp
qed

text \<open>
  C27. \<open>SDIV\<close> divides the signed values, rounding towards zero. The quotient leaves the 32-bit
  range for one pair of operands only, the least dword divided by minus one: then the overflow flag
  is set and the result is zero; in every other case it is cleared and the result is exact.
  A zero divisor leaves the whole state as it was, for \<open>SDIV\<close>, \<open>DIV\<close> and \<open>MOD\<close>: no exception fires.
\<close>

theorem sdiv_correct:
  assumes "wf s" "wf_ins i" "dst i \<noteq> CPU_REG_FLGS" "a = reg_of s (opa i)" "b = opb_of i s"
  shows
    "(b = 0 \<longrightarrow> ins_sdiv i s = Inr s \<and> ins_div i s = Inr s) \<and>
     (reg_of s (opb i) = 0 \<longrightarrow> ins_mod i s = Inr s) \<and>
     (b \<noteq> 0 \<longrightarrow> (\<exists>s'. ins_sdiv i s = Inr s' \<and> same_but {dst i, CPU_REG_FLGS} s s' \<and>
        (if sint a = - (2 ^ 31) \<and> sint b = -1
         then flag s' FLGS_O \<and> reg_of s' (dst i) = 0
         else \<not> flag s' FLGS_O \<and> sint (reg_of s' (dst i)) = sint a sdiv sint b)))"
proof (intro conjI impI)
  show "ins_sdiv i s = Inr s" "ins_div i s = Inr s" if "b = 0"
    using sdiv.refused[OF assms(1,2)] udiv.refused[OF assms(1,2)] assms(5) that by simp_all
  show "ins_mod i s = Inr s" if "reg_of s (opb i) = 0"
    using umod.refused[OF assms(1,2)] that by simp
  assume b: "b \<noteq> 0"
  let ?r = "sint a sdiv sint b"
  let ?over = "?r > 2147483647 \<or> ?r < -2147483648"
  let ?s' = "upd_reg (dst i) (word_of_int (if ?over then 0 else ?r)) (upd_flag ?over FLGS_O s)"
  note over = sdiv_over[OF b, of a]
  have fit: "sint (word_of_int ?r :: dword) = ?r" if "\<not> ?over"
    using that sint_of_int_iff[of ?r] by simp
  have "ins_sdiv i s = Inr ?s'"
    using assms b by (simp add: mul_norms Let_def)
  moreover have "same_but {dst i, CPU_REG_FLGS} s ?s'"
    using assms(1,2) by (intro same_but_upd_reg same_but_upd_flag) (auto simp: wf_ins_less)
  moreover have "flag ?s' FLGS_O \<longleftrightarrow> ?over" "reg_of ?s' (dst i) = word_of_int (if ?over then 0 else ?r)"
    using assms(1-3) by (simp_all add: ectx_simps wf_ins_less)
  ultimately obtain s' where "ins_sdiv i s = Inr s'" "same_but {dst i, CPU_REG_FLGS} s s'"
    "flag s' FLGS_O \<longleftrightarrow> ?over" "reg_of s' (dst i) = word_of_int (if ?over then 0 else ?r)"
    by blast
  then show "\<exists>s'. ins_sdiv i s = Inr s' \<and> same_but {dst i, CPU_REG_FLGS} s s' \<and>
        (if sint a = - (2 ^ 31) \<and> sint b = -1
         then flag s' FLGS_O \<and> reg_of s' (dst i) = 0
         else \<not> flag s' FLGS_O \<and> sint (reg_of s' (dst i)) = sint a sdiv sint b)"
    using fit unfolding over[symmetric] by auto
qed

theorem sdiv_correct_witness:
  "\<exists>i s s'. ins_sdiv i s = Inr s' \<and> flag s' FLGS_O \<and> reg_of s' 2 = 0 \<and> reg_of s 1 = 0x80000000"
proof -
  let ?s = "upd_reg 3 0xFFFFFFFF (upd_reg 1 0x80000000 (sample_ectx 64))"
  let ?i = "decode_bytes 0x11 0x02 0x13 0"
  have b: "opb_of ?i ?s = 0xFFFFFFFF" "reg_of ?s (opa ?i) = 0x80000000" "dst ?i = 2" "dst ?i \<noteq> 0x0F"
    by (simp_all add: reg_of_upd opb_of_def)
  have "sint (0x80000000 :: dword) = - (2 ^ 31)" "sint (0xFFFFFFFF :: dword) = -1" by simp_all
  then have "\<exists>s'. ins_sdiv ?i ?s = Inr s' \<and> flag s' FLGS_O \<and> reg_of s' 2 = 0"
    using sdiv_correct[of ?s ?i, OF _ wf_ins_decode b(4) refl refl] unfolding b(1-3) by auto
  moreover have "reg_of ?s 1 = 0x80000000" by (simp add: reg_of_upd)
  ultimately show ?thesis by blast
qed

text \<open>
  \<open>SEX\<close> with a byte or word prefix leaves in operand A the dword whose signed value is that of
  the low byte or the low word of operand B; with any other prefix it changes nothing.
\<close>

theorem sex_correct:
  assumes "wf s" "wf_ins i"
  shows "\<exists>s'. ins_sex i s = Inr s' \<and> same_but {opa i} s s' \<and>
    (if prefix i = PREFIX_BYTE then sint (reg_of s' (opa i)) = sint (ucast (reg_of s (opb i)) :: byte)
     else if prefix i = PREFIX_WORD then sint (reg_of s' (opa i)) = sint (ucast (reg_of s (opb i)) :: word16)
     else reg_of s' (opa i) = reg_of s (opa i))"
proof -
  have "sint (scast b :: dword) = sint b" "sint (scast w :: dword) = sint w" for b :: byte and w :: word16
    by (simp_all add: signed_scast_eq signed_take_bit_int_eq_self_iff)
       (use sint_ge[of b] sint_lt[of b] sint_ge[of w] sint_lt[of w] in simp_all)
  moreover have "same_but {opa i} s (upd_reg (opa i) v s)" for v
    using assms by (intro same_but_upd_reg) (auto simp: wf_ins_less)
  ultimately show ?thesis
    using assms by (simp add: ins_sex_norm reg_of_upd wf_ins_less sex_val_def)
qed

theorem sex_correct_witness:
  "\<exists>i s s'. ins_sex i s = Inr s' \<and> reg_of s 2 = 0x12345680 \<and> sint (reg_of s' 1) = -128"
proof -
  let ?s = "upd_reg 2 0x12345680 (sample_ectx 64)" and ?i = "decode_bytes 0x94 0 0x12 0"
  have b: "opa ?i = 1" "opb ?i = 2" "prefix ?i = 2" "reg_of ?s 2 = 0x12345680"
    by (simp_all add: reg_of_upd)
  have v: "sint (ucast (0x12345680 :: dword) :: byte) = -128" by simp
  have "wf ?s" by simp
  from sex_correct[OF this, of ?i]
  have "\<exists>s'. ins_sex ?i ?s = Inr s' \<and> sint (reg_of s' 1) = -128"
    unfolding b using v by (simp, blast)
  then show ?thesis using b(4) by blast
qed

end
