(* ===== verification/Moves.thy ===== *)
theory Moves
  imports Alu
begin

text \<open>
  The instructions of \<^verbatim>\<open>src/cpu/cpu.c\<close> that move data: between registers, between registers and
  control registers, and between registers and memory, with the stack primitives and the two
  instructions that store and load a run of registers.
\<close>

unbundle bit_operations_syntax

section \<open>Operations\<close>

subsection \<open>Registers\<close>

definition ins_loadi :: "instruction_context \<Rightarrow> emulator_context \<Rightarrow> stop + emulator_context" where
  "ins_loadi ins ectx =
     (if prefix ins = PREFIX_BYTE
      then cpu_set_byte_reg (dst ins) (ucast (imm16 ins AND 0x00FF)) ectx
      else cpu_set_word_reg (dst ins) (imm16 ins) ectx)"

definition ins_mov :: "instruction_context \<Rightarrow> emulator_context \<Rightarrow> stop + emulator_context" where
  "ins_mov ins ectx =
     (if prefix ins = PREFIX_IMM then set_reg (opa ins) (ucast (imm12 ins)) ectx
      else if prefix ins = PREFIX_DWORD then
        ubind (get_reg (opb ins) ectx) (\<lambda>dw. set_reg (opa ins) dw ectx)
      else if prefix ins = PREFIX_WORD then
        ubind (cpu_get_word_reg (opb ins) ectx) (\<lambda>w. cpu_set_word_reg (opa ins) w ectx)
      else if prefix ins = PREFIX_BYTE then
        ubind (cpu_get_byte_reg (opb ins) ectx) (\<lambda>b. cpu_set_byte_reg (opa ins) b ectx)
      else Inr ectx)"

definition ins_movfc :: "instruction_context \<Rightarrow> emulator_context \<Rightarrow> stop + emulator_context" where
  "ins_movfc ins ectx = ubind (get_creg (opb ins) ectx) (\<lambda>c. set_reg (opa ins) c ectx)"

definition ins_movtc :: "instruction_context \<Rightarrow> emulator_context \<Rightarrow> stop + emulator_context" where
  "ins_movtc ins ectx = ubind (get_reg (opb ins) ectx) (\<lambda>r. set_creg (opa ins) r ectx)"

definition ins_xchg :: "instruction_context \<Rightarrow> emulator_context \<Rightarrow> stop + emulator_context" where
  "ins_xchg ins ectx =
     ubind (get_reg (opa ins) ectx) (\<lambda>temp.
     ubind (get_reg (opb ins) ectx) (\<lambda>b.
     ubind (set_reg (opa ins) b ectx) (\<lambda>ectx.
     set_reg (opb ins) temp ectx)))"

definition ins_xchgc :: "instruction_context \<Rightarrow> emulator_context \<Rightarrow> stop + emulator_context" where
  "ins_xchgc ins ectx =
     ubind (get_reg (opa ins) ectx) (\<lambda>temp.
     ubind (get_creg (opb ins) ectx) (\<lambda>c.
     ubind (set_reg (opa ins) c ectx) (\<lambda>ectx.
     set_creg (opb ins) temp ectx)))"

subsection \<open>Memory\<close>

text \<open>
  In the guards the sum is taken at 64 bits: unsigned for the immediate displacement, signed for
  the register displacement (an unbounded \<open>int\<close> here, which it cannot leave). The address itself is
  a dword sum.
\<close>

definition ins_loadid :: "instruction_context \<Rightarrow> emulator_context \<Rightarrow> stop + emulator_context" where
  "ins_loadid ins ectx =
     ubind (get_reg (opa ins) ectx) (\<lambda>a.
     if (ucast a :: qword) + ucast (imm12 ins) > DWORD_MAX then Inr ectx
     else if prefix ins = PREFIX_DWORD then
       ubind (mem_get_dword_p (a + ucast (imm12 ins)) ectx) (\<lambda>(success, data).
       if \<not> success then Inr ectx else set_reg (dst ins) data ectx)
     else if prefix ins = PREFIX_WORD then
       ubind (mem_get_word_p (a + ucast (imm12 ins)) ectx) (\<lambda>(success, data).
       if \<not> success then Inr ectx else cpu_set_word_reg (dst ins) data ectx)
     else if prefix ins = PREFIX_BYTE then
       ubind (mem_get_byte_p (a + ucast (imm12 ins)) ectx) (\<lambda>(success, data).
       if \<not> success then Inr ectx else cpu_set_byte_reg (dst ins) data ectx)
     else Inr ectx)"

definition ins_loadrd :: "instruction_context \<Rightarrow> emulator_context \<Rightarrow> stop + emulator_context" where
  "ins_loadrd ins ectx =
     ubind (get_reg (opa ins) ectx) (\<lambda>a.
     ubind (get_reg (opb ins) ectx) (\<lambda>b.
     let ofs = SIGNED32 b in
     if uint a + ofs > 0xFFFFFFFF \<or> uint a + ofs < 0 then Inr ectx
     else
       let disp = UNSIGNED32 (SIGNED32 b) in
       if prefix ins = PREFIX_DWORD then
         ubind (mem_get_dword_p (a + disp) ectx) (\<lambda>(success, data).
         if \<not> success then Inr ectx else set_reg (dst ins) data ectx)
       else if prefix ins = PREFIX_WORD then
         ubind (mem_get_word_p (a + disp) ectx) (\<lambda>(success, data).
         if \<not> success then Inr ectx else cpu_set_word_reg (dst ins) data ectx)
       else if prefix ins = PREFIX_BYTE then
         ubind (mem_get_byte_p (a + disp) ectx) (\<lambda>(success, data).
         if \<not> success then Inr ectx else cpu_set_byte_reg (dst ins) data ectx)
       else Inr ectx))"

definition ins_storeid :: "instruction_context \<Rightarrow> emulator_context \<Rightarrow> stop + emulator_context" where
  "ins_storeid ins ectx =
     ubind (get_reg (dst ins) ectx) (\<lambda>d.
     if (ucast d :: qword) + ucast (imm12 ins) > DWORD_MAX then Inr ectx
     else if prefix ins = PREFIX_DWORD then
       ubind (get_reg (opa ins) ectx) (\<lambda>a.
       ubind (mem_write_dword_p a (d + ucast (imm12 ins)) ectx) (\<lambda>(success, ectx). Inr ectx))
     else if prefix ins = PREFIX_BYTE then
       ubind (cpu_get_byte_reg (opa ins) ectx) (\<lambda>b.
       ubind (mem_write_byte_p b (d + ucast (imm12 ins)) ectx) (\<lambda>(success, ectx). Inr ectx))
     else if prefix ins = PREFIX_WORD then
       ubind (cpu_get_word_reg (opa ins) ectx) (\<lambda>w.
       ubind (mem_write_word_p w (d + ucast (imm12 ins)) ectx) (\<lambda>(success, ectx). Inr ectx))
     else Inr ectx)"

definition ins_storerd :: "instruction_context \<Rightarrow> emulator_context \<Rightarrow> stop + emulator_context" where
  "ins_storerd ins ectx =
     ubind (get_reg (dst ins) ectx) (\<lambda>d.
     ubind (get_reg (opb ins) ectx) (\<lambda>b.
     let ofs = SIGNED32 b in
     if uint d + ofs > 0xFFFFFFFF \<or> uint d + ofs < 0 then Inr ectx
     else
       let disp = UNSIGNED32 (SIGNED32 b) in
       if prefix ins = PREFIX_DWORD then
         ubind (get_reg (opa ins) ectx) (\<lambda>a.
         ubind (mem_write_dword_p a (d + disp) ectx) (\<lambda>(success, ectx). Inr ectx))
       else if prefix ins = PREFIX_BYTE then
         ubind (cpu_get_byte_reg (opa ins) ectx) (\<lambda>b.
         ubind (mem_write_byte_p b (d + disp) ectx) (\<lambda>(success, ectx). Inr ectx))
       else if prefix ins = PREFIX_WORD then
         ubind (cpu_get_word_reg (opa ins) ectx) (\<lambda>w.
         ubind (mem_write_word_p w (d + disp) ectx) (\<lambda>(success, ectx). Inr ectx))
       else Inr ectx))"

definition ins_cmpxchg :: "instruction_context \<Rightarrow> emulator_context \<Rightarrow> stop + emulator_context" where
  "ins_cmpxchg ins ectx =
     ubind (get_reg (dst ins) ectx) (\<lambda>dest.
     if prefix ins = PREFIX_DWORD then
       ubind (mem_get_dword_p dest ectx) (\<lambda>(success, memValue).
       if \<not> success then Inr ectx
       else
         ubind (get_reg (opa ins) ectx) (\<lambda>a.
         ubind (get_reg (opb ins) ectx) (\<lambda>b.
         if memValue = a then
           ubind (mem_write_dword_p b dest ectx) (\<lambda>(success, ectx).
           if \<not> success then Inr ectx else put_flag True FLGS_Z ectx)
         else
           ubind (set_reg (opa ins) memValue ectx) (\<lambda>ectx.
           put_flag False FLGS_Z ectx))))
     else Inr ectx)"

subsection \<open>Stack\<close>

text \<open>
  The pointer parameters \<open>reg\<close> and \<open>val\<close> are values that go in and come out: both callers pass a
  local variable as \<open>reg\<close>. The new value of \<open>*val\<close> is one only where the call reports success.
\<close>

definition cpu_push_dword ::
  "dword \<Rightarrow> dword \<Rightarrow> emulator_context \<Rightarrow> stop + (bool \<times> dword \<times> emulator_context)" where
  "cpu_push_dword reg val ectx =
     ubind (mem_write_dword_p val reg ectx) (\<lambda>(success, ectx).
     if \<not> success then Inr (False, reg, ectx) else Inr (True, reg - 4, ectx))"

definition cpu_pop_dword :: "dword \<Rightarrow> emulator_context \<Rightarrow> stop + (bool \<times> dword \<times> dword)" where
  "cpu_pop_dword reg ectx =
     (let sp = reg; reg = reg + 4 in
      ubind (mem_get_dword_p reg ectx) (\<lambda>(success, val).
      if \<not> success then Inr (False, sp, val) else Inr (True, reg, val)))"

lemma byte_pred_less: "q \<le> p \<Longrightarrow> p \<noteq> q \<Longrightarrow> unat (p - 1) = unat p - 1 \<and> 0 < unat p" for p q :: byte
proof -
  assume "q \<le> p" "p \<noteq> q"
  then have "unat q < unat p" by (simp add: word_le_nat_alt word_unat_eq_iff)
  then show ?thesis by (simp add: unat_sub word_le_nat_alt)
qed

text \<open>The loop of \<open>ins_loadma\<close>: \<open>regp\<close> counts down to \<open>regstart\<close> and leaves by the \<open>break\<close>.\<close>

function loadma_loop ::
  "byte \<Rightarrow> byte \<Rightarrow> dword \<Rightarrow> emulator_context \<Rightarrow> stop + (bool \<times> dword \<times> emulator_context)" where
  "loadma_loop regstart regp temp ectx =
     (if regp \<ge> regstart then
        ubind (cpu_pop_dword temp ectx) (\<lambda>(success, temp, val).
        if \<not> success then Inr (False, temp, ectx)
        else
          ubind (set_reg regp val ectx) (\<lambda>ectx.
          if regp = regstart then Inr (True, temp, ectx)
          else loadma_loop regstart (regp - 1) temp ectx))
      else Inr (True, temp, ectx))"
  by pat_completeness auto
termination by (relation "measure (\<lambda>(_, regp, _, _). unat regp)") (auto dest: byte_pred_less)

definition ins_loadma :: "instruction_context \<Rightarrow> emulator_context \<Rightarrow> stop + emulator_context" where
  "ins_loadma ins ectx =
     (let immr = (ucast (imm16 ins AND 0x00FF) :: byte);
          regstart = drop_bit 4 immr;
          regend = immr AND 0xF in
      ubind (get_reg (dst ins) ectx) (\<lambda>sp.
      ubind (loadma_loop regstart regend sp ectx) (\<lambda>(success, temp, ectx).
      set_reg (dst ins) (if success then temp else sp) ectx)))"

lemma byte_succ_less: "p \<le> b AND 0xF \<Longrightarrow> unat (p + 1) = unat p + 1 \<and> unat p < 16" for p b :: byte
proof -
  assume "p \<le> b AND 0xF"
  then have "p < 16" using and_mask_bounds(1)[of b] by (rule le_less_trans)
  then show ?thesis by (simp add: word_less_nat_alt unat_word_ariths)
qed

text \<open>The loop of \<open>ins_storema\<close>; \<open>regend\<close> is the low nibble of \<open>immr\<close>, so \<open>regp\<close> cannot wrap around.\<close>

function storema_loop ::
  "byte \<Rightarrow> byte \<Rightarrow> dword \<Rightarrow> emulator_context \<Rightarrow> stop + (bool \<times> dword \<times> emulator_context)" where
  "storema_loop immr regp temp ectx =
     (let regend = immr AND 0xF in
      if regp \<le> regend then
        ubind (get_reg regp ectx) (\<lambda>val.
        ubind (cpu_push_dword temp val ectx) (\<lambda>(success, temp, ectx).
        if \<not> success then Inr (False, temp, ectx)
        else storema_loop immr (regp + 1) temp ectx))
      else Inr (True, temp, ectx))"
  by pat_completeness auto
termination by (relation "measure (\<lambda>(_, regp, _, _). 256 - unat regp)") (auto dest: byte_succ_less)

definition ins_storema :: "instruction_context \<Rightarrow> emulator_context \<Rightarrow> stop + emulator_context" where
  "ins_storema ins ectx =
     (let immr = (ucast (imm16 ins AND 0x00FF) :: byte);
          regstart = drop_bit 4 immr in
      ubind (get_reg (dst ins) ectx) (\<lambda>sp.
      ubind (storema_loop immr regstart sp ectx) (\<lambda>(success, temp, ectx).
      set_reg (dst ins) (if success then temp else sp) ectx)))"

declare loadma_loop.simps [simp del] storema_loop.simps [simp del]

text \<open>The reads of the memory report success whenever they return.\<close>

lemma mem_get_success:
  "ubind (mem_get_dword_p a s) (\<lambda>(ok, v). if \<not> ok then m else f v) = ubind (mem_get_dword_p a s) (\<lambda>(_, v). f v)"
  "ubind (mem_get_word_p a s) (\<lambda>(ok, w). if \<not> ok then m else g w) = ubind (mem_get_word_p a s) (\<lambda>(_, w). g w)"
  "ubind (mem_get_byte_p a s) (\<lambda>(ok, b). if \<not> ok then m else h b) = ubind (mem_get_byte_p a s) (\<lambda>(_, b). h b)"
  by (simp_all add: mem_get_dword_p_def mem_get_word_p_def mem_get_byte_p_def ubind_assoc)

section \<open>An interface of displaced accesses\<close>

text \<open>
  A load to or a store from register \<open>r\<close> at the width the prefix \<open>p\<close> names, the number of
  bytes it touches, and the register's value at that width.
\<close>

definition width :: "byte \<Rightarrow> nat" where
  "width p = (if p = PREFIX_DWORD then 4 else if p = PREFIX_WORD then 2 else 1)"

definition load_at :: "byte \<Rightarrow> byte \<Rightarrow> dword \<Rightarrow> emulator_context \<Rightarrow> stop + emulator_context" where
  "load_at p r addr s =
     (if p = PREFIX_DWORD then ubind (mem_get_dword_p addr s) (\<lambda>(_, v). set_reg r v s)
      else if p = PREFIX_WORD then ubind (mem_get_word_p addr s) (\<lambda>(_, v). cpu_set_word_reg r v s)
      else if p = PREFIX_BYTE then ubind (mem_get_byte_p addr s) (\<lambda>(_, v). cpu_set_byte_reg r v s)
      else Inr s)"

definition store_at :: "byte \<Rightarrow> byte \<Rightarrow> dword \<Rightarrow> emulator_context \<Rightarrow> stop + emulator_context" where
  "store_at p r addr s =
     (if p = PREFIX_DWORD then
        ubind (get_reg r s) (\<lambda>v. ubind (mem_write_dword_p v addr s) (\<lambda>(_, s). Inr s))
      else if p = PREFIX_WORD then
        ubind (cpu_get_word_reg r s) (\<lambda>v. ubind (mem_write_word_p v addr s) (\<lambda>(_, s). Inr s))
      else if p = PREFIX_BYTE then
        ubind (cpu_get_byte_reg r s) (\<lambda>v. ubind (mem_write_byte_p v addr s) (\<lambda>(_, s). Inr s))
      else Inr s)"

definition reg_at :: "byte \<Rightarrow> byte \<Rightarrow> emulator_context \<Rightarrow> dword" where
  "reg_at p r s =
     (if p = PREFIX_DWORD then reg_of s r
      else if p = PREFIX_WORD then ucast (word_reg s r) else ucast (byte_reg s r))"

definition mem_val :: "byte \<Rightarrow> dword \<Rightarrow> emulator_context \<Rightarrow> dword" where
  "mem_val p a s =
     (if p = PREFIX_DWORD then dword_at s a
      else if p = PREFIX_WORD then ucast (word_at s a) else ucast (mem_at s a))"

lemma fits_memory_context: "memory_context t = memory_context s \<Longrightarrow> fits n a t = fits n a s"
  by (simp add: fits_def)

lemma mem_val_memory_context: "memory_context t = memory_context s \<Longrightarrow> mem_val p a t = mem_val p a s"
  by (simp add: mem_val_def dword_at_def word_at_def mem_at_def)

lemma width_prefix:
  assumes "p < 4" "p \<noteq> PREFIX_IMM"
  obtains "p = PREFIX_DWORD" | "p = PREFIX_WORD" | "p = PREFIX_BYTE"
proof -
  have "unat p < 4" "unat p \<noteq> 3" using assms by (auto simp: word_less_nat_alt word_unat_eq_iff)
  then have "unat p \<in> {0, 1, 2}" by auto
  then show thesis using that by (auto simp: word_unat_eq_iff)
qed

lemma small_reg: "r < 16 \<Longrightarrow> r < 32" "r < 16 \<Longrightarrow> r < 64" for r :: byte
  by (erule less_le_trans, simp)+

lemma load_at_effect:
  assumes "wf s" "r < 16" "p < 4" "p \<noteq> PREFIX_IMM" "fits (width p) a s"
  shows "\<exists>s'. load_at p r a s = Inr s' \<and> wf s' \<and> reg_at p r s' = mem_val p a s \<and>
           memory_context s' = memory_context s \<and> get_pos s' = get_pos s \<and> creg_of s' = creg_of s"
  using assms(3,4)
proof (cases rule: width_prefix)
  case 1
  then show ?thesis using assms
    by (simp add: load_at_def width_def mem_get_dword_p_norm set_reg_norm reg_at_def mem_val_def
        ectx_simps fun_eq_iff)
next
  case 2
  then show ?thesis using assms small_reg
    by (simp add: load_at_def width_def mem_get_word_p_norm cpu_set_word_reg_norm reg_at_def mem_val_def
        word_reg_upd) (simp add: upd_word_reg_def ectx_simps fun_eq_iff)
next
  case 3
  then show ?thesis using assms small_reg
    by (simp add: load_at_def width_def mem_get_byte_p_norm cpu_set_byte_reg_norm reg_at_def mem_val_def
        byte_reg_upd) (simp add: upd_byte_reg_def ectx_simps fun_eq_iff)
qed

lemma store_at_effect:
  assumes "wf s" "r < 16" "p < 4" "p \<noteq> PREFIX_IMM" "fits (width p) a s"
  shows "\<exists>s'. store_at p r a s = Inr s' \<and> wf s' \<and> mem_val p a s' = reg_at p r s \<and>
           cpu_context s' = cpu_context s \<and> statistic_context s' = statistic_context s \<and>
           msize s' = msize s \<and> (\<forall>b. apart (width p) a 1 b \<longrightarrow> mem_at s' b = mem_at s b)"
  using assms(3,4)
proof (cases rule: width_prefix)
  case 1
  then show ?thesis using assms
    by (simp add: store_at_def width_def mem_write_dword_p_norm get_reg_norm reg_at_def mem_val_def
        mem_at_put_dword_apart)
next
  case 2
  then show ?thesis using assms small_reg
    by (simp add: store_at_def width_def mem_write_word_p_norm cpu_get_word_reg_norm reg_at_def
        mem_val_def mem_at_put_word_apart)
next
  case 3
  then show ?thesis using assms small_reg
    by (auto simp add: store_at_def width_def mem_write_byte_p_norm cpu_get_byte_reg_norm reg_at_def
        mem_val_def mem_at_upd_mem apart_def)
qed

text \<open>
  A pair of instructions that load from and store to an effective address, an integer that each
  computes from its registers: the access takes place where the address is one of 32 bits, and the
  instruction is void where it is not.
\<close>

locale displaced =
  fixes ld st :: "instruction_context \<Rightarrow> emulator_context \<Rightarrow> stop + emulator_context"
    and ea_ld ea_st :: "instruction_context \<Rightarrow> emulator_context \<Rightarrow> int"
  assumes ld_eq: "wf s \<Longrightarrow> wf_ins i \<Longrightarrow> ld i s =
      (if 0 \<le> ea_ld i s \<and> ea_ld i s < 2 ^ 32
       then load_at (prefix i) (dst i) (of_int (ea_ld i s)) s else Inr s)"
    and st_eq: "wf s \<Longrightarrow> wf_ins i \<Longrightarrow> st i s =
      (if 0 \<le> ea_st i s \<and> ea_st i s < 2 ^ 32
       then store_at (prefix i) (opa i) (of_int (ea_st i s)) s else Inr s)"
begin

lemma uint_ea: "0 \<le> k \<Longrightarrow> k < 2 ^ 32 \<Longrightarrow> uint (of_int k :: dword) = k"
  by (simp add: unsigned_of_int take_bit_int_eq_self)

text \<open>An address outside 32 bits makes both instructions void.\<close>

lemma void:
  assumes "wf s" "wf_ins i"
  shows "\<not> (0 \<le> ea_ld i s \<and> ea_ld i s < 2 ^ 32) \<Longrightarrow> ld i s = Inr s"
    "\<not> (0 \<le> ea_st i s \<and> ea_st i s < 2 ^ 32) \<Longrightarrow> st i s = Inr s"
  using ld_eq[OF assms] st_eq[OF assms] by auto

lemma fits_ea:
  assumes "0 \<le> k" "k + int n \<le> uint (msize s)" "0 < n"
  shows "fits n (of_int k) s" "k < 2 ^ 32"
proof -
  have "uint (msize s) < 2 ^ 32" using uint_bounded[of "msize s"] by simp
  then show k: "k < 2 ^ 32" using assms by linarith
  have "int (unat (of_int k :: dword) + n) \<le> int (unat (msize s))"
    using uint_ea[OF assms(1) k] assms(2) by simp
  then show "fits n (of_int k) s" unfolding of_nat_le_iff by (simp add: fits_def msize_def)
qed

text \<open>
  A store in range changes the addressed bytes only, and any later load of the same width from the
  same address, in a state with that memory, brings the stored value back.
\<close>

lemma store_then_load:
  assumes "wf s" "wf_ins i" "prefix i \<noteq> PREFIX_IMM"
    and "0 \<le> ea_st i s" "ea_st i s + int (width (prefix i)) \<le> uint (msize s)"
  shows "\<exists>s1. st i s = Inr s1 \<and> cpu_context s1 = cpu_context s \<and>
      (\<forall>b. apart (width (prefix i)) (of_int (ea_st i s)) 1 b \<longrightarrow> mem_at s1 b = mem_at s b) \<and>
      (\<forall>j t. wf t \<and> wf_ins j \<and> memory_context t = memory_context s1 \<and> prefix j = prefix i \<and>
         ea_ld j t = ea_st i s \<longrightarrow>
         (\<exists>t'. ld j t = Inr t' \<and> reg_at (prefix j) (dst j) t' = reg_at (prefix i) (opa i) s))"
proof -
  have p: "prefix i < 4" "0 < width (prefix i)" using assms(2) by (simp_all add: wf_ins_def width_def)
  note fit = fits_ea[OF assms(4,5) p(2)]
  obtain s1 where s1: "st i s = Inr s1" "mem_val (prefix i) (of_int (ea_st i s)) s1 = reg_at (prefix i) (opa i) s"
    "cpu_context s1 = cpu_context s" "msize s1 = msize s"
    "\<forall>b. apart (width (prefix i)) (of_int (ea_st i s)) 1 b \<longrightarrow> mem_at s1 b = mem_at s b"
    using store_at_effect[OF assms(1) wf_ins_less(1)[OF assms(2)] p(1) assms(3) fit(1)]
      st_eq[OF assms(1,2)] assms(4) fit(2) by auto
  have fit1: "fits (width (prefix i)) (of_int (ea_st i s)) s1"
    using fit(1) s1(4) by (simp add: fits_def msize_def)
  have ld: "\<exists>t'. ld j t = Inr t' \<and> reg_at (prefix j) (dst j) t' = reg_at (prefix i) (opa i) s"
    if t: "wf t" "wf_ins j" "memory_context t = memory_context s1" "prefix j = prefix i"
       "ea_ld j t = ea_st i s" for j t
  proof -
    have "fits (width (prefix i)) (of_int (ea_st i s)) t"
      using fit1 fits_memory_context[OF t(3)] by simp
    from load_at_effect[OF t(1) wf_ins_less(3)[OF t(2)] p(1) assms(3) this]
    obtain t' where "load_at (prefix i) (dst j) (of_int (ea_st i s)) t = Inr t'"
      "reg_at (prefix i) (dst j) t' = mem_val (prefix i) (of_int (ea_st i s)) t" by blast
    then show ?thesis
      using ld_eq[OF t(1,2)] t(4,5) fit(2) assms(4) s1(2) mem_val_memory_context[OF t(3)] by auto
  qed
  then show ?thesis using s1 by blast
qed

end

text \<open>The pair with an immediate displacement and the pair with a register displacement.\<close>

lemma imm_guard:
  "(ucast (a :: dword) :: qword) + ucast (d :: word16) > DWORD_MAX \<longleftrightarrow> \<not> uint a + uint d < 2 ^ 32"
  "a + ucast d = of_int (uint a + uint d)" "0 \<le> uint a + uint d"
proof -
  show "0 \<le> uint a + uint d" by simp
  have "unat d < 65536" using unsigned_less[of d] by simp
  then have "unat ((ucast a :: qword) + ucast d) = unat a + unat d"
    using unat_dword_less[of a] by (simp add: unat_word_ariths unsigned_ucast_eq take_bit_nat_eq_self)
  then have "uint ((ucast a :: qword) + ucast d) = uint a + uint d"
    by (drule_tac arg_cong[of _ _ int]) simp
  then show "(ucast a :: qword) + ucast d > DWORD_MAX \<longleftrightarrow> \<not> uint a + uint d < 2 ^ 32"
    by (simp add: word_less_def) linarith
  show "a + ucast d = of_int (uint a + uint d)" by simp
qed

lemma if_not: "(if \<not> b then x else y) = (if b then y else x)"
  by simp

interpretation imm: displaced ins_loadid ins_storeid
  "\<lambda>i s. uint (reg_of s (opa i)) + uint (imm12 i)" "\<lambda>i s. uint (reg_of s (dst i)) + uint (imm12 i)"
proof
  fix s i assume s: "wf s" "wf_ins i"
  show "ins_loadid i s =
      (if 0 \<le> uint (reg_of s (opa i)) + uint (imm12 i) \<and> uint (reg_of s (opa i)) + uint (imm12 i) < 2 ^ 32
       then load_at (prefix i) (dst i) (of_int (uint (reg_of s (opa i)) + uint (imm12 i))) s else Inr s)"
    unfolding ins_loadid_def get_reg_norm[OF s(1) wf_ins_less(1)[OF s(2)]] ubind.simps imm_guard load_at_def
      mem_get_success
    by (simp only: imm_guard(3) if_not simp_thms)
  show "ins_storeid i s =
      (if 0 \<le> uint (reg_of s (dst i)) + uint (imm12 i) \<and> uint (reg_of s (dst i)) + uint (imm12 i) < 2 ^ 32
       then store_at (prefix i) (opa i) (of_int (uint (reg_of s (dst i)) + uint (imm12 i))) s else Inr s)"
    unfolding ins_storeid_def get_reg_norm[OF s(1) wf_ins_less(3)[OF s(2)]] ubind.simps imm_guard store_at_def
    by (simp only: imm_guard(3) if_not simp_thms) simp
qed

interpretation rd: displaced ins_loadrd ins_storerd
  "\<lambda>i s. uint (reg_of s (opa i)) + sint (reg_of s (opb i))"
  "\<lambda>i s. uint (reg_of s (dst i)) + sint (reg_of s (opb i))"
proof
  fix s i assume s: "wf s" "wf_ins i"
  have guard: "(k > 0xFFFFFFFF \<or> k < 0) \<longleftrightarrow> \<not> (0 \<le> k \<and> k < 2 ^ 32)" for k :: int by auto
  have sum: "a + UNSIGNED32 (SIGNED32 b) = of_int (uint a + sint b)" for a b
    by (simp add: UNSIGNED32_def SIGNED32_def)
  show "ins_loadrd i s =
      (if 0 \<le> uint (reg_of s (opa i)) + sint (reg_of s (opb i)) \<and>
          uint (reg_of s (opa i)) + sint (reg_of s (opb i)) < 2 ^ 32
       then load_at (prefix i) (dst i) (of_int (uint (reg_of s (opa i)) + sint (reg_of s (opb i)))) s
       else Inr s)"
    unfolding ins_loadrd_def load_at_def get_reg_norm[OF s(1) wf_ins_less(1)[OF s(2)]]
      get_reg_norm[OF s(1) wf_ins_less(2)[OF s(2)]] ubind.simps Let_def sum mem_get_success
    unfolding SIGNED32_def guard by (simp only: if_not)
  show "ins_storerd i s =
      (if 0 \<le> uint (reg_of s (dst i)) + sint (reg_of s (opb i)) \<and>
          uint (reg_of s (dst i)) + sint (reg_of s (opb i)) < 2 ^ 32
       then store_at (prefix i) (opa i) (of_int (uint (reg_of s (dst i)) + sint (reg_of s (opb i)))) s
       else Inr s)"
    unfolding ins_storerd_def store_at_def get_reg_norm[OF s(1) wf_ins_less(3)[OF s(2)]]
      get_reg_norm[OF s(1) wf_ins_less(2)[OF s(2)]] ubind.simps Let_def sum
    unfolding SIGNED32_def guard by (simp only: if_not) simp?
qed

text \<open>A store with an immediate displacement may be followed by a load with a register displacement.\<close>

interpretation imm_rd: displaced ins_loadrd ins_storeid
  "\<lambda>i s. uint (reg_of s (opa i)) + sint (reg_of s (opb i))"
  "\<lambda>i s. uint (reg_of s (dst i)) + uint (imm12 i)"
  by unfold_locales (simp_all only: rd.ld_eq imm.st_eq)

section \<open>Runs of registers\<close>

text \<open>The effect of the two loops: a run of dwords pushed downwards, and a run popped upwards.\<close>

fun push_list :: "dword list \<Rightarrow> dword \<Rightarrow> emulator_context \<Rightarrow> emulator_context" where
  "push_list [] p s = s"
| "push_list (v # vs) p s = push_list vs (p - 4) (put_dword v p s)"

fun pop_into :: "byte list \<Rightarrow> dword \<Rightarrow> emulator_context \<Rightarrow> emulator_context" where
  "pop_into [] p s = s"
| "pop_into (r # rs) p s = pop_into rs (p + 4) (upd_reg r (dword_at s (p + 4)) s)"

definition reg_range :: "byte \<Rightarrow> byte \<Rightarrow> byte list" where
  "reg_range lo hi = map of_nat [unat lo ..< Suc (unat hi)]"

text \<open>Room for \<open>n\<close> dwords at \<open>p\<close> and downwards, and for reading them back from \<open>q\<close> upwards.\<close>

definition stack_ok :: "nat \<Rightarrow> dword \<Rightarrow> emulator_context \<Rightarrow> bool" where
  "stack_ok n p s \<longleftrightarrow> n = 0 \<or> 4 * n \<le> unat p + 4 \<and> fits 4 p s"

lemma reg_range_Nil: "\<not> lo \<le> hi \<Longrightarrow> reg_range lo hi = []"
  by (simp add: reg_range_def word_le_nat_alt)

lemma reg_range_Cons:
  assumes "lo \<le> hi" "hi < 16"
  shows "reg_range lo hi = lo # reg_range (lo + 1) hi"
proof -
  have "unat lo \<le> unat hi" "unat hi < 16" using assms by (simp_all add: word_le_nat_alt word_less_nat_alt)
  moreover from this have "unat (lo + 1) = Suc (unat lo)" by (simp add: unat_word_ariths)
  ultimately show ?thesis by (simp add: reg_range_def upt_rec del: upt_Suc)
qed

lemma reg_range_snoc:
  assumes "lo \<le> hi" "lo \<noteq> hi"
  shows "reg_range lo hi = reg_range lo (hi - 1) @ [hi]"
  using byte_pred_less[of lo hi] assms by (simp add: reg_range_def word_le_nat_alt)

lemma reg_range_single: "reg_range r r = [r]"
  by (simp add: reg_range_def)

lemma reg_range_props:
  assumes "hi < 16"
  shows "set (reg_range lo hi) = {r. lo \<le> r \<and> r \<le> hi}" "distinct (reg_range lo hi)"
    "length (reg_range lo hi) = Suc (unat hi) - unat lo"
proof -
  have hi: "unat hi < 16" using assms by (simp add: word_less_nat_alt)
  have inv: "unat (of_nat n :: byte) = n" if "n \<le> unat hi" for n
    using that hi by (simp add: unsigned_of_nat take_bit_nat_eq_self)
  show "set (reg_range lo hi) = {r. lo \<le> r \<and> r \<le> hi}"
  proof (intro set_eqI iffI)
    fix r assume "r \<in> set (reg_range lo hi)"
    then show "r \<in> {r. lo \<le> r \<and> r \<le> hi}"
      using inv by (auto simp: reg_range_def word_le_nat_alt less_Suc_eq_le)
  next
    fix r assume "r \<in> {r. lo \<le> r \<and> r \<le> hi}"
    then show "r \<in> set (reg_range lo hi)"
      by (auto simp: reg_range_def word_le_nat_alt image_iff simp del: upt_Suc intro!: bexI[of _ "unat r"])
  qed
  show "distinct (reg_range lo hi)"
    unfolding reg_range_def distinct_map
  proof (intro conjI distinct_upt inj_onI)
    fix m n assume "m \<in> set [unat lo ..< Suc (unat hi)]" "n \<in> set [unat lo ..< Suc (unat hi)]"
    then have "m \<le> unat hi" "n \<le> unat hi" by (simp_all del: upt_Suc)
    then show "(of_nat m :: byte) = of_nat n \<Longrightarrow> m = n" by (metis inv)
  qed
  show "length (reg_range lo hi) = Suc (unat hi) - unat lo"
    by (simp add: reg_range_def del: upt_Suc)
qed

lemma stack_ok_Suc:
  assumes "stack_ok (Suc n) p s"
  shows "fits 4 p s" "stack_ok n (p - 4) s"
proof -
  show fit: "fits 4 p s" using assms by (simp add: stack_ok_def)
  show "stack_ok n (p - 4) s"
  proof (cases n)
    case (Suc m)
    then have "unat (p - 4) = unat p - 4"
      using assms by (simp add: stack_ok_def unat_sub word_le_nat_alt)
    then show ?thesis using assms Suc fit by (auto simp: stack_ok_def fits_def)
  qed (simp add: stack_ok_def)
qed

lemma stack_ok_put [simp]: "stack_ok n p (put_dword v a s) = stack_ok n p s"
  by (simp add: stack_ok_def)

lemma stack_ok_nth:
  assumes "stack_ok n p s" "k < n"
  shows "fits 4 (p - 4 * of_nat k) s" "unat (p - 4 * of_nat k) = unat p - 4 * k"
proof -
  have "4 * k \<le> unat p" "unat (4 * of_nat k :: dword) = 4 * k"
    using assms unat_dword_less[of p]
    by (auto simp: stack_ok_def unat_word_ariths unsigned_of_nat take_bit_nat_eq_self)
  then show "unat (p - 4 * of_nat k) = unat p - 4 * k"
    by (simp add: unat_sub word_le_nat_alt)
  then show "fits 4 (p - 4 * of_nat k) s"
    using assms by (auto simp: stack_ok_def fits_def)
qed

lemma push_list_frame [simp]:
  "cpu_context (push_list vs p s) = cpu_context s" "wf (push_list vs p s) = wf s"
  "reg_of (push_list vs p s) = reg_of s" "creg_of (push_list vs p s) = creg_of s"
  "statistic_context (push_list vs p s) = statistic_context s" "get_pos (push_list vs p s) = get_pos s"
  "msize (push_list vs p s) = msize s" "fits n a (push_list vs p s) = fits n a s"
  by (induction vs p s rule: push_list.induct) simp_all

lemma push_list_above:
  assumes "stack_ok (length vs) p s" "fits 4 a s" "vs \<noteq> [] \<Longrightarrow> unat p + 4 \<le> unat a"
  shows "dword_at (push_list vs p s) a = dword_at s a"
  using assms
proof (induction vs p s rule: push_list.induct)
  case (2 v vs p s)
  have p: "fits 4 p s" "stack_ok (length vs) (p - 4) s"
    using stack_ok_Suc[of "length vs" p s] "2.prems"(1) by simp_all
  have "unat (p - 4) + 4 \<le> unat a" if "vs \<noteq> []"
    using stack_ok_nth(2)[of _ p s 1] "2.prems" that by (cases vs) auto
  then have "dword_at (push_list vs (p - 4) (put_dword v p s)) a = dword_at (put_dword v p s) a"
    using p "2.prems"(2) by (intro "2.IH") auto
  also have "\<dots> = dword_at s a"
    using p(1) "2.prems" by (intro dword_at_put_dword_apart) (auto simp: apart_def)
  finally show ?case by simp
qed simp

text \<open>Dword \<open>k\<close> of a run that was pushed lies \<open>4k\<close> bytes below its start.\<close>

lemma push_list_nth:
  assumes "stack_ok (length vs) p s" "k < length vs"
  shows "dword_at (push_list vs p s) (p - 4 * of_nat k) = vs ! k"
  using assms
proof (induction vs p s arbitrary: k rule: push_list.induct)
  case (2 v vs p s)
  have p: "fits 4 p s" "stack_ok (length vs) (p - 4) s"
    using stack_ok_Suc[of "length vs" p s] "2.prems"(1) by simp_all
  show ?case
  proof (cases k)
    case 0
    have "unat (p - 4) + 4 \<le> unat p" if "vs \<noteq> []"
      using stack_ok_nth(2)[OF "2.prems"(1), of 1] "2.prems"(1) that
      by (cases vs) (auto simp: stack_ok_def)
    then have "dword_at (push_list vs (p - 4) (put_dword v p s)) p = dword_at (put_dword v p s) p"
      using p by (intro push_list_above) auto
    then show ?thesis using 0 by simp
  next
    case (Suc j)
    then have "dword_at (push_list vs (p - 4) (put_dword v p s)) (p - 4 - 4 * of_nat j) = vs ! j"
      using p "2.prems"(2) by (intro "2.IH") auto
    then show ?thesis using Suc by (simp add: algebra_simps)
  qed
qed simp

lemma pop_into_frame [simp]:
  "wf (pop_into rs p s) = wf s" "memory_context (pop_into rs p s) = memory_context s"
  "statistic_context (pop_into rs p s) = statistic_context s" "get_pos (pop_into rs p s) = get_pos s"
  "creg_of (pop_into rs p s) = creg_of s"
  by (induction rs p s rule: pop_into.induct) (simp_all add: ectx_simps fun_eq_iff)

lemma reg_of_pop_into_other:
  "wf s \<Longrightarrow> \<forall>r \<in> set rs. r < 16 \<Longrightarrow> r \<notin> set rs \<Longrightarrow> reg_of (pop_into rs p s) r = reg_of s r"
  by (induction rs p s rule: pop_into.induct) (simp_all add: ectx_simps)

lemma reg_of_pop_into:
  assumes "wf s" "distinct rs" "\<forall>r \<in> set rs. r < 16" "k < length rs"
  shows "reg_of (pop_into rs p s) (rs ! k) = dword_at s (p + 4 * of_nat (Suc k))"
  using assms
proof (induction rs p s arbitrary: k rule: pop_into.induct)
  case (2 q rs p s)
  show ?case
  proof (cases k)
    case 0
    then show ?thesis using "2.prems" by (simp add: reg_of_pop_into_other ectx_simps)
  next
    case (Suc j)
    then show ?thesis using "2.IH"[of j] "2.prems" by (simp add: ectx_simps algebra_simps)
  qed
qed simp

text \<open>The loops compute these runs where the accesses are in range.\<close>

lemma storema_loop_norm:
  assumes "wf s" "rs = reg_range p (b AND 0xF)" "\<forall>k < length rs. fits 4 (q - 4 * of_nat k) s"
  shows "storema_loop b p q s =
    Inr (True, q - 4 * of_nat (length rs), push_list (map (reg_of s) rs) q s)"
  using assms
proof (induction b p q s arbitrary: rs rule: storema_loop.induct)
  case (1 b p q s)
  show ?case
  proof (cases "p \<le> b AND 0xF")
    case True
    have p: "p < 16" using True and_mask_bounds(1)[of b] by (rule le_less_trans)
    have rs: "rs = p # reg_range (p + 1) (b AND 0xF)"
      using "1.prems"(2) reg_range_Cons[OF True and_mask_bounds(1)] by simp
    have push: "cpu_push_dword q (reg_of s p) s = Inr (True, q - 4, put_dword (reg_of s p) q s)"
    proof -
      have "0 < length rs" unfolding rs by simp
      from "1.prems"(3)[rule_format, OF this] have "fits 4 q s" by simp
      then show ?thesis by (simp add: cpu_push_dword_def mem_write_dword_p_norm)
    qed
    have "\<forall>k < length (reg_range (p + 1) (b AND 0xF)). fits 4 (q - 4 - 4 * of_nat k) s"
    proof (intro allI impI)
      fix k assume "k < length (reg_range (p + 1) (b AND 0xF))"
      then have "Suc k < length rs" unfolding rs by simp
      from "1.prems"(3)[rule_format, OF this] have "fits 4 (q - 4 * of_nat (Suc k)) s" .
      then show "fits 4 (q - 4 - 4 * of_nat k) s" by (simp add: algebra_simps)
    qed
    then have "storema_loop b (p + 1) (q - 4) (put_dword (reg_of s p) q s) =
        Inr (True, q - 4 - 4 * of_nat (length (reg_range (p + 1) (b AND 0xF))),
          push_list (map (reg_of s) (reg_range (p + 1) (b AND 0xF))) (q - 4) (put_dword (reg_of s p) q s))"
      using "1.IH"[OF refl True get_reg_norm[OF "1.prems"(1) p] push refl refl _ _ refl] "1.prems"(1)
      by simp
    then show ?thesis
      using True p "1.prems"(1) push
      by (subst storema_loop.simps) (simp add: get_reg_norm rs algebra_simps)
  next
    case False
    then show ?thesis
      using "1.prems"(2) by (subst storema_loop.simps) (simp add: reg_range_Nil)
  qed
qed

lemma fits_dword_upd_reg [simp]: "dword_at (upd_reg r v s) a = dword_at s a"
  by (simp add: dword_at_upd)

lemma loadma_loop_norm:
  assumes "wf s" "rs = rev (reg_range lo p)" "p < 16"
    "\<forall>k < length rs. fits 4 (q + 4 * of_nat (Suc k)) s"
  shows "loadma_loop lo p q s = Inr (True, q + 4 * of_nat (length rs), pop_into rs q s)"
  using assms
proof (induction lo p q s arbitrary: rs rule: loadma_loop.induct)
  case (1 lo p q s)
  show ?case
  proof (cases "lo \<le> p")
    case False
    then show ?thesis using "1.prems"(2) by (subst loadma_loop.simps) (simp add: reg_range_Nil)
  next
    case lo: True
    have ne: "0 < length rs" using lo "1.prems"(2,3) by (simp add: reg_range_props word_le_nat_alt)
    from "1.prems"(4)[rule_format, OF this] have fit: "fits 4 (q + 4) s" by simp
    have pop: "cpu_pop_dword q s = Inr (True, q + 4, dword_at s (q + 4))"
      using fit by (simp add: cpu_pop_dword_def mem_get_dword_p_norm Let_def)
    have set: "set_reg p (dword_at s (q + 4)) s = Inr (upd_reg p (dword_at s (q + 4)) s)"
      using "1.prems"(1,3) by (rule set_reg_norm)
    show ?thesis
    proof (cases "p = lo")
      case True
      then show ?thesis
        using "1.prems"(2) pop set by (subst loadma_loop.simps) (simp add: reg_range_single)
    next
      case False
      let ?rs = "rev (reg_range lo (p - 1))"
      have rs: "rs = p # ?rs" using "1.prems"(2) reg_range_snoc[of lo p] lo False by simp
      have less: "p - 1 < 16"
        using byte_pred_less[of lo p] lo False "1.prems"(3) by (simp add: word_less_nat_alt)
      have "\<forall>k < length ?rs. fits 4 (q + 4 + 4 * of_nat (Suc k)) s"
      proof (intro allI impI)
        fix k assume "k < length ?rs"
        then have "Suc k < length rs" by (subst rs) simp
        from "1.prems"(4)[rule_format, OF this] have "fits 4 (q + 4 * of_nat (Suc (Suc k))) s" .
        then show "fits 4 (q + 4 + 4 * of_nat (Suc k)) s" by (simp add: algebra_simps)
      qed
      then have "loadma_loop lo (p - 1) (q + 4) (upd_reg p (dword_at s (q + 4)) s) =
          Inr (True, q + 4 + 4 * of_nat (length ?rs), pop_into ?rs (q + 4) (upd_reg p (dword_at s (q + 4)) s))"
        using "1.IH"[OF lo pop refl refl _ set False _ refl less] "1.prems"(1) by simp
      then show ?thesis
        using lo False pop set by (subst loadma_loop.simps) (simp add: rs algebra_simps)
    qed
  qed
qed

text \<open>The registers that the immediate of \<open>STOREMA\<close> and \<open>LOADMA\<close> names.\<close>

definition ma_regs :: "instruction_context \<Rightarrow> byte list" where
  "ma_regs i = reg_range (drop_bit 4 (ucast (imm16 i))) (ucast (imm16 i) AND 0xF)"

lemma ucast_and_byte: "(ucast (w AND 0x00FF :: word16) :: byte) = ucast w"
  by (rule bit_word_eqI) (auto simp: mask_8 bit_simps)

lemma ma_regs_props: "distinct (ma_regs i)" "\<forall>r \<in> set (ma_regs i). r < 16" "length (ma_regs i) \<le> 16"
proof -
  let ?hi = "(ucast (imm16 i) :: byte) AND 0xF"
  have hi: "?hi < 16" by (rule and_mask_bounds)
  then have "unat ?hi < 16" by (simp add: word_less_nat_alt)
  then show "distinct (ma_regs i)" "\<forall>r \<in> set (ma_regs i). r < 16" "length (ma_regs i) \<le> 16"
    using reg_range_props[OF hi] le_less_trans[OF _ hi] by (auto simp: ma_regs_def)
qed

lemma ins_storema_norm [norm_simps]:
  assumes "wf s" "wf_ins i" "stack_ok (length (ma_regs i)) (reg_of s (dst i)) s"
  shows "ins_storema i s =
    Inr (upd_reg (dst i) (reg_of s (dst i) - 4 * of_nat (length (ma_regs i)))
      (push_list (map (reg_of s) (ma_regs i)) (reg_of s (dst i)) s))"
proof -
  have "\<forall>k < length (ma_regs i). fits 4 (reg_of s (dst i) - 4 * of_nat k) s"
    using stack_ok_nth(1)[OF assms(3)] by blast
  then show ?thesis
    using storema_loop_norm[OF assms(1) ma_regs_def] assms(1,2)
    by (simp add: ins_storema_def ucast_and_byte get_reg_norm set_reg_norm wf_ins_less Let_def)
qed

lemma ins_loadma_norm [norm_simps]:
  assumes "wf s" "wf_ins i"
    "\<forall>k < length (ma_regs i). fits 4 (reg_of s (dst i) + 4 * of_nat (Suc k)) s"
  shows "ins_loadma i s =
    Inr (upd_reg (dst i) (reg_of s (dst i) + 4 * of_nat (length (ma_regs i)))
      (pop_into (rev (ma_regs i)) (reg_of s (dst i)) s))"
proof -
  let ?hi = "(ucast (imm16 i) :: byte) AND 0xF"
  have hi: "?hi < 16" by (rule and_mask_bounds)
  have "rev (ma_regs i) = rev (reg_range (drop_bit 4 (ucast (imm16 i))) ?hi)" by (simp add: ma_regs_def)
  from loadma_loop_norm[OF assms(1) this hi] show ?thesis
    using assms
    by (simp add: ins_loadma_def ucast_and_byte get_reg_norm set_reg_norm wf_ins_less Let_def)
qed

text \<open>
  A \<open>LOADMA\<close> over dwords that lie downwards from \<open>p\<close> loads them into the registers of its range.
\<close>

lemma loadma_restores:
  assumes "wf t" "wf_ins j" and n: "n = length (ma_regs j)" and base: "reg_of t (dst j) = p - 4 * of_nat n"
    and fit: "\<forall>k < n. fits 4 (p - 4 * of_nat k) t"
    and val: "\<forall>k < n. dword_at t (p - 4 * of_nat k) = v (ma_regs j ! k)"
  shows "\<exists>t'. ins_loadma j t = Inr t' \<and> memory_context t' = memory_context t \<and> reg_of t' (dst j) = p \<and>
    (\<forall>r. r \<noteq> dst j \<longrightarrow> reg_of t' r = (if r \<in> set (ma_regs j) then v r else reg_of t r))"
proof -
  let ?rs = "rev (ma_regs j)" and ?q = "p - 4 * of_nat n"
  let ?t' = "upd_reg (dst j) p (pop_into ?rs ?q t)"
  have up: "?q + 4 * of_nat (Suc k) = p - 4 * of_nat (n - Suc k)" if "k < n" for k
    using that by (simp add: of_nat_diff algebra_simps)
  have "fits 4 (?q + 4 * of_nat (Suc k)) t" if "k < n" for k
    unfolding up[OF that] by (rule fit[rule_format]) (use that in simp)
  then have t': "ins_loadma j t = Inr ?t'"
    using ins_loadma_norm[OF assms(1,2)] base n by simp
  have rs: "distinct ?rs" "\<forall>r \<in> set ?rs. r < 16" using ma_regs_props[of j] by simp_all
  have "reg_of (pop_into ?rs ?q t) r = v r" if r: "r \<in> set (ma_regs j)" for r
  proof -
    obtain k where k: "k < n" "r = ?rs ! k" using r by (metis in_set_conv_nth length_rev n set_rev)
    have "reg_of (pop_into ?rs ?q t) r = dword_at t (p - 4 * of_nat (n - Suc k))"
      using reg_of_pop_into[OF assms(1) rs, of k ?q] k(1) unfolding up[OF k(1)] k(2) by (simp only: length_rev n)
    also have "\<dots> = v (ma_regs j ! (n - Suc k))" by (rule val[rule_format]) (use k(1) in simp)
    finally show ?thesis using k by (simp add: rev_nth n)
  qed
  moreover have "reg_of (pop_into ?rs ?q t) r = reg_of t r" if "r \<notin> set (ma_regs j)" for r
    using reg_of_pop_into_other[OF assms(1) rs(2)] that by simp
  ultimately show ?thesis
    using t' assms(1) wf_ins_less(3)[OF assms(2)] by (intro exI[of _ ?t']) (simp add: ectx_simps)
qed

text \<open>An exchange is its own inverse.\<close>

lemma xchg_involutive:
  assumes "wf s" "wf_ins i"
  shows "\<exists>s'. ins_xchg i s = Inr s' \<and> same_but {opa i, opb i} s s' \<and> reg_of s' (opa i) = reg_of s (opb i) \<and>
    reg_of s' (opb i) = reg_of s (opa i) \<and> ins_xchg i s' = Inr s"
proof -
  let ?s' = "upd_reg (opb i) (reg_of s (opa i)) (upd_reg (opa i) (reg_of s (opb i)) s)"
  note l = wf_ins_less[OF assms(2)]
  have "ins_xchg i t = Inr (upd_reg (opb i) (reg_of t (opa i)) (upd_reg (opa i) (reg_of t (opb i)) t))" if "wf t" for t
    using that l by (simp add: ins_xchg_def get_reg_norm set_reg_norm)
  moreover have "reg_of ?s' (opa i) = reg_of s (opb i)" "reg_of ?s' (opb i) = reg_of s (opa i)"
    using assms(1) l by (simp_all add: reg_of_upd)
  moreover from this have "upd_reg (opb i) (reg_of ?s' (opa i)) (upd_reg (opa i) (reg_of ?s' (opb i)) ?s') = s"
    using assms(1) l(1,2)
    by (cases "opa i = opb i") (simp_all add: upd_reg_twice upd_reg_swap[of "opa i" "opb i"] upd_reg_same)
  moreover have "same_but {opa i, opb i} s ?s'"
    using assms(1) l by (intro same_but_upd_reg same_but_refl) simp_all
  ultimately show ?thesis using assms(1) by auto
qed

section \<open>Properties\<close>

text \<open>
  C9. \<open>STOREMA\<close> stores the registers of its range downwards from the base address, dword \<open>k\<close> at
  \<open>4k\<close> bytes below it, lowers the base register by four per register and changes nothing else in
  the registers. A later \<open>LOADMA\<close> of the same range through a register that holds the lowered
  address, in any state with that memory, restores every register of the range and the base
  address, where the base register itself receives the address and not its stored value.
\<close>

theorem storema_loadma_roundtrip:
  assumes "wf s" "wf_ins i" and p: "p = reg_of s (dst i)" and n: "n = length (ma_regs i)"
    and room: "4 * n \<le> unat p + 4" "unat p + 4 \<le> unat (msize s)"
  shows "\<exists>s1. ins_storema i s = Inr s1 \<and> reg_of s1 (dst i) = p - 4 * of_nat n \<and>
      (\<forall>r. r \<noteq> dst i \<longrightarrow> reg_of s1 r = reg_of s r) \<and>
      (\<forall>k < n. mem_get_dword_p (p - 4 * of_nat k) s1 = Inr (True, reg_of s (ma_regs i ! k))) \<and>
      (\<forall>j t. wf t \<and> wf_ins j \<and> imm16 j = imm16 i \<and> memory_context t = memory_context s1 \<and>
         reg_of t (dst j) = p - 4 * of_nat n \<longrightarrow>
         (\<exists>t'. ins_loadma j t = Inr t' \<and> memory_context t' = memory_context t \<and>
            reg_of t' (dst j) = p \<and>
            (\<forall>r. r \<noteq> dst j \<longrightarrow>
               reg_of t' r = (if r \<in> set (ma_regs i) then reg_of s r else reg_of t r))))"
proof -
  let ?vs = "map (reg_of s) (ma_regs i)"
  let ?m = "push_list ?vs p s" and ?s1 = "upd_reg (dst i) (p - 4 * of_nat n) (push_list ?vs p s)"
  have ok: "stack_ok n p s"
    using room by (simp add: stack_ok_def fits_def msize_def)
  have s1: "ins_storema i s = Inr ?s1"
    using ins_storema_norm[OF assms(1,2)] ok by (simp add: p n)
  have fit: "fits 4 (p - 4 * of_nat k) ?s1" if "k < n" for k
    using stack_ok_nth(1)[OF ok that] by simp
  have val: "dword_at ?s1 (p - 4 * of_nat k) = reg_of s (ma_regs i ! k)" if "k < n" for k
    using push_list_nth[of ?vs p s k] ok that by (simp add: n)
  have regs: "reg_of ?s1 (dst i) = p - 4 * of_nat n" "\<forall>r. r \<noteq> dst i \<longrightarrow> reg_of ?s1 r = reg_of s r"
    using assms(1,2) by (simp_all add: reg_of_upd wf_ins_less)
  have load: "\<exists>t'. ins_loadma j t = Inr t' \<and> memory_context t' = memory_context t \<and>
      reg_of t' (dst j) = p \<and>
      (\<forall>r. r \<noteq> dst j \<longrightarrow> reg_of t' r = (if r \<in> set (ma_regs i) then reg_of s r else reg_of t r))"
    if t: "wf t" "wf_ins j" "imm16 j = imm16 i" "memory_context t = memory_context ?s1"
      "reg_of t (dst j) = p - 4 * of_nat n" for j t
  proof -
    have j: "ma_regs j = ma_regs i" by (simp add: ma_regs_def t(3))
    have "fits 4 (p - 4 * of_nat k) t \<and> dword_at t (p - 4 * of_nat k) = reg_of s (ma_regs i ! k)" if "k < n" for k
      using fit[OF that] val[OF that] fits_memory_context[OF t(4)]
        mem_val_memory_context[OF t(4), of 0 "p - 4 * of_nat k"] by (simp add: mem_val_def)
    then show ?thesis using loadma_restores[OF t(1,2) _ t(5), of "reg_of s"] by (simp add: j n)
  qed
  have rd: "mem_get_dword_p (p - 4 * of_nat k) ?s1 = Inr (True, reg_of s (ma_regs i ! k))" if "k < n" for k
    using mem_get_dword_p_norm[OF fit[OF that]] val[OF that] by simp
  show ?thesis using s1 regs rd load by blast
qed

theorem storema_loadma_roundtrip_witness:
  "\<exists>i s s1. ins_storema i s = Inr s1 \<and> reg_of s 14 = 32 \<and> reg_of s1 14 = 24 \<and>
     mem_get_dword_p 28 s1 = Inr (True, 7)"
proof -
  let ?s = "upd_reg 14 32 (upd_reg 2 7 (sample_ectx 64))" and ?i = "decode_bytes 0xC8 0x0E 0x12 0"
  have len: "ma_regs ?i = [1, 2]"
    by (simp add: ma_regs_def decode_bytes_def reg_range_def WORD_FROM_BYTES_def upt_rec)
  have v: "reg_of ?s (dst ?i) = 32" "dst ?i = 14" "reg_of ?s 2 = 7" by (simp_all add: reg_of_upd)
  have "msize ?s = 64" by (simp add: memory_upd msize_def)
  then obtain s1 where "ins_storema ?i ?s = Inr s1" "reg_of s1 (dst ?i) = 32 - 4 * of_nat 2"
    "\<forall>k < 2. mem_get_dword_p (32 - 4 * of_nat k) s1 = Inr (True, reg_of ?s (ma_regs ?i ! k))"
    using storema_loadma_roundtrip[of ?s ?i 32 2] v(1) len by auto
  moreover from this(3)[rule_format, of 1] have "mem_get_dword_p 28 s1 = Inr (True, 7)"
    using v(3) len by simp
  ultimately show ?thesis using v by (intro exI[of _ ?i] exI[of _ ?s] exI[of _ s1]) simp
qed

text \<open>
  C25. A \<open>STOREID\<close> whose address (base plus unsigned 12-bit displacement) leaves room for the width of
  its prefix succeeds, changes no register and no byte outside the addressed ones, and a later
  \<open>LOADID\<close> or \<open>LOADRD\<close> of that width from the same address brings the value back to whatever
  register it names. Where base plus displacement exceeds 32 bits, \<open>STOREID\<close> and \<open>LOADID\<close> do nothing: the code
  fires no exception there, where the manual has one for an address calculation that overflows.
\<close>

theorem storeid_load:
  assumes "wf s" "wf_ins i" "prefix i \<noteq> PREFIX_IMM"
    and ea: "ea = uint (reg_of s (dst i)) + uint (imm12 i)"
  shows "(ea + int (width (prefix i)) \<le> uint (msize s) \<longrightarrow>
      (\<exists>s1. ins_storeid i s = Inr s1 \<and> cpu_context s1 = cpu_context s \<and>
         (\<forall>b. apart (width (prefix i)) (of_int ea) 1 b \<longrightarrow> mem_at s1 b = mem_at s b) \<and>
         (\<forall>j t. wf t \<and> wf_ins j \<and> memory_context t = memory_context s1 \<and> prefix j = prefix i \<longrightarrow>
            (uint (reg_of t (opa j)) + uint (imm12 j) = ea \<longrightarrow>
               (\<exists>t'. ins_loadid j t = Inr t' \<and> reg_at (prefix j) (dst j) t' = reg_at (prefix i) (opa i) s)) \<and>
            (uint (reg_of t (opa j)) + sint (reg_of t (opb j)) = ea \<longrightarrow>
               (\<exists>t'. ins_loadrd j t = Inr t' \<and> reg_at (prefix j) (dst j) t' = reg_at (prefix i) (opa i) s))))) \<and>
    (2 ^ 32 \<le> ea \<longrightarrow> ins_storeid i s = Inr s) \<and>
    (2 ^ 32 \<le> uint (reg_of s (opa i)) + uint (imm12 i) \<longrightarrow> ins_loadid i s = Inr s)"
proof (intro conjI impI)
  assume room: "ea + int (width (prefix i)) \<le> uint (msize s)"
  have nn: "0 \<le> ea" unfolding ea by simp
  obtain s1 where s1: "ins_storeid i s = Inr s1" "cpu_context s1 = cpu_context s"
      "\<forall>b. apart (width (prefix i)) (of_int ea) 1 b \<longrightarrow> mem_at s1 b = mem_at s b"
    and ld: "\<forall>j t. wf t \<and> wf_ins j \<and> memory_context t = memory_context s1 \<and> prefix j = prefix i \<and>
         uint (reg_of t (opa j)) + uint (imm12 j) = ea \<longrightarrow>
         (\<exists>t'. ins_loadid j t = Inr t' \<and> reg_at (prefix j) (dst j) t' = reg_at (prefix i) (opa i) s)"
    using imm.store_then_load[OF assms(1-3)] room nn unfolding ea by blast
  obtain s2 where s2: "ins_storeid i s = Inr s2"
    and ldrd: "\<forall>j t. wf t \<and> wf_ins j \<and> memory_context t = memory_context s2 \<and> prefix j = prefix i \<and>
         uint (reg_of t (opa j)) + sint (reg_of t (opb j)) = ea \<longrightarrow>
         (\<exists>t'. ins_loadrd j t = Inr t' \<and> reg_at (prefix j) (dst j) t' = reg_at (prefix i) (opa i) s)"
    using imm_rd.store_then_load[OF assms(1-3)] room nn unfolding ea by blast
  have "s2 = s1" using s1(1) s2 by simp
  then show "\<exists>s1. ins_storeid i s = Inr s1 \<and> cpu_context s1 = cpu_context s \<and>
         (\<forall>b. apart (width (prefix i)) (of_int ea) 1 b \<longrightarrow> mem_at s1 b = mem_at s b) \<and>
         (\<forall>j t. wf t \<and> wf_ins j \<and> memory_context t = memory_context s1 \<and> prefix j = prefix i \<longrightarrow>
            (uint (reg_of t (opa j)) + uint (imm12 j) = ea \<longrightarrow>
               (\<exists>t'. ins_loadid j t = Inr t' \<and> reg_at (prefix j) (dst j) t' = reg_at (prefix i) (opa i) s)) \<and>
            (uint (reg_of t (opa j)) + sint (reg_of t (opb j)) = ea \<longrightarrow>
               (\<exists>t'. ins_loadrd j t = Inr t' \<and> reg_at (prefix j) (dst j) t' = reg_at (prefix i) (opa i) s)))"
    using s1 ld ldrd by blast
next
  assume "2 ^ 32 \<le> ea"
  then show "ins_storeid i s = Inr s" using imm.void(2)[OF assms(1,2)] by (simp add: ea)
next
  assume "2 ^ 32 \<le> uint (reg_of s (opa i)) + uint (imm12 i)"
  then show "ins_loadid i s = Inr s" using imm.void(1)[OF assms(1,2)] by simp
qed

text \<open>Storing the low byte of register 0 (byte register 0) at 16 + 3 and loading it to byte register 5.\<close>

theorem storeid_load_witness:
  "\<exists>s1 t. ins_storeid (decode_bytes 0xA8 0x01 0 3) (upd_reg 1 16 (upd_reg 0 0x77 (sample_ectx 64))) = Inr s1 \<and>
     ins_loadid (decode_bytes 0xA6 0x05 0x10 3) s1 = Inr t \<and> reg_at PREFIX_BYTE 5 t = 0x77"
proof -
  let ?s = "upd_reg 1 16 (upd_reg 0 0x77 (sample_ectx 64))"
  let ?i = "decode_bytes 0xA8 0x01 0 3" and ?j = "decode_bytes 0xA6 0x05 0x10 3"
  have f: "imm12 ?i = 3" "imm12 ?j = 3" "prefix ?i = 2" "prefix ?j = 2" "dst ?i = 1" "opa ?i = 0" "opa ?j = 1" "dst ?j = 5"
    by (simp_all add: decode_bytes_def)
  have v: "reg_of ?s 1 = 16" "msize ?s = 64" "reg_at PREFIX_BYTE 0 ?s = 0x77" "wf ?s"
    by (simp_all add: reg_of_upd memory_upd msize_def reg_at_def byte_reg_def field_def mask_8[symmetric])
  obtain s1 where s1: "ins_storeid ?i ?s = Inr s1" "cpu_context s1 = cpu_context ?s"
    and ld: "\<forall>j t. wf t \<and> wf_ins j \<and> memory_context t = memory_context s1 \<and> prefix j = prefix ?i \<longrightarrow>
       uint (reg_of t (opa j)) + uint (imm12 j) = 19 \<longrightarrow>
       (\<exists>t'. ins_loadid j t = Inr t' \<and> reg_at (prefix j) (dst j) t' = reg_at (prefix ?i) (opa ?i) ?s)"
    using conjunct1[OF storeid_load[OF v(4) wf_ins_decode[of "0xA8" "0x01" 0 3], of 19]] v(1,2) f
    by (auto simp: width_def)
  have "wf s1" "reg_of s1 1 = 16" using s1(2) v(1,4) by (simp_all add: wf_def reg_of_def)
  then obtain t where "ins_loadid ?j s1 = Inr t" "reg_at (prefix ?j) (dst ?j) t = reg_at (prefix ?i) (opa ?i) ?s"
    using ld[rule_format, of s1 ?j] f by auto
  then show ?thesis using s1(1) v(3) f by auto
qed

text \<open>
  The same for \<open>STORERD\<close> and \<open>LOADRD\<close>, whose displacement is a signed register: the address is
  the exact sum of the unsigned base and the signed displacement, so a negative displacement reaches
  below the base, and a sum below zero or above 32 bits makes the instruction void.
\<close>

lemma storerd_loadrd:
  assumes "wf s" "wf_ins i" "prefix i \<noteq> PREFIX_IMM"
    and ea: "ea = uint (reg_of s (dst i)) + sint (reg_of s (opb i))"
  shows "(0 \<le> ea \<and> ea + int (width (prefix i)) \<le> uint (msize s) \<longrightarrow>
      (\<exists>s1. ins_storerd i s = Inr s1 \<and> cpu_context s1 = cpu_context s \<and>
         (\<forall>b. apart (width (prefix i)) (of_int ea) 1 b \<longrightarrow> mem_at s1 b = mem_at s b) \<and>
         (\<forall>j t. wf t \<and> wf_ins j \<and> memory_context t = memory_context s1 \<and> prefix j = prefix i \<and>
            uint (reg_of t (opa j)) + sint (reg_of t (opb j)) = ea \<longrightarrow>
            (\<exists>t'. ins_loadrd j t = Inr t' \<and> reg_at (prefix j) (dst j) t' = reg_at (prefix i) (opa i) s)))) \<and>
    (ea < 0 \<or> 2 ^ 32 \<le> ea \<longrightarrow> ins_storerd i s = Inr s) \<and>
    (\<forall>ea'. ea' = uint (reg_of s (opa i)) + sint (reg_of s (opb i)) \<and> (ea' < 0 \<or> 2 ^ 32 \<le> ea') \<longrightarrow>
       ins_loadrd i s = Inr s)"
proof (intro conjI allI impI)
  assume "0 \<le> ea \<and> ea + int (width (prefix i)) \<le> uint (msize s)"
  then show "\<exists>s1. ins_storerd i s = Inr s1 \<and> cpu_context s1 = cpu_context s \<and>
         (\<forall>b. apart (width (prefix i)) (of_int ea) 1 b \<longrightarrow> mem_at s1 b = mem_at s b) \<and>
         (\<forall>j t. wf t \<and> wf_ins j \<and> memory_context t = memory_context s1 \<and> prefix j = prefix i \<and>
            uint (reg_of t (opa j)) + sint (reg_of t (opb j)) = ea \<longrightarrow>
            (\<exists>t'. ins_loadrd j t = Inr t' \<and> reg_at (prefix j) (dst j) t' = reg_at (prefix i) (opa i) s))"
    using rd.store_then_load[OF assms(1-3)] unfolding ea by blast
next
  assume "ea < 0 \<or> 2 ^ 32 \<le> ea"
  then show "ins_storerd i s = Inr s" using rd.void(2)[OF assms(1,2)] unfolding ea by linarith
next
  fix ea' assume "ea' = uint (reg_of s (opa i)) + sint (reg_of s (opb i)) \<and> (ea' < 0 \<or> 2 ^ 32 \<le> ea')"
  then show "ins_loadrd i s = Inr s" using rd.void(1)[OF assms(1,2)] by linarith
qed

lemma storerd_loadrd_witness:
  "\<exists>i s s1. ins_storerd i s = Inr s1 \<and> reg_of s 1 = 32 \<and> reg_of s 2 = 0xFFFFFFF8 \<and>
     (\<forall>b. apart 4 24 1 b \<longrightarrow> mem_at s1 b = mem_at s b)"
proof -
  let ?s = "upd_reg 2 0xFFFFFFF8 (upd_reg 1 32 (sample_ectx 64))" and ?i = "decode_bytes 0x29 0x01 0x02 0"
  have f: "prefix ?i = 0" "dst ?i = 1" "opb ?i = 2" by simp_all
  have v: "reg_of ?s 1 = 32" "reg_of ?s 2 = 0xFFFFFFF8" "msize ?s = 64" "wf ?s" "sint (0xFFFFFFF8 :: dword) = -8"
    by (simp_all add: reg_of_upd memory_upd msize_def)
  have "\<exists>s1. ins_storerd ?i ?s = Inr s1 \<and> (\<forall>b. apart 4 24 1 b \<longrightarrow> mem_at s1 b = mem_at ?s b)"
    using conjunct1[OF storerd_loadrd[OF v(4) wf_ins_decode[of "0x29" "0x01" "0x02" 0], of 24]] v f
    by (auto simp: width_def)
  then show ?thesis using v(1,2) by blast
qed



text \<open>
  What a write to a part of a register leaves alone: \<open>part_frame w r s s'\<close>, of the register \<open>r\<close> of width \<open>w\<close>
  bytes, says that every byte of the register array outside it is as before, and everything else too.
  \<open>creg_frame\<close>: only the registers in \<open>R\<close> and the control registers in \<open>C\<close> may differ.
\<close>

definition part_frame :: "nat \<Rightarrow> byte \<Rightarrow> emulator_context \<Rightarrow> emulator_context \<Rightarrow> bool" where
  "part_frame w r s s' \<longleftrightarrow> same_but UNIV s s' \<and>
     (\<forall>k < 64. unat k div w \<noteq> unat r \<longrightarrow> byte_reg s' k = byte_reg s k)"

definition creg_frame :: "byte set \<Rightarrow> byte set \<Rightarrow> emulator_context \<Rightarrow> emulator_context \<Rightarrow> bool" where
  "creg_frame R C s s' \<longleftrightarrow> wf s' \<and> memory_context s' = memory_context s \<and>
     statistic_context s' = statistic_context s \<and> get_pos s' = get_pos s \<and>
     (\<forall>r. r \<notin> R \<longrightarrow> reg_of s' r = reg_of s r) \<and> (\<forall>r. r \<notin> C \<longrightarrow> creg_of s' r = creg_of s r)"

lemma field_set_field_apart:
  assumes "k + n \<le> 32" "take_bit n v = v" "k' + m \<le> k \<or> k + n \<le> k'"
  shows "field m k' (set_field n k v i) = field m k' i"
  by (rule bit_word_eqI) (use assms(3) in \<open>auto simp: bit_field bit_set_field[OF assms(1,2)]\<close>)

lemma byte_reg_upd_word:
  assumes "wf s" "r < 32" "unat k div 2 \<noteq> unat r"
  shows "byte_reg (upd_word_reg r v s) k = byte_reg s k"
proof (cases "k div 4 = r div 2")
  case True
  have "unat k div 4 = unat r div 2" using arg_cong[OF True, of unat] by (simp add: unat_div)
  moreover have parts: "unat k div 4 = unat k div 2 div 2" "unat k mod 4 = 2 * (unat k div 2 mod 2) + unat k mod 2"
    using div_mult2_eq[of "unat k" 2 2] mod_mult2_eq[of "unat k" 2 2] by simp_all
  ultimately have low: "unat k div 2 mod 2 \<noteq> unat r mod 2"
    using assms(3) div_mult_mod_eq[of "unat k div 2" 2] div_mult_mod_eq[of "unat r" 2] by metis
  have bit: "a mod 2 = 0 \<or> a mod 2 = 1" for a :: nat by auto
  have "unat k mod 4 * 8 + 8 \<le> unat r mod 2 * 16 \<or> unat r mod 2 * 16 + 16 \<le> unat k mod 4 * 8"
    using low bit[of "unat k div 2"] bit[of "unat r"] bit[of "unat k"] unfolding parts(2) by auto
  then have "unat (k mod 4) * 8 + 8 \<le> unat (r mod 2) * 16 \<or> unat (r mod 2) * 16 + 16 \<le> unat (k mod 4) * 8"
    by (simp add: unat_mod)
  then show ?thesis
    using True assms(1,2) mod_bounds(2)[of r] field_set_field_apart[of "unat (r mod 2) * 16" 16 "ucast v"]
    by (simp add: byte_reg_def upd_word_reg_def reg_of_upd div_bounds)
next
  case False
  then show ?thesis
    using assms(1,2) by (simp add: byte_reg_def upd_word_reg_def reg_of_upd div_bounds)
qed

lemma part_frame_upd:
  assumes "wf s"
  shows "r < 16 \<Longrightarrow> part_frame 4 r s (upd_reg r v s)"
    "r < 32 \<Longrightarrow> part_frame 2 r s (upd_word_reg r w s)"
    "r < 64 \<Longrightarrow> part_frame 1 r s (upd_byte_reg r b s)"
proof -
  have any: "same_but UNIV s (upd_reg q d s)" if "q < 16" for q d
    using assms that by (auto simp: same_but_upd_reg)
  show "part_frame 4 r s (upd_reg r v s)" if "r < 16"
    using assms that any by (auto simp: part_frame_def byte_reg_def reg_of_upd unat_div)
  show "part_frame 2 r s (upd_word_reg r w s)" if "r < 32"
    using assms that any[OF div_bounds(2)[OF that]]
    by (simp add: part_frame_def byte_reg_upd_word) (simp add: upd_word_reg_def)
  show "part_frame 1 r s (upd_byte_reg r b s)" if "r < 64"
    using assms that any[OF div_bounds(1)[OF that]]
    by (auto simp: part_frame_def byte_reg_upd) (simp add: upd_byte_reg_def)
qed

text \<open>
  C28. The moves: \<open>MOV\<close> copies a register at its width, or puts its immediate in a register, \<open>LOADI\<close> puts the
  immediate (its low byte for the byte prefix) in a part of a register, \<open>XCHG\<close> swaps two registers and
  is its own inverse, \<open>XCHGC\<close> swaps a register with a control register, \<open>MOVTC\<close> and \<open>MOVFC\<close> copy to and
  from a control register. None of them stops, and each changes nothing else: of a register written in
  part the other bytes stay, and so do all other registers and control registers, memory, pointer and
  counters.
\<close>

theorem moves_correct:
  assumes "wf s" "wf_ins i"
  shows "(\<exists>s'. ins_mov i s = Inr s' \<and>
            (if prefix i = PREFIX_IMM then reg_of s' (opa i) = ucast (imm12 i) \<and> same_but {opa i} s s'
             else reg_at (prefix i) (opa i) s' = reg_at (prefix i) (opb i) s \<and>
                  part_frame (width (prefix i)) (opa i) s s')) \<and>
    (\<exists>s'. ins_loadi i s = Inr s' \<and>
       (if prefix i = PREFIX_BYTE then byte_reg s' (dst i) = ucast (imm16 i) \<and> part_frame 1 (dst i) s s'
        else word_reg s' (dst i) = imm16 i \<and> part_frame 2 (dst i) s s')) \<and>
    (\<exists>s'. ins_xchg i s = Inr s' \<and> same_but {opa i, opb i} s s' \<and> reg_of s' (opa i) = reg_of s (opb i) \<and>
       reg_of s' (opb i) = reg_of s (opa i) \<and> ins_xchg i s' = Inr s) \<and>
    (\<exists>s'. ins_xchgc i s = Inr s' \<and> reg_of s' (opa i) = creg_of s (opb i) \<and> creg_of s' (opb i) = reg_of s (opa i) \<and>
       creg_frame {opa i} {opb i} s s') \<and>
    (\<exists>s'. ins_movtc i s = Inr s' \<and> creg_of s' (opa i) = reg_of s (opb i) \<and> creg_frame {} {opa i} s s') \<and>
    (\<exists>s'. ins_movfc i s = Inr s' \<and> reg_of s' (opa i) = creg_of s (opb i) \<and> creg_frame {opa i} {} s s')"
proof -
  note l = wf_ins_less[OF assms(2)]
  note l32 = small_reg(1)[OF l(1)] small_reg(1)[OF l(2)] small_reg(1)[OF l(3)]
  note l64 = small_reg(2)[OF l(1)] small_reg(2)[OF l(2)] small_reg(2)[OF l(3)]
  note ops = assms(1) l l32 l64 get_reg_norm set_reg_norm get_creg_norm set_creg_norm
    cpu_get_word_reg_norm cpu_set_word_reg_norm cpu_get_byte_reg_norm cpu_set_byte_reg_norm
  have mov: "\<exists>s'. ins_mov i s = Inr s' \<and> reg_at (prefix i) (opa i) s' = reg_at (prefix i) (opb i) s \<and>
      part_frame (width (prefix i)) (opa i) s s'"
    if "prefix i \<noteq> PREFIX_IMM"
    using _ that
  proof (cases rule: width_prefix)
    show "prefix i < 4" using assms(2) by (simp add: wf_ins_def)
  qed (simp_all add: ins_mov_def reg_at_def width_def ops reg_of_upd word_reg_upd byte_reg_upd part_frame_upd
      del: One_nat_def)
  have imm: "\<exists>s'. ins_mov i s = Inr s' \<and> reg_of s' (opa i) = ucast (imm12 i) \<and> same_but {opa i} s s'"
    if "prefix i = PREFIX_IMM"
    using that by (simp add: ins_mov_def ops reg_of_upd same_but_upd_reg)
  have loadi: "\<exists>s'. ins_loadi i s = Inr s' \<and>
       (if prefix i = PREFIX_BYTE then byte_reg s' (dst i) = ucast (imm16 i) \<and> part_frame 1 (dst i) s s'
        else word_reg s' (dst i) = imm16 i \<and> part_frame 2 (dst i) s s')"
    by (simp add: ins_loadi_def ops byte_reg_upd word_reg_upd ucast_and_byte part_frame_upd del: One_nat_def)
  note xchg = xchg_involutive[OF assms]
  have xchgc: "\<exists>s'. ins_xchgc i s = Inr s' \<and> reg_of s' (opa i) = creg_of s (opb i) \<and> creg_of s' (opb i) = reg_of s (opa i) \<and>
       creg_frame {opa i} {opb i} s s'"
    by (simp add: ins_xchgc_def ops creg_frame_def ectx_simps)
  have movc: "\<exists>s'. ins_movtc i s = Inr s' \<and> creg_of s' (opa i) = reg_of s (opb i) \<and> creg_frame {} {opa i} s s'"
    "\<exists>s'. ins_movfc i s = Inr s' \<and> reg_of s' (opa i) = creg_of s (opb i) \<and> creg_frame {opa i} {} s s'"
    by (simp_all add: ins_movtc_def ins_movfc_def ops creg_frame_def ectx_simps)
  show ?thesis
    using mov imm loadi xchg xchgc movc by (cases "prefix i = PREFIX_IMM") simp_all
qed

theorem moves_correct_witness:
  "\<exists>i s s'. ins_xchg i s = Inr s' \<and> reg_of s 1 = 5 \<and> reg_of s 2 = 6 \<and> ins_xchg i s' = Inr s \<and>
     reg_of s' 1 = 6 \<and> reg_of s' 2 = 5"
proof -
  let ?s = "upd_reg 2 6 (upd_reg 1 5 (sample_ectx 64))" and ?i = "decode_bytes 0x20 0 0x12 0"
  have v: "reg_of ?s 1 = 5" "reg_of ?s 2 = 6" "wf ?s" "opa ?i = 1" "opb ?i = 2" by (simp_all add: reg_of_upd)
  have "\<exists>s'. ins_xchg ?i ?s = Inr s' \<and> reg_of s' (opa ?i) = reg_of ?s (opb ?i) \<and>
       reg_of s' (opb ?i) = reg_of ?s (opa ?i) \<and> ins_xchg ?i s' = Inr ?s"
    using moves_correct[OF v(3) wf_ins_decode[of "0x20" 0 "0x12" 0]] by blast
  then show ?thesis unfolding v(4,5) using v(1,2) by auto
qed

end
