(* ===== verification/Pio.thy ===== *)
theory Pio
  imports Contexts
begin

text \<open>
  Port I/O, \<^verbatim>\<open>src/cpu/pio.c\<close>: a table of 128 handlers and the latch of \<open>pio_null\<close>. Both are
  static variables of the C file, so they are fields of a \<open>machine\<close> beside the emulator context.
\<close>

unbundle bit_operations_syntax

section \<open>State\<close>

text \<open>
  \<open>port_handler\<close> is the C function pointer \<open>void (*)(int read, dword* data, emulator_context*)\<close>.
  The two kinds of call are a value: on a write \<open>*data\<close> is the dword written, on a read it is a
  variable nobody has set. A handler returns what it left in \<open>*data\<close> (\<open>None\<close> if it wrote nothing
  on a read), the context and the static latch.
\<close>

datatype port_access = Port_read | Port_write dword

type_synonym port_handler =
  "port_access \<Rightarrow> emulator_context \<times> dword \<Rightarrow> dword option \<times> (emulator_context \<times> dword)"

record machine =
  ectx :: emulator_context
  ports :: "port_handler option list"
  latch :: dword

section \<open>Operations\<close>

definition pio_null :: port_handler where
  "pio_null acc st =
     (case acc of
        Port_read \<Rightarrow> (Some (snd st), st)
      | Port_write data \<Rightarrow> (Some data, (fst st, data)))"

definition pio_init :: "machine \<Rightarrow> machine" where
  "pio_init m = m\<lparr>ports := (ports m)[0 := Some pio_null]\<rparr>"

definition pio_register_port :: "byte \<Rightarrow> port_handler option \<Rightarrow> machine \<Rightarrow> machine" where
  "pio_register_port no hndl m =
     (if no \<ge> 128 then m else m\<lparr>ports := (ports m)[unat no := hndl]\<rparr>)"

definition pio_read :: "byte \<Rightarrow> machine \<Rightarrow> stop + (dword \<times> machine)" where
  "pio_read no m =
     (if unat no < length (ports m) then
        (case ports m ! unat no of
           None \<Rightarrow> Inr (ucast no, m)
         | Some h \<Rightarrow>
             (let (data, s, l) = h Port_read (ectx m, latch m) in
              (case data of
                 None \<Rightarrow> Inl (Uninit_data no)
               | Some d \<Rightarrow> Inr (d, m\<lparr>ectx := s, latch := l\<rparr>))))
      else Inl (Port_oob no))"

definition pio_write :: "byte \<Rightarrow> dword \<Rightarrow> machine \<Rightarrow> stop + machine" where
  "pio_write no data m =
     (if unat no < length (ports m) then
        (case ports m ! unat no of
           None \<Rightarrow> Inr m
         | Some h \<Rightarrow>
             (let (_, s, l) = h (Port_write data) (ectx m, latch m) in
              Inr (m\<lparr>ectx := s, latch := l\<rparr>)))
      else Inl (Port_oob no))"

text \<open>The static variables as the program starts: no handler, and a latch of zero.\<close>

definition pio_statics :: "emulator_context \<Rightarrow> machine" where
  "pio_statics s = \<lparr>ectx = s, ports = replicate 128 None, latch = 0\<rparr>"

definition wf_ports :: "machine \<Rightarrow> bool" where
  "wf_ports m \<longleftrightarrow> length (ports m) = 128"

lemma wf_ports_intros [simp, wf_intros]:
  "wf_ports (pio_statics s)" "wf_ports (pio_init m) = wf_ports m"
  "wf_ports (pio_register_port no h m) = wf_ports m" "wf_ports (m\<lparr>ectx := s\<rparr>) = wf_ports m"
  by (simp_all add: wf_ports_def pio_statics_def pio_init_def pio_register_port_def)

lemma pio_write_wf_ports: "pio_write no d m = Inr m' \<Longrightarrow> wf_ports m' = wf_ports m"
  by (auto simp: pio_write_def wf_ports_def split: if_splits option.splits prod.splits)

lemma pio_read_wf_ports: "pio_read no m = Inr (d, m') \<Longrightarrow> wf_ports m' = wf_ports m"
  by (auto simp: pio_read_def wf_ports_def split: if_splits option.splits prod.splits)

text \<open>Handlers of the program's own ports never change the emulator context.\<close>

definition null_ports :: "machine \<Rightarrow> bool" where
  "null_ports m \<longleftrightarrow> (\<forall>h \<in> set (ports m). h = None \<or> h = Some pio_null)"

lemma null_ports_intros [simp]:
  "null_ports (pio_statics s)" "null_ports m \<Longrightarrow> null_ports (pio_init m)"
  "null_ports (m\<lparr>ectx := s\<rparr>) = null_ports m" "null_ports (m\<lparr>latch := l\<rparr>) = null_ports m"
  by (auto simp: null_ports_def pio_statics_def pio_init_def dest: set_update_subset_insert[THEN subsetD])

lemma null_ports_cases:
  assumes "null_ports m" "unat no < length (ports m)"
  obtains "ports m ! unat no = None" | "ports m ! unat no = Some pio_null"
proof -
  from assms(1) nth_mem[OF assms(2)]
  have "ports m ! unat no = None \<or> ports m ! unat no = Some pio_null"
    unfolding null_ports_def by (rule bspec)
  then show thesis using that by (elim disjE)
qed

lemma pio_read_null:
  assumes "null_ports m" "wf_ports m" "no < 128"
  shows "pio_read no m = Inr (if ports m ! unat no = None then ucast no else latch m, m)"
proof -
  have no: "unat no < length (ports m)"
    using assms(2,3) by (simp add: wf_ports_def word_less_nat_alt)
  show ?thesis
    by (rule null_ports_cases[OF assms(1) no]) (simp_all add: pio_read_def no pio_null_def)
qed

lemma pio_write_null:
  assumes "null_ports m" "wf_ports m" "no < 128"
  shows "pio_write no d m = Inr (if ports m ! unat no = None then m else m\<lparr>latch := d\<rparr>)"
proof -
  have no: "unat no < length (ports m)"
    using assms(2,3) by (simp add: wf_ports_def word_less_nat_alt)
  show ?thesis
    by (rule null_ports_cases[OF assms(1) no]) (simp_all add: pio_write_def no pio_null_def)
qed

section \<open>An interface of latch handlers\<close>

text \<open>
  A handler that keeps one dword: a read returns it and changes nothing, a write replaces it and
  leaves the emulator context alone. The locale's lemmas are about such a handler in the table.
\<close>

locale latch_handler =
  fixes h :: port_handler
    and val :: "emulator_context \<times> dword \<Rightarrow> dword"
  assumes read_val: "h Port_read st = (Some (val st), st)"
    and write_val: "val (snd (h (Port_write d) st)) = d"
    and write_ectx: "fst (snd (h (Port_write d) st)) = fst st"
begin

lemma latch_read:
  assumes "unat no < length (ports m)" "ports m ! unat no = Some h"
  shows "pio_read no m = Inr (val (ectx m, latch m), m)"
  using assms by (simp add: pio_read_def read_val)

lemma latch_write:
  assumes "unat no < length (ports m)" "ports m ! unat no = Some h"
  shows "\<exists>l. pio_write no d m = Inr (m\<lparr>latch := l\<rparr>) \<and> val (ectx m, l) = d"
proof -
  obtain x s l where h: "h (Port_write d) (ectx m, latch m) = (x, s, l)"
    by (cases "h (Port_write d) (ectx m, latch m)") auto
  then have "s = ectx m" "val (ectx m, l) = d"
    using write_ectx[of d "(ectx m, latch m)"] write_val[of d "(ectx m, latch m)"] by auto
  then show ?thesis
    using assms h by (auto simp: pio_write_def)
qed

text \<open>Any number of reads after a write return the dword written.\<close>

lemma latch_write_read:
  assumes "unat no < length (ports m)" "ports m ! unat no = Some h"
  shows "\<exists>m'. pio_write no d m = Inr m' \<and> pio_read no m' = Inr (d, m') \<and> ectx m' = ectx m"
proof -
  obtain l where l: "pio_write no d m = Inr (m\<lparr>latch := l\<rparr>)" "val (ectx m, l) = d"
    using latch_write[OF assms] by blast
  then have "pio_read no (m\<lparr>latch := l\<rparr>) = Inr (d, m\<lparr>latch := l\<rparr>)"
    using latch_read[of no "m\<lparr>latch := l\<rparr>"] assms by simp
  with l show ?thesis by auto
qed

end

interpretation null_port: latch_handler pio_null snd
  by unfold_locales (simp_all add: pio_null_def)

section \<open>Properties\<close>

text \<open>
  Port 0, as \<open>pio_init\<close> sets it up and as the documented port map describes it, keeps a
  dword: after any write every read returns the value last written, and neither touches the
  emulator context. A port without a handler answers a read with its own number and drops a write.
\<close>

lemma pio_port_map:
  assumes "wf_ports m"
  shows "(\<exists>m'. pio_write 0 d (pio_init m) = Inr m' \<and> pio_read 0 m' = Inr (d, m') \<and>
            ectx m' = ectx m) \<and>
         (\<forall>no < 128. ports m ! unat no = None \<longrightarrow>
            pio_read no m = Inr (ucast no, m) \<and> pio_write no d m = Inr m)"
proof
  have "ports (pio_init m) ! unat (0 :: byte) = Some pio_null"
       "unat (0 :: byte) < length (ports (pio_init m))" "ectx (pio_init m) = ectx m"
    using assms by (simp_all add: pio_init_def wf_ports_def)
  then show "\<exists>m'. pio_write 0 d (pio_init m) = Inr m' \<and> pio_read 0 m' = Inr (d, m') \<and> ectx m' = ectx m"
    using null_port.latch_write_read[of 0 "pio_init m" d] by simp
  show "\<forall>no < 128. ports m ! unat no = None \<longrightarrow>
          pio_read no m = Inr (ucast no, m) \<and> pio_write no d m = Inr m"
    using assms by (simp add: pio_read_def pio_write_def wf_ports_def word_less_nat_alt)
qed

lemma pio_port_map_witness:
  "pio_read 5 (pio_statics (sample_ectx 64)) = Inr (5, pio_statics (sample_ectx 64))"
proof -
  have "wf_ports (pio_statics (sample_ectx 64))" by simp
  from conjunct2[OF pio_port_map[OF this]]
  have "ports (pio_statics (sample_ectx 64)) ! unat (5 :: byte) = None \<longrightarrow>
        pio_read 5 (pio_statics (sample_ectx 64)) = Inr (ucast (5 :: byte), pio_statics (sample_ectx 64))"
    by (auto dest: spec[of _ "5 :: byte"])
  then show ?thesis by (simp add: pio_statics_def)
qed

end
