(* ===== verification/Cpu.thy ===== *)
theory Cpu
  imports Moves Pio
begin

text \<open>
  The instructions that reach beyond the emulator context or steer the processor, and the loop of
  \<^verbatim>\<open>src/cpu/cpu.c\<close>: fetch, condition, dispatch. The state is the \<open>machine\<close> of the port theory, with
  the local counter \<open>fu\<close> of \<open>cpu_execute\<close> beside it. Timing, logging and the trace output are left out.
\<close>

unbundle bit_operations_syntax

section \<open>Operations\<close>

subsection \<open>Control flow and ports\<close>

definition ins_call :: "instruction_context \<Rightarrow> emulator_context \<Rightarrow> stop + emulator_context" where
  "ins_call ins s =
     ubind (set_reg CPU_REG_RC (get_pos s) s) (\<lambda>s.
     if prefix ins = PREFIX_IMM
     then Inr (set_pos (get_pos s + of_int (SIGNED16 (imm16 ins))) s)
     else ubind (get_reg (dst ins) s) (\<lambda>p. Inr (set_pos p s)))"

definition ins_jmp :: "instruction_context \<Rightarrow> emulator_context \<Rightarrow> stop + emulator_context" where
  "ins_jmp ins s =
     (if prefix ins = PREFIX_IMM
      then Inr (set_pos (get_pos s + of_int (SIGNED16 (imm16 ins))) s)
      else ubind (get_reg (dst ins) s) (\<lambda>p. Inr (set_pos p s)))"

text \<open>The port number is a \<open>byte\<close> parameter, so the register is truncated where it is passed.\<close>

definition ins_in :: "instruction_context \<Rightarrow> machine \<Rightarrow> stop + machine" where
  "ins_in ins m =
     ubind (get_reg (opb ins AND 0x7F) (ectx m)) (\<lambda>no.
     ubind (pio_read (ucast no) m) (\<lambda>(data, m).
     ubind (set_reg (opa ins) data (ectx m)) (\<lambda>s. Inr (m\<lparr>ectx := s\<rparr>))))"

definition ins_out :: "instruction_context \<Rightarrow> machine \<Rightarrow> stop + machine" where
  "ins_out ins m =
     ubind (get_reg (opa ins) (ectx m)) (\<lambda>no.
     ubind (get_reg (opb ins) (ectx m)) (\<lambda>data.
     pio_write (ucast (no AND 0x7F)) data m))"

subsection \<open>Conditions\<close>

text \<open>
  Whether an instruction with condition \<open>c\<close> is executed under the flags \<open>flgs\<close>: the \<open>switch\<close> that
  skips an instruction by \<open>continue\<close>. A number that no case names does not skip.
\<close>

definition cond_holds :: "byte \<Rightarrow> dword \<Rightarrow> bool" where
  "cond_holds c flgs =
     (let is_set = (\<lambda>m. flgs AND m \<noteq> 0) in
      if c = COND_IZ then is_set FLGS_Z
      else if c = COND_NZ then \<not> is_set FLGS_Z
      else if c = COND_IS then is_set FLGS_S
      else if c = COND_NS then \<not> is_set FLGS_S
      else if c = COND_IO then is_set FLGS_O
      else if c = COND_NO then \<not> is_set FLGS_O
      else if c = COND_IP then is_set FLGS_P
      else if c = COND_NP then \<not> is_set FLGS_P
      else if c = COND_IZIS then is_set FLGS_Z \<or> is_set FLGS_S
      else if c = COND_NZNS then \<not> is_set FLGS_Z \<and> \<not> is_set FLGS_S
      else if c = COND_IZIC then is_set FLGS_Z \<or> is_set FLGS_C
      else if c = COND_NZNC then \<not> is_set FLGS_Z \<and> \<not> is_set FLGS_C
      else if c = COND_IC then is_set FLGS_C
      else if c = COND_NC then \<not> is_set FLGS_C
      else if c = COND_NF then
        \<not> is_set FLGS_Z \<and> \<not> is_set FLGS_C \<and> \<not> is_set FLGS_S \<and> \<not> is_set FLGS_O \<and>
        \<not> is_set FLGS_P \<and> \<not> is_set FLGS_E
      else True)"

subsection \<open>Dispatch\<close>

definition on_ectx ::
  "(emulator_context \<Rightarrow> stop + emulator_context) \<Rightarrow> machine \<Rightarrow> stop + machine" where
  "on_ectx f m = ubind (f (ectx m)) (\<lambda>s. Inr (m\<lparr>ectx := s\<rparr>))"

text \<open>
  The instructions that the \<open>switch\<close> on the opcode calls, all but \<open>STOP\<close> and \<open>FAIL\<close>. An opcode that
  no case names (\<open>IRET\<close>, \<open>INT\<close>, \<open>STOREAS\<close>, \<open>LOADAS\<close> and the unassigned numbers) does nothing.
\<close>

definition cpu_dispatch :: "instruction_context \<Rightarrow> machine \<Rightarrow> stop + machine" where
  "cpu_dispatch ins m =
     (let c = opcode ins in
      if c = OP_ADD then on_ectx (ins_add ins) m
      else if c = OP_AND then on_ectx (ins_and ins) m
      else if c = OP_CALL then on_ectx (ins_call ins) m
      else if c = OP_CMP then on_ectx (ins_cmp ins) m
      else if c = OP_CMPXCHG then on_ectx (ins_cmpxchg ins) m
      else if c = OP_DIV then on_ectx (ins_div ins) m
      else if c = OP_IN then ins_in ins m
      else if c = OP_JMP then on_ectx (ins_jmp ins) m
      else if c = OP_LOADI then on_ectx (ins_loadi ins) m
      else if c = OP_LOADID then on_ectx (ins_loadid ins) m
      else if c = OP_LOADMA then on_ectx (ins_loadma ins) m
      else if c = OP_LOADRD then on_ectx (ins_loadrd ins) m
      else if c = OP_MUL then on_ectx (ins_mul ins) m
      else if c = OP_MOD then on_ectx (ins_mod ins) m
      else if c = OP_MOV then on_ectx (ins_mov ins) m
      else if c = OP_MOVFC then on_ectx (ins_movfc ins) m
      else if c = OP_MOVTC then on_ectx (ins_movtc ins) m
      else if c = OP_NOT then on_ectx (ins_not ins) m
      else if c = OP_OR then on_ectx (ins_or ins) m
      else if c = OP_OUT then ins_out ins m
      else if c = OP_SAR then on_ectx (ins_sar ins) m
      else if c = OP_SEX then on_ectx (ins_sex ins) m
      else if c = OP_SDIV then on_ectx (ins_sdiv ins) m
      else if c = OP_SHL then on_ectx (ins_shl ins) m
      else if c = OP_SHR then on_ectx (ins_shr ins) m
      else if c = OP_SMUL then on_ectx (ins_smul ins) m
      else if c = OP_SUB then on_ectx (ins_sub ins) m
      else if c = OP_STOREID then on_ectx (ins_storeid ins) m
      else if c = OP_STOREMA then on_ectx (ins_storema ins) m
      else if c = OP_STORERD then on_ectx (ins_storerd ins) m
      else if c = OP_TEST then on_ectx (ins_test ins) m
      else if c = OP_XCHG then on_ectx (ins_xchg ins) m
      else if c = OP_XCHGC then on_ectx (ins_xchgc ins) m
      else if c = OP_XOR then on_ectx (ins_xor ins) m
      else Inr m)"

subsection \<open>The loop\<close>

text \<open>What one pass through the loop body ends with: a \<open>return\<close>, or the test of the loop.\<close>

datatype pass = Returns int | Continues

definition count_instruction :: "emulator_context \<Rightarrow> emulator_context" where
  "count_instruction s =
     s\<lparr>statistic_context := (statistic_context s)
         \<lparr>instruction_count := instruction_count (statistic_context s) + 1\<rparr>\<rparr>"

definition cpu_pass :: "machine \<Rightarrow> dword \<Rightarrow> stop + (pass \<times> machine \<times> dword)" where
  "cpu_pass m fu =
     ubind (dec_fetch_ins (ectx m)) (\<lambda>(ins, s).
     let m = m\<lparr>ectx := count_instruction s\<rparr> in
     case ins of
       None \<Rightarrow> Inr (Continues, m, fu)
     | Some ins \<Rightarrow>
         ubind (if condition ins \<noteq> COND_ALWAYS
                then ubind (get_reg CPU_REG_FLGS (ectx m)) (\<lambda>flgs. Inr (cond_holds (condition ins) flgs))
                else Inr True) (\<lambda>run.
         if \<not> run then Inr (Continues, m, fu)
         else if opcode ins = OP_FAIL then Inr (Returns (uint (imm16 ins)), m, fu)
         else if opcode ins = OP_STOP then
           (if fu > 0 then Inr (Continues, m\<lparr>ectx := set_pos 0 (ectx m)\<rparr>, fu - 1)
            else Inr (Returns 0, m, fu))
         else ubind (cpu_dispatch ins m) (\<lambda>m. Inr (Continues, m, fu))))"

text \<open>The loop may run forever; that is the value \<open>None\<close>.\<close>

partial_function (option) cpu_loop ::
  "bool \<Rightarrow> machine \<Rightarrow> dword \<Rightarrow> (stop + (int \<times> machine)) option" where
  "cpu_loop step m fu =
     (case cpu_pass m fu of
        Inl e \<Rightarrow> Some (Inl e)
      | Inr (p, m, fu) \<Rightarrow>
          (case p of
             Returns r \<Rightarrow> Some (Inr (r, m))
           | Continues \<Rightarrow> (if step then Some (Inr (-1, m)) else cpu_loop step m fu)))"

definition cpu_execute :: "machine \<Rightarrow> int \<Rightarrow> (stop + (int \<times> machine)) option" where
  "cpu_execute m step = cpu_loop (step \<noteq> 0) m 0"

section \<open>What every instruction keeps\<close>

text \<open>
  \<open>keeps s t\<close>: \<open>t\<close> is well formed, with the memory size and the counters of \<open>s\<close>. \<open>good s r\<close>: a run
  from \<open>s\<close> ends in such a state, or stops at a cell past the end of memory, for no other reason. The
  first argument says where the state is in the result. \<open>settles s r\<close>: the run does end in such a state.
\<close>

definition keeps :: "emulator_context \<Rightarrow> emulator_context \<Rightarrow> bool" where
  "keeps s t \<longleftrightarrow> wf t \<and> msize t = msize s \<and> statistic_context t = statistic_context s"

definition good :: "('a \<Rightarrow> emulator_context) \<Rightarrow> emulator_context \<Rightarrow> stop + 'a \<Rightarrow> bool" where
  "good g s r \<longleftrightarrow> (case r of Inl e \<Rightarrow> \<exists>a. e = Mem_oob a \<and> msize s \<le> a | Inr x \<Rightarrow> keeps s (g x))"

definition settles :: "emulator_context \<Rightarrow> stop + emulator_context \<Rightarrow> bool" where
  "settles s r \<longleftrightarrow> (\<exists>t. r = Inr t \<and> keeps s t)"

lemma settles_simps [simp]: "settles s (Inl e) = False" "settles s (Inr t) = keeps s t"
  by (simp_all add: settles_def)

lemma good_simps [simp]:
  "good g s (Inl e) \<longleftrightarrow> (\<exists>a. e = Mem_oob a \<and> msize s \<le> a)" "good g s (Inr x) \<longleftrightarrow> keeps s (g x)"
  by (simp_all add: good_def)

lemma keeps_wf: "keeps s t \<Longrightarrow> wf t"
  by (simp add: keeps_def)

lemma keeps_refl: "wf s \<Longrightarrow> keeps s s"
  by (simp add: keeps_def)

lemma keeps_upd [wf_intros, simp]:
  "keeps s (upd_reg r v t) = keeps s t" "keeps s (upd_creg r v t) = keeps s t"
  "keeps s (set_pos p t) = keeps s t" "keeps s (upd_flag b m t) = keeps s t"
  "keeps s (upd_byte_reg r b' t) = keeps s t" "keeps s (upd_word_reg r w t) = keeps s t"
  "keeps s (upd_mem a b' t) = keeps s t" "keeps s (put_word w a t) = keeps s t"
  "keeps s (put_dword d a t) = keeps s t"
  by (simp_all add: keeps_def ectx_simps upd_flag_def upd_byte_reg_def upd_word_reg_def)

lemma same_but_keeps: "same_but R s s' \<Longrightarrow> keeps s s'"
  by (simp add: same_but_def keeps_def msize_def)

lemma good_bind:
  "good g s m \<Longrightarrow> (\<And>x. m = Inr x \<Longrightarrow> keeps s (g x) \<Longrightarrow> good h s (f x)) \<Longrightarrow> good h s (ubind m f)"
  by (cases m) auto

text \<open>The cell at which an access stops lies past the end of memory.\<close>

lemma mem_get_past:
  "mem_get_dword_p a t = Inl (Mem_oob c) \<Longrightarrow> msize t \<le> c"
  "mem_get_word_p a t = Inl (Mem_oob c) \<Longrightarrow> msize t \<le> c"
  "mem_get_byte_p a t = Inl (Mem_oob c) \<Longrightarrow> msize t \<le> c"
  by (auto simp: mem_get_byte_p_def mem_get_word_p_def mem_get_dword_p_def ubind_eq_Inl load_cell_def
      msize_def not_less split: if_splits)

lemma mem_write_past:
  "mem_write_byte_p b a t = Inl (Mem_oob c) \<Longrightarrow> msize t \<le> c"
  "mem_write_word_p w a t = Inl (Mem_oob c) \<Longrightarrow> msize t \<le> c"
  "mem_write_dword_p d a t = Inl (Mem_oob c) \<Longrightarrow> msize t \<le> c"
  by (auto simp: mem_write_byte_p_def mem_write_word_p_def mem_write_dword_p_def ubind_eq_Inl store_cell_def
      msize_def not_less split: if_splits)

lemma good_mem_get:
  assumes "keeps s t"
  shows "good (\<lambda>_. t) s (mem_get_dword_p a t)" "good (\<lambda>_. t) s (mem_get_word_p a t)"
    "good (\<lambda>_. t) s (mem_get_byte_p a t)"
  using mem_get_Inl[of a t] mem_get_past[of a t] assms by (auto simp: good_def keeps_def split: sum.splits)

lemma good_mem_write:
  assumes "keeps s t"
  shows "good snd s (mem_write_dword_p d a t)" "good snd s (mem_write_word_p w a t)"
    "good snd s (mem_write_byte_p b a t)"
proof -
  show "good snd s (mem_write_dword_p d a t)"
  proof (cases "fits 4 a t")
    case True
    then show ?thesis using assms by (simp add: mem_write_dword_p_norm)
  next
    case False
    then show ?thesis using mem_write_defined(3)[of d a t] mem_write_Inl(3)[of d a t]
      mem_write_past(3)[of d a t] assms
      by (auto simp: good_def keeps_def split: sum.splits)
  qed
  show "good snd s (mem_write_word_p w a t)"
  proof (cases "fits 2 a t")
    case True
    then show ?thesis using assms by (simp add: mem_write_word_p_norm)
  next
    case False
    then show ?thesis using mem_write_defined(2)[of w a t] mem_write_Inl(2)[of w a t]
      mem_write_past(2)[of w a t] assms
      by (auto simp: good_def keeps_def split: sum.splits)
  qed
  show "good snd s (mem_write_byte_p b a t)"
  proof (cases "fits 1 a t")
    case True
    then show ?thesis using assms by (simp add: mem_write_byte_p_norm)
  next
    case False
    then show ?thesis using mem_write_defined(1)[of b a t] mem_write_Inl(1)[of b a t]
      mem_write_past(1)[of b a t] assms
      by (auto simp: good_def keeps_def split: sum.splits)
  qed
qed

lemma good_load_at:
  assumes "wf s" "r < 16"
  shows "good id s (load_at p r a s)"
  using assms small_reg[OF assms(2)]
  by (auto simp: load_at_def keeps_refl set_reg_norm cpu_set_word_reg_norm cpu_set_byte_reg_norm
      split: prod.split intro!: good_bind[OF good_mem_get(1)] good_bind[OF good_mem_get(2)]
        good_bind[OF good_mem_get(3)])

lemma good_store_at:
  assumes "wf s" "r < 16"
  shows "good id s (store_at p r a s)"
  using assms small_reg[OF assms(2)]
  by (auto simp: store_at_def keeps_refl get_reg_norm cpu_get_word_reg_norm cpu_get_byte_reg_norm
      split: prod.split intro!: good_bind[OF good_mem_write(1)] good_bind[OF good_mem_write(2)]
        good_bind[OF good_mem_write(3)])

lemma good_storema_loop:
  "keeps s t \<Longrightarrow> good (\<lambda>x. snd (snd x)) s (storema_loop b p q t)"
proof (induction b p q t rule: storema_loop.induct)
  case (1 b p q t)
  show ?case
  proof (cases "p \<le> b AND 0xF")
    case True
    then have p: "p < 16" using and_mask_bounds(1)[of b] by (rule le_less_trans)
    note reg = get_reg_norm[OF keeps_wf[OF "1.prems"] p]
    have "good (\<lambda>x. snd (snd x)) s (cpu_push_dword q (reg_of t p) t)"
      unfolding cpu_push_dword_def
      by (rule good_bind[OF good_mem_write(1)[OF "1.prems"]]) auto
    then show ?thesis
      using True "1.IH"[OF refl True reg _ refl refl]
      by (subst storema_loop.simps) (auto simp: reg intro!: good_bind split: prod.split)
  qed (use "1.prems" in \<open>subst storema_loop.simps, simp\<close>)
qed

lemma good_loadma_loop:
  "keeps s t \<Longrightarrow> p < 16 \<Longrightarrow> good (\<lambda>x. snd (snd x)) s (loadma_loop lo p q t)"
proof (induction lo p q t rule: loadma_loop.induct)
  case (1 lo p q t)
  show ?case
  proof (cases "lo \<le> p")
    case True
    have pop: "good (\<lambda>_. t) s (cpu_pop_dword q t)"
      unfolding cpu_pop_dword_def Let_def
      by (rule good_bind[OF good_mem_get(1)[OF "1.prems"(1)]]) (auto simp: "1.prems"(1))
    have set: "set_reg p v t = Inr (upd_reg p v t)" for v
      using keeps_wf[OF "1.prems"(1)] "1.prems"(2) by (rule set_reg_norm)
    have less: "p - 1 < 16" if "p \<noteq> lo"
      using byte_pred_less[OF True that] "1.prems"(2) by (simp add: word_less_nat_alt)
    have "good (\<lambda>x. snd (snd x)) s (loadma_loop lo (p - 1) q' (upd_reg p v t))"
      if "cpu_pop_dword q t = Inr (ok, q', v)" "ok" "p \<noteq> lo" for ok q' v
      using "1.IH"[OF True that(1) refl refl _ set that(3)] that less "1.prems"(1) by simp
    then show ?thesis
      using True pop "1.prems"(1)
      by (subst loadma_loop.simps) (auto simp: set intro!: good_bind[OF pop] split: prod.split)
  qed (use "1.prems" in \<open>subst loadma_loop.simps, simp\<close>)
qed

lemma settles_of_total:
  "\<exists>s'. m = Inr s' \<and> same_but R s s' \<Longrightarrow> settles s m"
  by (auto simp: same_but_keeps)

lemma settles_moves:
  assumes "wf s" "wf_ins i"
  shows "settles s (ins_loadi i s)" "settles s (ins_mov i s)" "settles s (ins_movfc i s)"
    "settles s (ins_movtc i s)" "settles s (ins_xchg i s)" "settles s (ins_xchgc i s)"
    "settles s (ins_jmp i s)" "settles s (ins_call i s)" "settles s (ins_not i s)" "settles s (ins_sex i s)"
    "settles s (ins_cmp i s)" "settles s (ins_test i s)"
  using assms wf_ins_less[OF assms(2)] small_reg
  by (simp_all add: ins_loadi_def ins_mov_def ins_movfc_def ins_movtc_def ins_xchg_def ins_xchgc_def
      ins_jmp_def ins_call_def norm_simps keeps_refl Let_def)

lemma good_memory:
  assumes "wf s" "wf_ins i"
  shows "good id s (ins_loadid i s)" "good id s (ins_loadrd i s)" "good id s (ins_storeid i s)"
    "good id s (ins_storerd i s)" "good id s (ins_cmpxchg i s)" "good id s (ins_loadma i s)"
    "good id s (ins_storema i s)"
proof -
  note l = wf_ins_less[OF assms(2)] and k = keeps_refl[OF assms(1)]
  show "good id s (ins_loadid i s)" "good id s (ins_loadrd i s)"
    using imm.ld_eq[OF assms] rd.ld_eq[OF assms] good_load_at[OF assms(1) l(3)] k by simp_all
  show "good id s (ins_storeid i s)" "good id s (ins_storerd i s)"
    using imm.st_eq[OF assms] rd.st_eq[OF assms] good_store_at[OF assms(1) l(1)] k by simp_all
  show "good id s (ins_cmpxchg i s)"
    using assms(1) l k
    by (auto simp: ins_cmpxchg_def get_reg_norm set_reg_norm put_flag_norm keeps_wf split: prod.split
        intro!: good_bind[OF good_mem_get(1)[OF k]] good_bind[OF good_mem_write(1)[OF k]])
  show "good id s (ins_loadma i s)"
    using assms(1) l k and_mask_bounds(1)
    by (auto simp: ins_loadma_def get_reg_norm set_reg_norm keeps_wf Let_def split: prod.split
        intro!: good_bind[OF good_loadma_loop[OF k]])
  show "good id s (ins_storema i s)"
    using assms(1) l k
    by (auto simp: ins_storema_def get_reg_norm set_reg_norm keeps_wf Let_def split: prod.split
        intro!: good_bind[OF good_storema_loop[OF k]])
qed

lemma settles_alu:
  assumes "wf s" "wf_ins i"
  shows "settles s (ins_add i s)" "settles s (ins_sub i s)" "settles s (ins_mul i s)"
    "settles s (ins_smul i s)" "settles s (ins_and i s)" "settles s (ins_or i s)" "settles s (ins_xor i s)"
    "settles s (ins_div i s)" "settles s (ins_mod i s)" "settles s (ins_sdiv i s)"
    "settles s (ins_shl i s)" "settles s (ins_shr i s)" "settles s (ins_sar i s)"
  by (rule settles_of_total, rule add.total[OF assms] sub.total[OF assms] mul.total[OF assms]
      smul.total[OF assms] band.total[OF assms] bor.total[OF assms] bxor.total[OF assms]
      udiv.total[OF assms] umod.total[OF assms] sdiv.total[OF assms] shl.total[OF assms]
      shr.total[OF assms] sar.total[OF assms])+

section \<open>What a pass keeps\<close>

text \<open>
  The invariant of the machine between two passes: sixteen registers of each kind, 128 ports, and
  none but the program's own handlers, which never touch the emulator context.
\<close>

definition wf_machine :: "machine \<Rightarrow> bool" where
  "wf_machine m \<longleftrightarrow> wf (ectx m) \<and> wf_ports m \<and> null_ports m"

definition keeps_machine :: "machine \<Rightarrow> machine \<Rightarrow> bool" where
  "keeps_machine m m' \<longleftrightarrow> keeps (ectx m) (ectx m') \<and> wf_ports m' \<and> null_ports m' \<and> ports m' = ports m"

text \<open>
  Where an instruction may stop: one of the seven that access memory at a cell past its end, or \<open>IN\<close> at a
  port past the table.
\<close>

definition memory_ops :: "byte set" where
  "memory_ops = {OP_LOADID, OP_LOADRD, OP_STOREID, OP_STORERD, OP_CMPXCHG, OP_LOADMA, OP_STOREMA}"

definition machine_fault :: "instruction_context \<Rightarrow> machine \<Rightarrow> stop \<Rightarrow> bool" where
  "machine_fault i m e \<longleftrightarrow>
     (opcode i \<in> memory_ops \<and> (\<exists>a. e = Mem_oob a \<and> msize (ectx m) \<le> a)) \<or>
     (opcode i = OP_IN \<and> (\<exists>p. p = ucast (reg_of (ectx m) (opb i)) \<and> 128 \<le> p \<and> e = Port_oob p))"

definition good_machine :: "instruction_context \<Rightarrow> machine \<Rightarrow> stop + machine \<Rightarrow> bool" where
  "good_machine i m r \<longleftrightarrow> (case r of Inl e \<Rightarrow> machine_fault i m e | Inr m' \<Rightarrow> keeps_machine m m')"

lemma on_ectx_good:
  "wf_machine m \<Longrightarrow> opcode i \<in> memory_ops \<Longrightarrow> good id (ectx m) (f (ectx m)) \<Longrightarrow> good_machine i m (on_ectx f m)"
  "wf_machine m \<Longrightarrow> settles (ectx m) (f (ectx m)) \<Longrightarrow> good_machine i m (on_ectx f m)"
  by (cases "f (ectx m)";
      auto simp: on_ectx_def good_machine_def machine_fault_def keeps_machine_def wf_machine_def)+

lemma opb_mask: "wf_ins i \<Longrightarrow> opb i AND 0x7F = opb i"
proof -
  assume "wf_ins i"
  then have "take_bit 7 (opb i) = opb i"
    using less_trans[of "unat (opb i)" 16 128]
    by (simp add: wf_ins_def word_less_nat_alt word_unat_eq_iff unsigned_take_bit_eq take_bit_nat_eq_self)
  then show ?thesis by (simp add: mask_7 take_bit_eq_mask)
qed

lemma ins_in_good:
  assumes "wf_machine m" "wf_ins i" "opcode i = OP_IN"
  shows "good_machine i m (ins_in i m)"
proof -
  let ?p = "ucast (reg_of (ectx m) (opb i)) :: byte"
  have r: "get_reg (opb i AND 0x7F) (ectx m) = Inr (reg_of (ectx m) (opb i))"
    using assms by (simp add: opb_mask get_reg_norm wf_machine_def wf_ins_less)
  show ?thesis
  proof (cases "?p < 128")
    case True
    then have "pio_read ?p m = Inr (if ports m ! unat ?p = None then ucast ?p else latch m, m)"
      using assms(1) by (intro pio_read_null) (simp_all add: wf_machine_def)
    then show ?thesis
      using assms
      by (simp add: ins_in_def r good_machine_def keeps_machine_def wf_machine_def set_reg_norm
          wf_ins_less keeps_refl)
  next
    case False
    then have "pio_read ?p m = Inl (Port_oob ?p)"
      using assms(1) by (simp add: pio_read_def wf_machine_def wf_ports_def word_less_nat_alt)
    then show ?thesis
      using assms False by (simp add: ins_in_def r good_machine_def machine_fault_def not_less)
  qed
qed

lemma ucast_and_7F: "(ucast (x AND 0x7F :: dword) :: byte) < 128"
proof -
  have "(ucast (x AND 0x7F :: dword) :: byte) = ucast x AND mask 7"
    by (rule bit_word_eqI) (auto simp: mask_7 bit_simps)
  then show ?thesis using and_mask_less_size[of 7 "ucast x :: byte"] by (simp add: word_size)
qed

lemma ins_out_norm:
  assumes "wf_machine m" "wf_ins i"
  shows "ins_out i m = Inr (if ports m ! unat (ucast (reg_of (ectx m) (opa i) AND 0x7F) :: byte) = None
    then m else m\<lparr>latch := reg_of (ectx m) (opb i)\<rparr>)"
  using assms pio_write_null[OF _ _ ucast_and_7F]
  by (simp add: ins_out_def wf_machine_def get_reg_norm wf_ins_less)

lemma ins_out_good:
  assumes "wf_machine m" "wf_ins i"
  shows "good_machine i m (ins_out i m)"
  using assms ins_out_norm[OF assms]
  by (simp add: good_machine_def keeps_machine_def wf_machine_def keeps_refl wf_ports_def)

lemma good_if:
  "(c \<Longrightarrow> good_machine i m x) \<Longrightarrow> (\<not> c \<Longrightarrow> good_machine i m y) \<Longrightarrow>
     good_machine i m (if c then x else y)"
  by simp

lemma cpu_dispatch_good:
  assumes "wf_machine m" "wf_ins i"
  shows "good_machine i m (cpu_dispatch i m)"
proof -
  have s: "wf (ectx m)" using assms(1) by (simp add: wf_machine_def)
  have idle: "good_machine i m (Inr m)"
    using assms(1) by (simp add: good_machine_def keeps_machine_def wf_machine_def keeps_refl)
  note settles = settles_alu[OF s assms(2)] settles_moves[OF s assms(2)] and mem = good_memory[OF s assms(2)]
  show ?thesis
    unfolding cpu_dispatch_def Let_def
    by (intro good_if; (rule idle | rule ins_out_good[OF assms] | rule ins_in_good[OF assms], assumption |
          rule on_ectx_good(2)[OF assms(1)], rule settles |
          rule on_ectx_good(1)[OF assms(1)], simp add: memory_ops_def, rule mem))
qed

section \<open>Effect of a pass\<close>

lemma count_simps [simp, ectx_simps]:
  "wf (count_instruction s) = wf s" "reg_of (count_instruction s) = reg_of s"
  "creg_of (count_instruction s) = creg_of s" "get_pos (count_instruction s) = get_pos s"
  "memory_context (count_instruction s) = memory_context s" "msize (count_instruction s) = msize s"
  "mem_at (count_instruction s) = mem_at s" "fits n a (count_instruction s) = fits n a s"
  "instruction_count (statistic_context (count_instruction s)) =
     instruction_count (statistic_context s) + 1"
  by (simp_all add: count_instruction_def wf_def reg_of_def creg_of_def get_pos_def msize_def
      mem_at_def fits_def fun_eq_iff)

text \<open>The instruction that is fetched next, the machine after its fetch, and whether it runs.\<close>

definition next_ins :: "machine \<Rightarrow> instruction_context" where
  "next_ins m = ins_at (ectx m) (get_pos (ectx m))"

definition fetched :: "machine \<Rightarrow> machine" where
  "fetched m = m\<lparr>ectx := count_instruction (set_pos (get_pos (ectx m) + 4) (ectx m))\<rparr>"

definition runs :: "machine \<Rightarrow> bool" where
  "runs m \<longleftrightarrow> condition (next_ins m) = COND_ALWAYS \<or>
     cond_holds (condition (next_ins m)) (reg_of (ectx m) CPU_REG_FLGS)"

lemma wf_next_ins [simp, intro]: "wf_ins (next_ins m)"
  by (simp add: next_ins_def ins_at_def)

lemma fetched_simps [simp]:
  "wf_machine m \<Longrightarrow> wf_machine (fetched m)" "reg_of (ectx (fetched m)) = reg_of (ectx m)"
  "creg_of (ectx (fetched m)) = creg_of (ectx m)" "get_pos (ectx (fetched m)) = get_pos (ectx m) + 4"
  "memory_context (ectx (fetched m)) = memory_context (ectx m)" "msize (ectx (fetched m)) = msize (ectx m)"
  "ports (fetched m) = ports m" "latch (fetched m) = latch m" "wf (ectx (fetched m)) = wf (ectx m)"
  "instruction_count (statistic_context (ectx (fetched m))) =
     instruction_count (statistic_context (ectx m)) + 1"
  by (simp_all add: fetched_def wf_machine_def fun_eq_iff ectx_simps)

lemma cpu_pass_norm [norm_simps]:
  assumes "wf (ectx m)" "fits 4 (get_pos (ectx m)) (ectx m)"
  shows "cpu_pass m fu =
    (if \<not> runs m then Inr (Continues, fetched m, fu)
     else if opcode (next_ins m) = OP_FAIL then Inr (Returns (uint (imm16 (next_ins m))), fetched m, fu)
     else if opcode (next_ins m) = OP_STOP then
       (if fu > 0 then Inr (Continues, (fetched m)\<lparr>ectx := set_pos 0 (ectx (fetched m))\<rparr>, fu - 1)
        else Inr (Returns 0, fetched m, fu))
     else ubind (cpu_dispatch (next_ins m) (fetched m)) (\<lambda>m. Inr (Continues, m, fu)))"
proof -
  have f: "get_reg CPU_REG_FLGS (ectx (fetched m)) = Inr (reg_of (ectx m) CPU_REG_FLGS)"
    using assms(1) by (simp add: get_reg_norm)
  have pass: "cpu_pass m fu =
      ubind (if condition (next_ins m) \<noteq> COND_ALWAYS
             then ubind (get_reg CPU_REG_FLGS (ectx (fetched m))) (\<lambda>flgs. Inr (cond_holds (condition (next_ins m)) flgs))
             else Inr True) (\<lambda>run.
      if \<not> run then Inr (Continues, fetched m, fu)
      else if opcode (next_ins m) = OP_FAIL then Inr (Returns (uint (imm16 (next_ins m))), fetched m, fu)
      else if opcode (next_ins m) = OP_STOP then
        (if fu > 0 then Inr (Continues, (fetched m)\<lparr>ectx := set_pos 0 (ectx (fetched m))\<rparr>, fu - 1)
         else Inr (Returns 0, fetched m, fu))
      else ubind (cpu_dispatch (next_ins m) (fetched m)) (\<lambda>m. Inr (Continues, m, fu)))"
    using assms
    by (simp only: cpu_pass_def dec_fetch_ins_norm next_ins_def[symmetric] ubind.simps Let_def
        prod.case option.case fetched_def[symmetric])
  show ?thesis
    unfolding pass f runs_def by (cases "condition (next_ins m) = COND_ALWAYS") simp_all
qed

lemma cpu_pass_Inl:
  assumes "\<not> fits 4 (get_pos (ectx m)) (ectx m)"
  shows "\<exists>a. cpu_pass m fu = Inl (Mem_oob a) \<and> msize (ectx m) \<le> a"
proof -
  obtain c where c: "mem_get_dword_p (get_pos (ectx m)) (ectx m) = Inl (Mem_oob c)"
    using assms mem_get_defined(3)[of "get_pos (ectx m)" "ectx m"] mem_get_Inl(3)[of "get_pos (ectx m)" "ectx m"]
    by (cases "mem_get_dword_p (get_pos (ectx m)) (ectx m)") auto
  then show ?thesis
    using mem_get_past(1)[OF c] by (simp add: cpu_pass_def dec_fetch_ins_def mem_get_instruction_p_def)
qed

text \<open>
  The two ways a pass that starts from \<open>t\<close> can stop: at a cell past the end of memory, by its fetch or by one
  of the seven instructions that access memory, and at \<open>IN\<close> from a port of a number above 127.
\<close>

definition memory_stop :: "machine \<Rightarrow> stop \<Rightarrow> bool" where
  "memory_stop t e \<longleftrightarrow> (\<exists>a. e = Mem_oob a \<and> msize (ectx t) \<le> a) \<and>
     (fits 4 (get_pos (ectx t)) (ectx t) \<longrightarrow> runs t \<and> opcode (next_ins t) \<in> memory_ops)"

definition port_stop :: "machine \<Rightarrow> stop \<Rightarrow> bool" where
  "port_stop t e \<longleftrightarrow> fits 4 (get_pos (ectx t)) (ectx t) \<and> runs t \<and> opcode (next_ins t) = OP_IN \<and>
     (\<exists>p. p = ucast (reg_of (ectx t) (opb (next_ins t))) \<and> 128 \<le> p \<and> e = Port_oob p)"

text \<open>What a pass preserves, and the only ways it can stop.\<close>

lemma cpu_pass_good:
  assumes m: "wf_machine m"
  shows "(\<And>p m' fu'. cpu_pass m fu = Inr (p, m', fu') \<Longrightarrow>
            wf_machine m' \<and> ports m' = ports m \<and> msize (ectx m') = msize (ectx m) \<and>
            instruction_count (statistic_context (ectx m')) = instruction_count (statistic_context (ectx m)) + 1 \<and>
            (fu = 0 \<longrightarrow> fu' = 0))"
    "(\<And>e. cpu_pass m fu = Inl e \<Longrightarrow> memory_stop m e \<or> port_stop m e)"
proof -
  have s: "wf (ectx m)" using m by (simp add: wf_machine_def)
  have d: "good_machine (next_ins m) (fetched m) (cpu_dispatch (next_ins m) (fetched m))"
    using m by (intro cpu_dispatch_good) auto
  have k: "wf_machine m' \<and> ports m' = ports m \<and> msize (ectx m') = msize (ectx m) \<and>
      instruction_count (statistic_context (ectx m')) = instruction_count (statistic_context (ectx m)) + 1"
    if "keeps_machine (fetched m) m'" for m'
    using that fetched_simps[of m] by (simp add: keeps_machine_def keeps_def wf_machine_def)
  have self: "keeps_machine (fetched m) (fetched m)"
    using fetched_simps(1)[OF m] by (simp add: keeps_machine_def wf_machine_def keeps_refl)
  have zero: "keeps_machine (fetched m) ((fetched m)\<lparr>ectx := set_pos 0 (ectx (fetched m))\<rparr>)"
    using self by (simp add: keeps_machine_def wf_ports_def)
  show "wf_machine m' \<and> ports m' = ports m \<and> msize (ectx m') = msize (ectx m) \<and>
      instruction_count (statistic_context (ectx m')) = instruction_count (statistic_context (ectx m)) + 1 \<and>
      (fu = 0 \<longrightarrow> fu' = 0)" if r: "cpu_pass m fu = Inr (p, m', fu')" for p m' fu'
  proof -
    have fit: "fits 4 (get_pos (ectx m)) (ectx m)"
      using r cpu_pass_Inl[of m fu] by (cases "fits 4 (get_pos (ectx m)) (ectx m)") auto
    have "keeps_machine (fetched m) m' \<and> (fu = 0 \<longrightarrow> fu' = 0)"
      using r d self zero unfolding cpu_pass_norm[OF s fit]
      by (auto simp: good_machine_def split: if_splits)
    then show ?thesis using k by blast
  qed
  show "memory_stop m e \<or> port_stop m e" if r: "cpu_pass m fu = Inl e" for e
  proof (cases "fits 4 (get_pos (ectx m)) (ectx m)")
    case False
    then show ?thesis using r cpu_pass_Inl[OF False, of fu] by (auto simp: memory_stop_def)
  next
    case True
    then have "machine_fault (next_ins m) (fetched m) e \<and> runs m"
      using r d unfolding cpu_pass_norm[OF s True]
      by (auto simp: good_machine_def ubind_eq_Inl split: if_splits)
    then show ?thesis using True by (auto simp: machine_fault_def memory_stop_def port_stop_def)
  qed
qed

section \<open>Runs of the loop\<close>

text \<open>One step of the machine: a pass after which the loop goes on; and the states it can reach.\<close>

inductive cpu_step :: "machine \<Rightarrow> machine \<Rightarrow> bool" where
  "cpu_pass m 0 = Inr (Continues, m', 0) \<Longrightarrow> cpu_step m m'"

inductive reaches :: "nat \<Rightarrow> machine \<Rightarrow> machine \<Rightarrow> bool" where
  reaches_0: "reaches 0 m m"
| reaches_Suc: "cpu_step m m1 \<Longrightarrow> reaches n m1 m2 \<Longrightarrow> reaches (Suc n) m m2"

inductive_cases reaches_SucE: "reaches (Suc n) m m2"
inductive_cases reaches_0E: "reaches 0 m m2"
inductive_simps cpu_step_iff: "cpu_step m m'"

lemma reaches_trans: "reaches k m m1 \<Longrightarrow> reaches n m1 m2 \<Longrightarrow> reaches (k + n) m m2"
  by (induction rule: reaches.induct) (auto intro: reaches.intros)

lemma reaches_wf:
  "reaches n m m' \<Longrightarrow> wf_machine m \<Longrightarrow>
     wf_machine m' \<and> ports m' = ports m \<and> msize (ectx m') = msize (ectx m) \<and>
     instruction_count (statistic_context (ectx m')) =
       instruction_count (statistic_context (ectx m)) + of_nat n"
proof (induction rule: reaches.induct)
  case (reaches_Suc m m1 n m2)
  then show ?case
    using cpu_pass_good(1)[OF reaches_Suc.prems, of 0 Continues m1 0]
    by (simp add: cpu_step_iff algebra_simps)
qed simp

text \<open>The loop after steps that continue is the loop where they lead.\<close>

lemma cpu_loop_step: "cpu_step m m' \<Longrightarrow> cpu_loop False m 0 = cpu_loop False m' 0"
  by (subst cpu_loop.simps) (simp add: cpu_step_iff)

lemma cpu_loop_reaches: "reaches n m m' \<Longrightarrow> cpu_loop False m 0 = cpu_loop False m' 0"
  by (induction rule: reaches.induct) (simp_all add: cpu_loop_step)

lemma cpu_loop_done:
  "cpu_pass m 0 = Inr (Returns r, m', fu) \<Longrightarrow> cpu_loop step m 0 = Some (Inr (r, m'))"
  "cpu_pass m 0 = Inl e \<Longrightarrow> cpu_loop step m 0 = Some (Inl e)"
  by (subst cpu_loop.simps, simp)+

text \<open>With \<open>step\<close> set the loop is one pass.\<close>

definition once :: "machine \<Rightarrow> stop + (int \<times> machine)" where
  "once m = ubind (cpu_pass m 0) (\<lambda>(p, m', _). Inr (case p of Returns r \<Rightarrow> r | Continues \<Rightarrow> -1, m'))"

lemma cpu_loop_once: "cpu_loop True m 0 = Some (once m)"
  by (subst cpu_loop.simps) (auto simp: once_def split: sum.split pass.split)

text \<open>Every run of the loop that ends does so after finitely many steps.\<close>

definition ends_with :: "machine \<Rightarrow> stop + (int \<times> machine) \<Rightarrow> bool" where
  "ends_with m r \<longleftrightarrow> (\<exists>n m'. reaches n m m' \<and>
     ((\<exists>v m''. cpu_pass m' 0 = Inr (Returns v, m'', 0) \<and> r = Inr (v, m'')) \<or>
      (\<exists>e. cpu_pass m' 0 = Inl e \<and> r = Inl e)))"

lemma ends_with_step: "cpu_step m m1 \<Longrightarrow> ends_with m1 r \<Longrightarrow> ends_with m r"
  unfolding ends_with_def using reaches_Suc by blast

lemma cpu_loop_ends_aux:
  assumes "cpu_loop step m fu = Some r"
  shows "\<not> step \<longrightarrow> fu = 0 \<longrightarrow> wf_machine m \<longrightarrow> ends_with m r"
proof (rule cpu_loop.raw_induct[where P = "\<lambda>step m fu r. \<not> step \<longrightarrow> fu = 0 \<longrightarrow> wf_machine m \<longrightarrow> ends_with m r",
      OF _ assms], intro impI)
  fix loop step m fu r
  assume IH: "\<And>step m fu r. loop step m fu = Some r \<Longrightarrow> \<not> step \<longrightarrow> fu = 0 \<longrightarrow> wf_machine m \<longrightarrow> ends_with m r"
    and body: "(case cpu_pass m fu of Inl e \<Rightarrow> Some (Inl e)
        | Inr (p, m, fu) \<Rightarrow> (case p of Returns r \<Rightarrow> Some (Inr (r, m))
            | Continues \<Rightarrow> if step then Some (Inr (-1, m)) else loop step m fu)) = Some r"
    and m: "\<not> step" "fu = 0" "wf_machine m"
  show "ends_with m r"
  proof (cases "cpu_pass m 0")
    case (Inl e)
    then show ?thesis using body m(2) reaches_0 by (fastforce simp: ends_with_def)
  next
    case (Inr x)
    then obtain p m1 f where x: "cpu_pass m 0 = Inr (p, m1, f)" by (cases x) auto
    note g = cpu_pass_good(1)[OF m(3) x]
    show ?thesis
    proof (cases p)
      case (Returns v)
      then show ?thesis using body m(2) x g reaches_0 by (fastforce simp: ends_with_def)
    next
      case Continues
      then have "cpu_step m m1" "ends_with m1 r"
        using body m(1,2) x g IH[of step m1 0 r] by (auto simp: cpu_step_iff)
      then show ?thesis by (rule ends_with_step)
    qed
  qed
qed

lemma cpu_loop_ends: "wf_machine m \<Longrightarrow> cpu_loop False m 0 = Some r \<Longrightarrow> ends_with m r"
  using cpu_loop_ends_aux[of False m 0 r] by simp

text \<open>Where a run that stops has come to, and what a run that returns has kept.\<close>

lemma run_stops:
  assumes "wf_machine m" and "cpu_execute m step = Some (Inl e)"
  shows "\<exists>n t. reaches n m t \<and> (step \<noteq> 0 \<longrightarrow> n = 0) \<and> (memory_stop t e \<or> port_stop t e) \<and>
      msize (ectx t) = msize (ectx m)"
proof (cases "step = 0")
  case True
  then obtain n t where t: "reaches n m t" "cpu_pass t 0 = Inl e"
    using cpu_loop_ends[OF assms(1), of "Inl e"] assms(2) by (auto simp: cpu_execute_def ends_with_def)
  then show ?thesis
    using True reaches_wf[OF t(1) assms(1)] cpu_pass_good(2)[of t 0 e] by blast
next
  case False
  then have "cpu_pass m 0 = Inl e"
    using assms(2) by (auto simp: cpu_execute_def cpu_loop_once once_def ubind_eq_Inl)
  then show ?thesis using cpu_pass_good(2)[OF assms(1)] reaches_0[of m] by blast
qed

lemma run_keeps:
  assumes "wf_machine m" and "cpu_execute m step = Some (Inr (r, m'))"
  shows "wf_machine m' \<and> ports m' = ports m \<and> msize (ectx m') = msize (ectx m)"
proof (cases "step = 0")
  case True
  then obtain n t where t: "reaches n m t" "cpu_pass t 0 = Inr (Returns r, m', 0)"
    using cpu_loop_ends[OF assms(1), of "Inr (r, m')"] assms(2) by (auto simp: cpu_execute_def ends_with_def)
  then show ?thesis
    using reaches_wf[OF t(1) assms(1)] cpu_pass_good(1)[of t 0 "Returns r" m' 0] by auto
next
  case False
  then obtain p f where "cpu_pass m 0 = Inr (p, m', f)"
    using assms(2) by (auto simp: cpu_execute_def cpu_loop_once once_def)
  then show ?thesis using cpu_pass_good(1)[OF assms(1)] by blast
qed

section \<open>Properties\<close>

text \<open>
  C4. The only ways a run of the processor can leave defined behaviour: it has come to a state whose next
  pass accesses a cell past the end of the emulated memory, by fetching there or by executing one of
  the seven instructions that access memory, or executes an \<open>IN\<close> whose port register ends in a byte of
  128 or more, the number that the code masks in the wrong place; that byte is the port it stops at.
  No \<open>OUT\<close> ever stops, and no instruction word whatsoever makes the processor index its registers
  out of range. With \<open>step\<close> set the state is the one the call starts in. Every run that returns keeps
  the register files, the port table and the memory size as they were.
\<close>

theorem cpu_faults:
  assumes "wf_machine m"
  shows "(cpu_execute m step = Some (Inl e) \<longrightarrow>
      (\<exists>n t. reaches n m t \<and> (step \<noteq> 0 \<longrightarrow> n = 0) \<and>
        ((\<exists>a \<ge> msize (ectx m). e = Mem_oob a \<and>
            (fits 4 (get_pos (ectx t)) (ectx t) \<longrightarrow>
               runs t \<and> opcode (next_ins t) \<in> {OP_LOADID, OP_LOADRD, OP_STOREID, OP_STORERD, OP_CMPXCHG,
                                               OP_LOADMA, OP_STOREMA})) \<or>
         (\<exists>p \<ge> 128. e = Port_oob p \<and> fits 4 (get_pos (ectx t)) (ectx t) \<and> runs t \<and>
            opcode (next_ins t) = OP_IN \<and> p = ucast (reg_of (ectx t) (opb (next_ins t))))))) \<and>
    (cpu_execute m step = Some (Inr (r, m')) \<longrightarrow>
       wf_machine m' \<and> ports m' = ports m \<and> msize (ectx m') = msize (ectx m))"
proof -
  have fault: "\<exists>n t. reaches n m t \<and> (step \<noteq> 0 \<longrightarrow> n = 0) \<and> (memory_stop t e \<or> port_stop t e) \<and>
      msize (ectx t) = msize (ectx m)" if "cpu_execute m step = Some (Inl e)"
    using that run_stops[OF assms] by blast
  have "cpu_execute m step = Some (Inr (r, m')) \<longrightarrow>
      wf_machine m' \<and> ports m' = ports m \<and> msize (ectx m') = msize (ectx m)"
    using run_keeps[OF assms] by blast
  with fault show ?thesis
    unfolding memory_stop_def port_stop_def memory_ops_def by (intro conjI impI) fastforce+
qed


text \<open>A machine for worked examples: \<open>d\<close> at address \<open>a\<close> of a zeroed memory, pointer at zero.\<close>

definition sample_machine :: "dword \<Rightarrow> dword \<Rightarrow> machine" where
  "sample_machine d a = pio_init (pio_statics (put_dword d a (sample_ectx 64)))"

lemma sample_machine_simps [simp]:
  "wf_machine (sample_machine d a)" "ectx (sample_machine d a) = put_dword d a (sample_ectx 64)"
  "get_pos (ectx (sample_machine d a)) = 0" "msize (put_dword d a (sample_ectx 64)) = 64"
proof -
  have e: "ectx (sample_machine d a) = put_dword d a (sample_ectx 64)"
    by (simp add: sample_machine_def pio_init_def pio_statics_def)
  then show "ectx (sample_machine d a) = put_dword d a (sample_ectx 64)"
    "get_pos (ectx (sample_machine d a)) = 0" "msize (put_dword d a (sample_ectx 64)) = 64"
    by simp_all
  have "wf (ectx (sample_machine d a))" by (simp add: e)
  then show "wf_machine (sample_machine d a)"
    by (simp add: wf_machine_def) (simp add: sample_machine_def)
qed

lemma next_ins_sample [simp]:
  "next_ins (sample_machine d 0) =
     decode_bytes (ucast d) (ucast (drop_bit 8 d)) (ucast (drop_bit 16 d)) (ucast (drop_bit 24 d))"
  by (simp add: next_ins_def ins_at_def mem_at_put_dword)

theorem cpu_faults_witness:
  "\<exists>m. reg_of (ectx m) 1 = 200 \<and> cpu_execute m 0 = Some (Inl (Port_oob 200)) \<and>
     (\<exists>n t. reaches n m t \<and> runs t \<and> opcode (next_ins t) = OP_IN)"
proof -
  let ?s = "put_dword 0x00210019 0 (upd_reg 1 200 (sample_ectx 64))"
  let ?m = "pio_init (pio_statics ?s)"
  have e: "ectx ?m = ?s" by (simp add: pio_init_def pio_statics_def)
  have wf: "wf_machine ?m"
    using e sample_machine_simps(1)[of 0 0] by (simp add: wf_machine_def sample_machine_def wf_ports_def null_ports_def pio_init_def pio_statics_def)
  have pos: "get_pos (upd_reg 1 200 (sample_ectx 64)) = 0" by (simp add: pos_upd)
  have i: "next_ins ?m = decode_bytes 0x19 0 0x21 0"
    by (simp add: next_ins_def ins_at_def e pos mem_at_put_dword decode_bytes_inj)
  have run: "runs ?m" "opcode (next_ins ?m) = OP_IN" "opb (next_ins ?m) = 1"
    by (simp_all only: runs_def i) (simp_all add: decode_bytes_def)
  have fit: "fits 4 (get_pos (ectx ?m)) (ectx ?m)" by (simp add: e pos) (simp add: fits_def ectx_simps)
  let ?f = "fetched ?m"
  have f: "wf (ectx ?f)" "reg_of (ectx ?f) 1 = 200" "length (ports ?f) = 128"
    using wf e by (simp_all add: wf_machine_def wf_ports_def reg_of_upd)
  have "get_reg (opb (next_ins ?m) AND 0x7F) (ectx ?f) = Inr 200"
    using f(1,2) by (simp add: run(3) get_reg_norm)
  moreover have "pio_read 200 ?f = Inl (Port_oob 200)" using f(3) by (simp add: pio_read_def)
  ultimately have "cpu_dispatch (next_ins ?m) ?f = Inl (Port_oob 200)"
    by (simp add: cpu_dispatch_def run(2) ins_in_def)
  then have "cpu_pass ?m 0 = Inl (Port_oob 200)"
    using run wf by (simp add: cpu_pass_norm[OF _ fit] wf_machine_def)
  then have stop: "cpu_execute ?m 0 = Some (Inl (Port_oob 200))"
    by (simp add: cpu_execute_def cpu_loop_done)
  have "reg_of (ectx ?m) 1 = 200" by (simp add: e reg_of_upd)
  moreover have "\<exists>n t. reaches n ?m t \<and> runs t \<and> opcode (next_ins t) = OP_IN"
    using cpu_faults[OF wf, of 0 "Port_oob 200"] stop by auto
  ultimately show ?thesis using stop by blast
qed


text \<open>
  The condition codes come in complementary pairs: of each pair exactly one lets an instruction
  run, whatever the flags register holds; \<open>NF\<close> runs exactly when all six flags are clear.
\<close>

lemma conditions_complementary:
  "(\<forall>(c, n) \<in> {(COND_IZ, COND_NZ), (COND_IS, COND_NS), (COND_IO, COND_NO), (COND_IP, COND_NP),
       (COND_IZIS, COND_NZNS), (COND_IZIC, COND_NZNC), (COND_IC, COND_NC)}.
     cond_holds c f \<longleftrightarrow> \<not> cond_holds n f) \<and>
   (cond_holds COND_NF f \<longleftrightarrow> f AND 0x3F = 0)"
proof -
  have b: "(f AND 1 \<noteq> 0) = bit f 0" "(f AND 2 \<noteq> 0) = bit f 1" "(f AND 4 \<noteq> 0) = bit f 2"
    "(f AND 8 \<noteq> 0) = bit f 3" "(f AND 16 \<noteq> 0) = bit f 4" "(f AND 32 \<noteq> 0) = bit f 5"
    using and_exp_eq_0_iff_not_bit[of f 0] and_exp_eq_0_iff_not_bit[of f 1] and_exp_eq_0_iff_not_bit[of f 2]
      and_exp_eq_0_iff_not_bit[of f 3] and_exp_eq_0_iff_not_bit[of f 4] and_exp_eq_0_iff_not_bit[of f 5]
    by (simp_all add: bit_0)
  have six: "n < 6 \<longleftrightarrow> n = 0 \<or> n = 1 \<or> n = 2 \<or> n = 3 \<or> n = 4 \<or> n = 5" for n :: nat by auto
  have "f AND 0x3F = 0 \<longleftrightarrow> (\<forall>n < 6. \<not> bit f n)"
  proof -
    have "bit (f AND mask 6) n \<longleftrightarrow> bit f n \<and> n < 6" for n
      by (auto simp: bit_and_iff bit_mask_iff)
    then show ?thesis unfolding mask_6 by (metis bit_eqI bit_0_eq bot_apply bot_bool_def)
  qed
  also have "\<dots> \<longleftrightarrow> \<not> bit f 0 \<and> \<not> bit f 1 \<and> \<not> bit f 2 \<and> \<not> bit f 3 \<and> \<not> bit f 4 \<and> \<not> bit f 5"
    unfolding six by blast
  finally have nf: "cond_holds COND_NF f \<longleftrightarrow> f AND 0x3F = 0"
    by (auto simp: cond_holds_def Let_def b)
  show ?thesis using nf by (auto simp: cond_holds_def Let_def)
qed

lemma conditions_complementary_witness:
  "(cond_holds COND_IZ 1 \<longleftrightarrow> \<not> cond_holds COND_NZ 1) \<and> cond_holds COND_NF 0xFFFFFFC0"
  using conditions_complementary[of 1] conditions_complementary[of "0xFFFFFFC0"] by simp

text \<open>
  C22. \<open>CMP\<close> followed by a conditional instruction is a comparison: after \<open>CMP a, b\<close> the conditions
  \<open>IZ\<close>, \<open>IC\<close>, \<open>IZIC\<close> and \<open>IS\<close>, \<open>IZIS\<close> hold exactly when \<open>a = b\<close>, when \<open>a < b\<close> and \<open>a \<le> b\<close> as unsigned
  numbers, and when \<open>a < b\<close> and \<open>a \<le> b\<close> as signed numbers.
\<close>

theorem cmp_conditions:
  assumes "wf s" "wf_ins i" "a = reg_of s (opa i)" "b = opb_of i s"
  shows "\<exists>s'. ins_cmp i s = Inr s' \<and> same_but {CPU_REG_FLGS} s s' \<and>
    (let holds = (\<lambda>c. cond_holds c (reg_of s' CPU_REG_FLGS)) in
      (holds COND_IZ \<longleftrightarrow> a = b) \<and>
      (holds COND_IC \<longleftrightarrow> unat a < unat b) \<and> (holds COND_IZIC \<longleftrightarrow> unat a \<le> unat b) \<and>
      (holds COND_IS \<longleftrightarrow> sint a < sint b) \<and> (holds COND_IZIS \<longleftrightarrow> sint a \<le> sint b))"
proof -
  let ?s' = "upd_flag (sint a < sint b) FLGS_S (upd_flag (a < b) FLGS_C (upd_flag (a = b) FLGS_Z s))"
  have run: "ins_cmp i s = Inr ?s'" using assms by (simp add: cmp_test_norms Let_def)
  have "flag ?s' FLGS_Z = (a = b)" "flag ?s' FLGS_C = (a < b)" "flag ?s' FLGS_S = (sint a < sint b)"
    using assms(1) by (simp_all add: flag_upd_flag)
  then have f: "(reg_of ?s' CPU_REG_FLGS AND FLGS_Z \<noteq> 0) = (a = b)"
    "(reg_of ?s' CPU_REG_FLGS AND FLGS_C \<noteq> 0) = (a < b)"
    "(reg_of ?s' CPU_REG_FLGS AND FLGS_S \<noteq> 0) = (sint a < sint b)"
    by (simp_all only: flag_def)
  have "same_but {CPU_REG_FLGS} s ?s'"
    using assms(1) by (intro same_but_upd_flag same_but_refl) simp_all
  moreover have "a = b \<or> sint a < sint b \<longleftrightarrow> sint a \<le> sint b" "a = b \<or> a < b \<longleftrightarrow> unat a \<le> unat b"
  proof -
    have "a = b \<longleftrightarrow> sint a = sint b" by (metis signed_word_eqI)
    moreover have "a = b \<longleftrightarrow> unat a = unat b" by (rule word_unat_eq_iff)
    ultimately show "a = b \<or> sint a < sint b \<longleftrightarrow> sint a \<le> sint b" "a = b \<or> a < b \<longleftrightarrow> unat a \<le> unat b"
      unfolding word_less_nat_alt by linarith+
  qed
  ultimately show ?thesis
    using run by (intro exI[of _ ?s']) (simp add: cond_holds_def Let_def f word_less_nat_alt[symmetric])
qed

theorem cmp_conditions_witness:
  "\<exists>i s s'. ins_cmp i s = Inr s' \<and> cond_holds COND_IZIC (reg_of s' CPU_REG_FLGS) \<and> reg_of s 1 = 4"
proof -
  let ?s = "upd_reg 1 4 (sample_ectx 64)" and ?i = "decode_bytes 0xD8 0 0x10 0x09"
  have v: "reg_of ?s (opa ?i) = 4" "opb_of ?i ?s = 9" "reg_of ?s 1 = 4"
    by (simp_all add: reg_of_upd opb_of_def decode_bytes_def)
  have "\<exists>s'. ins_cmp ?i ?s = Inr s' \<and>
      (cond_holds COND_IZIC (reg_of s' CPU_REG_FLGS) \<longleftrightarrow> unat (reg_of ?s (opa ?i)) \<le> unat (opb_of ?i ?s))"
    using cmp_conditions[of ?s ?i, OF _ wf_ins_decode refl refl] by (auto simp: Let_def)
  then show ?thesis unfolding v(1,2) using v(3) by auto
qed

subsection \<open>Steps of named instructions\<close>

text \<open>An instruction that runs, is neither \<open>STOP\<close> nor \<open>FAIL\<close>, and does not stop the model is a step.\<close>

lemma cpu_stepI:
  assumes "wf_machine m" "fits 4 (get_pos (ectx m)) (ectx m)" "runs m"
    "opcode (next_ins m) \<noteq> OP_FAIL" "opcode (next_ins m) \<noteq> OP_STOP"
    "cpu_dispatch (next_ins m) (fetched m) = Inr m'"
  shows "cpu_step m m'"
  using assms by (simp add: cpu_step_iff cpu_pass_norm wf_machine_def)

lemma cpu_step_skip:
  assumes "wf_machine m" "fits 4 (get_pos (ectx m)) (ectx m)" "\<not> runs m"
  shows "cpu_step m (fetched m)"
  using assms by (simp add: cpu_step_iff cpu_pass_norm wf_machine_def)

lemma on_ectx_norm: "f (ectx m) = Inr s \<Longrightarrow> on_ectx f m = Inr (m\<lparr>ectx := s\<rparr>)"
  by (simp add: on_ectx_def)

lemma ins_jmp_norm:
  "wf s \<Longrightarrow> wf_ins i \<Longrightarrow> ins_jmp i s =
     Inr (set_pos (if prefix i = PREFIX_IMM then get_pos s + of_int (sint (imm16 i)) else reg_of s (dst i)) s)"
  by (simp add: ins_jmp_def SIGNED16_def get_reg_norm wf_ins_less)

lemma ins_call_norm:
  "wf s \<Longrightarrow> wf_ins i \<Longrightarrow> ins_call i s =
     Inr (set_pos (if prefix i = PREFIX_IMM then get_pos s + of_int (sint (imm16 i))
                   else if dst i = CPU_REG_RC then get_pos s else reg_of s (dst i))
          (upd_reg CPU_REG_RC (get_pos s) s))"
  by (simp add: ins_call_def SIGNED16_def get_reg_norm set_reg_norm wf_ins_less reg_of_upd pos_upd)

lemma next_ins_eqI:
  "memory_context (ectx m') = memory_context (ectx m) \<Longrightarrow>
     next_ins m' = ins_at (ectx m) (get_pos (ectx m'))"
  by (simp add: next_ins_def ins_at_def mem_at_def)

text \<open>
  A call and its return: a \<open>CALL\<close> puts the address of the instruction behind it in \<open>RC\<close> and jumps
  (relative to that address with an immediate, to the register's value otherwise), and a \<open>JMP RC\<close>
  met later, with \<open>RC\<close> as the call left it, continues behind the call.
\<close>

theorem call_return:
  assumes "wf_machine m" "unat (get_pos (ectx m)) + 4 \<le> unat (msize (ectx m))" "runs m"
    "opcode (next_ins m) = OP_CALL"
  shows "\<exists>m1. cpu_step m m1 \<and>
      reg_of (ectx m1) CPU_REG_RC = get_pos (ectx m) + 4 \<and>
      (\<forall>r. r \<noteq> CPU_REG_RC \<longrightarrow> reg_of (ectx m1) r = reg_of (ectx m) r) \<and>
      (prefix (next_ins m) = PREFIX_IMM \<longrightarrow>
         get_pos (ectx m1) = get_pos (ectx m) + 4 + of_int (sint (imm16 (next_ins m)))) \<and>
      (prefix (next_ins m) \<noteq> PREFIX_IMM \<and> dst (next_ins m) \<noteq> CPU_REG_RC \<longrightarrow>
         get_pos (ectx m1) = reg_of (ectx m) (dst (next_ins m))) \<and>
      (\<forall>m2. wf_machine m2 \<and> unat (get_pos (ectx m2)) + 4 \<le> unat (msize (ectx m2)) \<and> runs m2 \<and>
         opcode (next_ins m2) = OP_JMP \<and> prefix (next_ins m2) = PREFIX_DWORD \<and>
         dst (next_ins m2) = CPU_REG_RC \<and> reg_of (ectx m2) CPU_REG_RC = reg_of (ectx m1) CPU_REG_RC \<longrightarrow>
         (\<exists>m3. cpu_step m2 m3 \<and> get_pos (ectx m3) = get_pos (ectx m) + 4))"
proof -
  let ?i = "next_ins m" and ?s = "ectx (fetched m)"
  let ?pc = "get_pos (ectx m) + 4"
  let ?s1 = "set_pos (if prefix ?i = PREFIX_IMM then ?pc + of_int (sint (imm16 ?i))
                   else if dst ?i = CPU_REG_RC then ?pc else reg_of (ectx m) (dst ?i))
          (upd_reg CPU_REG_RC ?pc ?s)"
  have wf: "wf (ectx m)" using assms(1) by (simp add: wf_machine_def)
  have fit: "fits 4 (get_pos (ectx m)) (ectx m)" using assms(2) by (simp add: fits_def msize_def)
  have "cpu_dispatch ?i (fetched m) = Inr ((fetched m)\<lparr>ectx := ?s1\<rparr>)"
    using assms(4) ins_call_norm[of ?s ?i] wf
    by (simp add: cpu_dispatch_def on_ectx_def)
  then have step: "cpu_step m ((fetched m)\<lparr>ectx := ?s1\<rparr>)"
    using cpu_stepI[OF assms(1) fit assms(3)] assms(4) by simp
  have ret: "\<exists>m3. cpu_step m2 m3 \<and> get_pos (ectx m3) = ?pc"
    if m2: "wf_machine m2" "unat (get_pos (ectx m2)) + 4 \<le> unat (msize (ectx m2))" "runs m2"
      "opcode (next_ins m2) = OP_JMP" "prefix (next_ins m2) = PREFIX_DWORD"
      "dst (next_ins m2) = CPU_REG_RC" "reg_of (ectx m2) CPU_REG_RC = ?pc" for m2
  proof -
    have "wf (ectx m2)" "fits 4 (get_pos (ectx m2)) (ectx m2)"
      using m2(1,2) by (simp_all add: wf_machine_def fits_def msize_def)
    moreover have "cpu_dispatch (next_ins m2) (fetched m2) =
        Inr ((fetched m2)\<lparr>ectx := set_pos ?pc (ectx (fetched m2))\<rparr>)"
      using m2 calculation(1) ins_jmp_norm[of "ectx (fetched m2)" "next_ins m2"]
      by (simp add: cpu_dispatch_def on_ectx_def)
    ultimately have "cpu_step m2 ((fetched m2)\<lparr>ectx := set_pos ?pc (ectx (fetched m2))\<rparr>)"
      using cpu_stepI[OF m2(1) _ m2(3)] m2(4) by simp
    then show ?thesis by (intro exI[of _ "(fetched m2)\<lparr>ectx := set_pos ?pc (ectx (fetched m2))\<rparr>"])
        (simp add: pos_upd)
  qed
  show ?thesis
    using step ret wf by (intro exI[of _ "(fetched m)\<lparr>ectx := ?s1\<rparr>"]) (simp add: ectx_simps)
qed

theorem call_return_witness:
  "\<exists>m1. cpu_step (sample_machine 0x001000CC 0) m1 \<and> reg_of (ectx m1) CPU_REG_RC = 4 \<and>
     get_pos (ectx m1) = 0x14"
proof -
  let ?m = "sample_machine 0x001000CC 0"
  have i: "next_ins ?m = decode_bytes 0xCC 0 0x10 0" by (simp add: decode_bytes_inj)
  have f: "opcode (next_ins ?m) = OP_CALL" "prefix (next_ins ?m) = PREFIX_IMM"
    "imm16 (next_ins ?m) = 0x10" "runs ?m"
    by (simp_all only: runs_def i) (simp_all add: decode_bytes_def WORD_FROM_BYTES_def)
  have "unat (get_pos (ectx ?m)) + 4 \<le> unat (msize (ectx ?m))" by simp
  from call_return[OF sample_machine_simps(1) this f(4,1)] f(2,3)
  obtain m1 where "cpu_step ?m m1" "reg_of (ectx m1) CPU_REG_RC = get_pos (ectx ?m) + 4"
    "get_pos (ectx m1) = get_pos (ectx ?m) + 4 + of_int (sint (0x10 :: word16))"
    by auto
  then show ?thesis by (intro exI[of _ m1]) simp
qed

text \<open>A jump to itself: a pass leads to a state with the same instruction at the same place.\<close>

definition self_jump :: "machine \<Rightarrow> bool" where
  "self_jump m \<longleftrightarrow> wf_machine m \<and> unat (get_pos (ectx m)) + 4 \<le> unat (msize (ectx m)) \<and>
     opcode (next_ins m) = OP_JMP \<and> prefix (next_ins m) = PREFIX_IMM \<and>
     condition (next_ins m) = COND_ALWAYS \<and> imm16 (next_ins m) = 0xFFFC"

lemma self_jump_pass:
  assumes "self_jump m"
  shows "\<exists>m'. cpu_pass m 0 = Inr (Continues, m', 0) \<and> self_jump m' \<and> get_pos (ectx m') = get_pos (ectx m)"
proof -
  let ?m' = "(fetched m)\<lparr>ectx := set_pos (get_pos (ectx m)) (ectx (fetched m))\<rparr>"
  have neg: "sint (0xFFFC :: word16) = -4" by simp
  have wf: "wf (ectx m)" "fits 4 (get_pos (ectx m)) (ectx m)"
    using assms by (simp_all add: self_jump_def wf_machine_def fits_def msize_def)
  have "cpu_dispatch (next_ins m) (fetched m) = Inr ?m'"
    using assms wf(1) neg ins_jmp_norm[of "ectx (fetched m)" "next_ins m"]
    by (simp add: self_jump_def cpu_dispatch_def on_ectx_def)
  then have pass: "cpu_pass m 0 = Inr (Continues, ?m', 0)"
    using assms by (simp add: cpu_pass_norm[OF wf] runs_def self_jump_def)
  have "next_ins ?m' = next_ins m"
    by (subst next_ins_eqI[of _ m]) (simp_all add: next_ins_def ectx_simps)
  then have "self_jump ?m'"
    using cpu_pass_good(1)[OF _ pass] assms by (simp add: self_jump_def pos_upd)
  then show ?thesis using pass by (intro exI[of _ ?m']) (simp add: pos_upd)
qed

lemma self_jump_reaches: "reaches n m t \<Longrightarrow> self_jump m \<Longrightarrow> self_jump t"
proof (induction rule: reaches.induct)
  case (reaches_Suc m m1 n t)
  then show ?case using self_jump_pass[of m] by (auto simp: cpu_step_iff)
qed simp

text \<open>
  C20. A jump to itself, the instruction \<open>JMP\<close> with the immediate -4 and no condition, keeps the
  processor busy for ever: the call with \<open>step\<close> clear does not return, although each single step does.
\<close>

theorem self_jump_diverges:
  assumes "wf_machine m" "unat (get_pos (ectx m)) + 4 \<le> unat (msize (ectx m))"
    "opcode (next_ins m) = OP_JMP" "prefix (next_ins m) = PREFIX_IMM"
    "condition (next_ins m) = COND_ALWAYS" "imm16 (next_ins m) = 0xFFFC"
  shows "cpu_execute m 0 = None \<and> (\<exists>m'. cpu_execute m 1 = Some (Inr (-1, m')) \<and>
           get_pos (ectx m') = get_pos (ectx m))"
proof -
  have self: "self_jump m" using assms by (simp add: self_jump_def)
  have "cpu_loop False m 0 \<noteq> Some r" for r
  proof
    assume "cpu_loop False m 0 = Some r"
    then obtain n t where "reaches n m t" "\<forall>t'. cpu_pass t 0 \<noteq> Inr (Continues, t', 0)"
      using cpu_loop_ends[OF assms(1)] by (auto simp: ends_with_def)
    then show False using self_jump_reaches[OF _ self] self_jump_pass by blast
  qed
  then have "cpu_loop False m 0 = None" by (metis option.exhaust)
  then show ?thesis
    using self_jump_pass[OF self] by (auto simp: cpu_execute_def cpu_loop_once once_def)
qed

theorem self_jump_diverges_witness: "cpu_execute (sample_machine 0xFFFC00CB 0) 0 = None"
proof -
  let ?m = "sample_machine 0xFFFC00CB 0"
  have i: "next_ins ?m = decode_bytes 0xCB 0 0xFC 0xFF" by (simp add: decode_bytes_inj)
  have f: "opcode (next_ins ?m) = OP_JMP" "prefix (next_ins ?m) = PREFIX_IMM"
    "condition (next_ins ?m) = COND_ALWAYS" "imm16 (next_ins ?m) = 0xFFFC"
    by (simp_all only: i) (simp_all add: decode_bytes_def WORD_FROM_BYTES_def)
  have "unat (get_pos (ectx ?m)) + 4 \<le> unat (msize (ectx ?m))" by simp
  from self_jump_diverges[OF sample_machine_simps(1) this f] show ?thesis by blast
qed

text \<open>
  C29. Port instructions: \<open>OUT\<close> never stops, for it masks the port number to seven bits, and a value it
  sends to a port whose low seven bits are zero is what a later \<open>IN\<close> from port 0 delivers. \<open>IN\<close> masks
  the number of the register instead of the port, which does nothing: from a port numbered 128 or
  more it indexes the handler table out of range.
\<close>

theorem port_instructions:
  assumes "wf_machine m" "wf_ins i" "p = reg_of (ectx m) (opa i)"
  shows "(\<exists>m1. ins_out i m = Inr m1 \<and> ectx m1 = ectx m \<and> ports m1 = ports m \<and>
      (p AND 0x7F = 0 \<and> ports m ! 0 = Some pio_null \<longrightarrow>
        (\<forall>j s. wf s \<and> wf_ins j \<and> (ucast (reg_of s (opb j)) :: byte) = 0 \<longrightarrow>
          (\<exists>m2. ins_in j (m1\<lparr>ectx := s\<rparr>) = Inr m2 \<and> reg_of (ectx m2) (opa j) = reg_of (ectx m) (opb i))))) \<and>
    (128 \<le> (ucast (reg_of (ectx m) (opb i)) :: byte) \<longrightarrow>
       ins_in i m = Inl (Port_oob (ucast (reg_of (ectx m) (opb i)))))"
proof (intro conjI impI)
  let ?m1 = "if ports m ! unat (ucast (p AND 0x7F) :: byte) = None then m else m\<lparr>latch := reg_of (ectx m) (opb i)\<rparr>"
  have out: "ins_out i m = Inr ?m1" using ins_out_norm[OF assms(1,2)] by (simp add: assms(3))
  moreover have "\<exists>m2. ins_in j (?m1\<lparr>ectx := s\<rparr>) = Inr m2 \<and> reg_of (ectx m2) (opa j) = reg_of (ectx m) (opb i)"
    if z: "p AND 0x7F = 0" "ports m ! 0 = Some pio_null"
      and s: "wf s" "wf_ins j" "(ucast (reg_of s (opb j)) :: byte) = 0" for j s
  proof -
    have m1: "?m1 = m\<lparr>latch := reg_of (ectx m) (opb i)\<rparr>" using z by simp
    have "pio_read 0 (m\<lparr>latch := reg_of (ectx m) (opb i), ectx := s\<rparr>) =
        Inr (reg_of (ectx m) (opb i), m\<lparr>latch := reg_of (ectx m) (opb i), ectx := s\<rparr>)"
      using null_port.latch_read[of 0 "m\<lparr>latch := reg_of (ectx m) (opb i), ectx := s\<rparr>"] z(2) assms(1)
      by (force simp: wf_machine_def wf_ports_def)
    then show ?thesis
      unfolding m1 using s
      by (simp add: ins_in_def opb_mask get_reg_norm set_reg_norm wf_ins_less reg_of_upd)
  qed
  ultimately show "\<exists>m1. ins_out i m = Inr m1 \<and> ectx m1 = ectx m \<and> ports m1 = ports m \<and>
      (p AND 0x7F = 0 \<and> ports m ! 0 = Some pio_null \<longrightarrow>
        (\<forall>j s. wf s \<and> wf_ins j \<and> (ucast (reg_of s (opb j)) :: byte) = 0 \<longrightarrow>
          (\<exists>m2. ins_in j (m1\<lparr>ectx := s\<rparr>) = Inr m2 \<and> reg_of (ectx m2) (opa j) = reg_of (ectx m) (opb i))))"
    by (intro exI[of _ ?m1]) simp
next
  assume big: "128 \<le> (ucast (reg_of (ectx m) (opb i)) :: byte)"
  have "\<not> unat (ucast (reg_of (ectx m) (opb i)) :: byte) < length (ports m)"
    using big assms(1) by (simp add: wf_machine_def wf_ports_def word_le_nat_alt)
  then show "ins_in i m = Inl (Port_oob (ucast (reg_of (ectx m) (opb i))))"
    using assms(1,2) by (simp add: ins_in_def opb_mask get_reg_norm wf_machine_def wf_ins_less pio_read_def)
qed

theorem port_instructions_witness:
  "\<exists>m i. wf_machine m \<and> reg_of (ectx m) 1 = 200 \<and> opb i = 1 \<and> ins_in i m = Inl (Port_oob 200)"
proof -
  let ?m = "(sample_machine 0 0)\<lparr>ectx := upd_reg 1 200 (sample_ectx 64)\<rparr>" and ?i = "decode_bytes 0x19 0 0x21 0"
  have m: "wf_machine ?m"
    using sample_machine_simps(1)[of 0 0] by (simp add: wf_machine_def wf_ports_def null_ports_def)
  have v: "reg_of (ectx ?m) (opb ?i) = 200" "opb ?i = 1" by (simp_all add: reg_of_upd)
  from conjunct2[OF port_instructions[OF m wf_ins_decode refl, of "0x19" 0 "0x21" 0]]
  have "ins_in ?i ?m = Inl (Port_oob 200)" unfolding v(1) by simp
  moreover have "reg_of (ectx ?m) 1 = 200" by (simp add: reg_of_upd)
  ultimately show ?thesis using m v(2) by blast
qed

lemma add_with_carry:
  fixes a b h :: dword
  shows "2 ^ 32 * uint (if unat a + unat b \<ge> 2 ^ 32 then h + 1 else h) + uint (a + b) =
         (2 ^ 32 * uint h + uint a + uint b) mod 2 ^ 64"
proof -
  have b: "uint a < 2 ^ 32" "uint b < 2 ^ 32" "uint h < 2 ^ 32" "0 \<le> uint a" "0 \<le> uint b" "0 \<le> uint h"
    using uint_bounded[of a] uint_bounded[of b] uint_bounded[of h] by simp_all
  have cy: "unat a + unat b \<ge> 2 ^ 32 \<longleftrightarrow> 2 ^ 32 \<le> uint a + uint b"
    using of_nat_le_iff[of "2 ^ 32" "unat a + unat b", where 'a = int] by simp
  have sum: "uint (a + b) = (uint a + uint b) mod 2 ^ 32" "uint (h + 1) = (uint h + 1) mod 2 ^ 32"
    by (simp_all add: uint_word_ariths)
  have wrap: "k mod n = k - n" if "n \<le> k" "k < 2 * n" for k n :: int
  proof -
    have "k mod n = (k - n) mod n" by (rule minus_mod_self2[symmetric])
    also have "\<dots> = k - n" using that by (intro mod_pos_pos_trivial) linarith+
    finally show ?thesis .
  qed
  show ?thesis
  proof (cases "unat a + unat b \<ge> 2 ^ 32")
    case True
    then have ab: "uint (a + b) = uint a + uint b - 2 ^ 32" using wrap cy b sum(1) by simp
    show ?thesis
    proof (cases "uint h + 1 = 2 ^ 32")
      case h: True
      have "(2 ^ 32 * uint h + uint a + uint b) mod 2 ^ 64 = 2 ^ 32 * uint h + uint a + uint b - 2 ^ 64"
        using True h b cy by (intro wrap) simp_all
      then show ?thesis using True h ab sum(2) by simp
    next
      case False
      then have "uint (h + 1) = uint h + 1" using b sum(2) by simp
      then show ?thesis using True False ab b by simp
    qed
  next
    case False
    then show ?thesis using cy b sum(1) by simp
  qed
qed

text \<open>One step of an \<open>ADD\<close> that takes effect.\<close>

lemma add_step:
  assumes "wf_machine m" and "fits 4 (get_pos (ectx m)) (ectx m)" and "opcode (next_ins m) = OP_ADD" and "runs m"
    and "d = dst (next_ins m)" and "d \<noteq> CPU_REG_FLGS"
    and "a = reg_of (ectx m) (opa (next_ins m))" and "b = opb_of (next_ins m) (ectx (fetched m))"
  shows "\<exists>m'. cpu_step m m' \<and> wf_machine m' \<and> memory_context (ectx m') = memory_context (ectx m) \<and>
    get_pos (ectx m') = get_pos (ectx m) + 4 \<and> reg_of (ectx m') d = a + b \<and>
    (\<forall>r. r \<noteq> d \<and> r \<noteq> CPU_REG_FLGS \<longrightarrow> reg_of (ectx m') r = reg_of (ectx m) r) \<and>
    (flag (ectx m') FLGS_C \<longleftrightarrow> 2 ^ 32 \<le> unat a + unat b)"
proof -
  define s' where "s' = upd_flag (unat a + unat b \<ge> 2 ^ 32) FLGS_C
    (upd_flag (sint a + sint b \<noteq> sint (a + b)) FLGS_O (upd_reg d (a + b) (ectx (fetched m))))"
  have wf: "wf (ectx m)" using assms(1) by (simp add: wf_machine_def)
  have d: "d < 16" using wf_ins_less(3)[OF wf_next_ins] by (simp add: assms(5))
  have "ins_add (next_ins m) (ectx (fetched m)) = Inr s'"
    using alu_norms(1)[of "ectx (fetched m)" "next_ins m"] wf
    by (simp add: Let_def s'_def assms(5,7,8))
  then have step: "cpu_step m ((fetched m)\<lparr>ectx := s'\<rparr>)"
    using cpu_stepI[OF assms(1,2)] assms(3,4) by (simp add: cpu_dispatch_def on_ectx_def)
  then have "wf_machine ((fetched m)\<lparr>ectx := s'\<rparr>)"
    using reaches_wf[OF reaches_Suc[OF step reaches_0] assms(1)] by simp
  moreover have "get_pos s' = get_pos (ectx m) + 4" "memory_context s' = memory_context (ectx m)"
    "reg_of s' d = a + b" "\<forall>r. r \<noteq> d \<and> r \<noteq> CPU_REG_FLGS \<longrightarrow> reg_of s' r = reg_of (ectx m) r"
    "flag s' FLGS_C \<longleftrightarrow> 2 ^ 32 \<le> unat a + unat b"
    using wf d assms(6) by (simp_all add: s'_def ectx_simps)
  ultimately show ?thesis using step by (intro exI[of _ "(fetched m)\<lparr>ectx := s'\<rparr>"]) simp
qed

text \<open>
  The 64-bit addition of the test program \<open>64adder.V\<close>: the two instructions \<open>ADD lo, lo, b\<close> and,
  conditional on carry, \<open>ADD hi, hi, 1\<close> are two steps of the processor that add register \<open>b\<close> to the
  64-bit number in \<open>hi\<close> and \<open>lo\<close>, modulo 2^64, and end eight bytes further on.
\<close>

theorem add64:
  assumes m: "wf_machine m" "unat (get_pos (ectx m)) + 8 \<le> unat (msize (ectx m))"
    and i1: "opcode (next_ins m) = OP_ADD" "condition (next_ins m) = COND_ALWAYS"
      "prefix (next_ins m) = PREFIX_DWORD" "opa (next_ins m) = dst (next_ins m)"
    and i2: "i2 = ins_at (ectx m) (get_pos (ectx m) + 4)" "opcode i2 = OP_ADD" "condition i2 = COND_IC"
      "prefix i2 = PREFIX_IMM" "opa i2 = dst i2" "imm12 i2 = 1"
    and regs: "lo = dst (next_ins m)" "hi = dst i2" "lo \<noteq> hi" "lo \<noteq> CPU_REG_FLGS" "hi \<noteq> CPU_REG_FLGS"
    and num: "num = (\<lambda>s. 2 ^ 32 * uint (reg_of s hi) + uint (reg_of s lo))"
  shows "\<exists>m'. reaches 2 m m' \<and> get_pos (ectx m') = get_pos (ectx m) + 8 \<and>
      num (ectx m') = (num (ectx m) + uint (reg_of (ectx m) (opb (next_ins m)))) mod 2 ^ 64"
proof -
  let ?a = "reg_of (ectx m) lo" and ?b = "reg_of (ectx m) (opb (next_ins m))" and ?h = "reg_of (ectx m) hi"
  let ?cy = "unat ?a + unat ?b \<ge> 2 ^ 32"
  have p4: "unat (get_pos (ectx m) + 4) = unat (get_pos (ectx m)) + 4"
    using m(2) unat_dword_less[of "msize (ectx m)"] by (simp add: unat_word_ariths)
  have fit: "fits 4 (get_pos (ectx m)) (ectx m)" "fits 4 (get_pos (ectx m) + 4) (ectx m)"
    using m(2) p4 by (simp_all add: fits_def msize_def)
  have "runs m" using i1(2) by (simp add: runs_def)
  then obtain m1 where m1: "cpu_step m m1" "wf_machine m1" "memory_context (ectx m1) = memory_context (ectx m)"
    "get_pos (ectx m1) = get_pos (ectx m) + 4" "reg_of (ectx m1) lo = ?a + ?b"
    "\<forall>r. r \<noteq> lo \<and> r \<noteq> CPU_REG_FLGS \<longrightarrow> reg_of (ectx m1) r = reg_of (ectx m) r" "flag (ectx m1) FLGS_C \<longleftrightarrow> ?cy"
    using add_step[OF m(1) fit(1) i1(1) _ regs(1,4) refl refl] m(1) i1(3,4) regs(1)
    by (auto simp: opb_of_def wf_machine_def)
  have n1: "next_ins m1 = i2" by (subst next_ins_eqI[of _ m]) (simp_all add: m1(3,4) i2(1))
  have fit1: "fits 4 (get_pos (ectx m1)) (ectx m1)" using fit(2) fits_memory_context[OF m1(3)] by (simp add: m1(4))
  have run1: "runs m1 \<longleftrightarrow> ?cy" using m1(7) by (simp add: runs_def n1 i2(3) cond_holds_def Let_def flag_def)
  have two: "reaches 2 m m2" if "cpu_step m1 m2" for m2
    using m1(1) that by (metis reaches_0 reaches_Suc numeral_2_eq_2)
  note total = add_with_carry[of ?a ?b ?h]
  show ?thesis
  proof (cases ?cy)
    case True
    have i: "opcode (next_ins m1) = OP_ADD" "hi = dst (next_ins m1)" using i2(2) regs(2) n1 by simp_all
    obtain m2 where m2: "cpu_step m1 m2" "get_pos (ectx m2) = get_pos (ectx m1) + 4"
      "reg_of (ectx m2) hi = reg_of (ectx m1) hi + 1"
      "\<forall>r. r \<noteq> hi \<and> r \<noteq> CPU_REG_FLGS \<longrightarrow> reg_of (ectx m2) r = reg_of (ectx m1) r"
      using add_step[OF m1(2) fit1 i(1) _ i(2) regs(5) refl refl] run1 True i2(4-6) regs(2) n1
      by (auto simp: opb_of_def)
    then have "get_pos (ectx m2) = get_pos (ectx m) + 8" "reg_of (ectx m2) hi = ?h + 1" "reg_of (ectx m2) lo = ?a + ?b"
      using m1(4-6) regs(3-5) by simp_all
    then show ?thesis using two[OF m2(1)] total True by (intro exI[of _ m2]) (simp add: num)
  next
    case False
    then have "cpu_step m1 (fetched m1)" using cpu_step_skip[OF m1(2) fit1] run1 by simp
    moreover have "get_pos (ectx (fetched m1)) = get_pos (ectx m) + 8"
      "reg_of (ectx (fetched m1)) hi = ?h" "reg_of (ectx (fetched m1)) lo = ?a + ?b"
      using m1(2,4-6) regs(3,5) by (simp_all add: wf_machine_def)
    ultimately show ?thesis using two total False by (intro exI[of _ "fetched m1"]) (simp add: num)
  qed
qed

theorem add64_witness:
  "\<exists>m m'. reaches 2 m m' \<and> reg_of (ectx m) 0 = 0xFFFFFFFF \<and> reg_of (ectx m) 1 = 0 \<and> reg_of (ectx m) 2 = 3 \<and>
     2 ^ 32 * uint (reg_of (ectx m') 1) + uint (reg_of (ectx m') 0) = (0x100000002 :: int)"
proof -
  let ?s = "upd_reg 2 3 (upd_reg 0 0xFFFFFFFF (put_dword 0x0110D1EA 4 (put_dword 0x0002002A 0 (sample_ectx 64))))"
  let ?m = "(sample_machine 0 0)\<lparr>ectx := ?s\<rparr>"
  have m: "wf_machine ?m"
    using sample_machine_simps(1)[of 0 0] by (simp add: wf_machine_def wf_ports_def null_ports_def)
  have i1: "next_ins ?m = decode_bytes 0x2A 0 0x02 0"
    by (simp add: next_ins_def ins_at_def ectx_simps mem_at_put_dword decode_bytes_inj)
  have i2: "ins_at (ectx ?m) (get_pos (ectx ?m) + 4) = decode_bytes 0xEA 0xD1 0x10 0x01"
    by (simp add: ins_at_def ectx_simps mem_at_put_dword decode_bytes_inj)
  have r: "reg_of (ectx ?m) 0 = 0xFFFFFFFF" "reg_of (ectx ?m) 1 = 0" "reg_of (ectx ?m) 2 = 3"
    by (simp_all add: ectx_simps)
  have pos: "unat (get_pos (ectx ?m)) + 8 \<le> unat (msize (ectx ?m))" by (simp add: ectx_simps)
  have "\<exists>m'. reaches 2 ?m m' \<and> 2 ^ 32 * uint (reg_of (ectx m') 1) + uint (reg_of (ectx m') 0) =
      (2 ^ 32 * uint (reg_of (ectx ?m) 1) + uint (reg_of (ectx ?m) 0) + uint (reg_of (ectx ?m) 2)) mod (2 ^ 64 :: int)"
    using add64[OF m pos, unfolded i1 i2, OF _ _ _ _ refl _ _ _ _ _ refl refl _ _ _ refl]
    by (simp add: decode_bytes_def, blast)
  then have "\<exists>m'. reaches 2 ?m m' \<and>
      2 ^ 32 * uint (reg_of (ectx m') 1) + uint (reg_of (ectx m') 0) = (0x100000002 :: int)"
    unfolding r by simp
  then show ?thesis using r by blast
qed

end
