(* ===== verification/Emulator.thy ===== *)
theory Emulator
  imports Cpu
begin

text \<open>
  Start-up: the contexts of \<^verbatim>\<open>src/mkcontext.c\<close>, the device list of \<^verbatim>\<open>src/hw/devm.c\<close>, and the image
  loader and \<open>main\<close> of \<^verbatim>\<open>src/emulator.c\<close>. What the program does not control is a parameter: \<open>ok n x\<close>
  says whether the \<open>n\<close>-th request for memory, of \<open>x\<close> bytes, is granted; \<open>jr\<close> and \<open>jc\<close> are the contents
  of the two register blocks, which \<open>malloc\<close> leaves unspecified; \<open>files\<close> is what the file system holds
  under a path. The mutexes, the log buffer's contents and the output are left out.
\<close>

unbundle bit_operations_syntax

section \<open>Constants\<close>

abbreviation (input) VA_DEFAULT_MEMORY_SIZE :: dword where "VA_DEFAULT_MEMORY_SIZE \<equiv> 4 * 1024 * 1024"
abbreviation (input) VA_DEFAULT_CACHE_LINES :: dword where "VA_DEFAULT_CACHE_LINES \<equiv> 16"
abbreviation (input) VA_DEFAULT_CACHE_LINE_SIZE :: dword where "VA_DEFAULT_CACHE_LINE_SIZE \<equiv> 64"
abbreviation (input) VA_INIT_SSP_LOCATION :: dword where "VA_INIT_SSP_LOCATION \<equiv> 0x800"
abbreviation (input) VA_INIT_SP_LOCATION :: dword where "VA_INIT_SP_LOCATION \<equiv> 0x600"
abbreviation (input) INSTRUCTIONS_START_OFFSET :: dword where "INSTRUCTIONS_START_OFFSET \<equiv> 4096"

section \<open>Operations\<close>

text \<open>Allocation: the number of requests made so far goes in and comes out.\<close>

definition emalloc :: "(nat \<Rightarrow> nat \<Rightarrow> bool) \<Rightarrow> nat \<Rightarrow> nat \<Rightarrow> stop + nat" where
  "emalloc ok x n = (if \<not> ok n x then Inl (Exit 10) else Inr (Suc n))"

definition ecalloc :: "(nat \<Rightarrow> nat \<Rightarrow> bool) \<Rightarrow> nat \<Rightarrow> nat \<Rightarrow> nat \<Rightarrow> stop + nat" where
  "ecalloc ok num sz n = (if \<not> ok n (num * sz) then Inl (Exit 10) else Inr (Suc n))"

text \<open>The loop that creates the cache lines from number \<open>i\<close> on, with \<open>k\<close> lines left to create.\<close>

fun create_lines ::
  "(nat \<Rightarrow> nat \<Rightarrow> bool) \<Rightarrow> dword \<Rightarrow> dword \<Rightarrow> nat \<Rightarrow> nat \<Rightarrow> stop + (cache_context list \<times> nat)" where
  "create_lines ok cachelinesize i 0 n = Inr ([], n)"
| "create_lines ok cachelinesize i (Suc k) n =
     ubind (ecalloc ok (unat cachelinesize) 1 n) (\<lambda>n.
     ubind (create_lines ok cachelinesize (i + 1) k n) (\<lambda>(ls, n).
     Inr (\<lparr>cache_start = i * cachelinesize, cache = replicate (unat cachelinesize) 0,
           hit_count = 0, wb_required = 0\<rparr> # ls, n)))"

text \<open>The sizes of the structs are those of the 64-bit ABI.\<close>

definition emu_create_context ::
  "(nat \<Rightarrow> nat \<Rightarrow> bool) \<Rightarrow> (nat \<Rightarrow> dword) \<Rightarrow> (nat \<Rightarrow> dword) \<Rightarrow> dword \<Rightarrow> dword \<Rightarrow> dword \<Rightarrow>
   stop + emulator_context" where
  "emu_create_context ok jr jc memsize cachelines cachelinesize =
     (let memsize = (if memsize = 0 then VA_DEFAULT_MEMORY_SIZE else memsize);
          cachelines = (if cachelines = 0 then VA_DEFAULT_CACHE_LINES else cachelines);
          cachelinesize = (if cachelinesize = 0 then VA_DEFAULT_CACHE_LINE_SIZE else cachelinesize) in
      ubind (emalloc ok 64 0) (\<lambda>n.
      ubind (emalloc ok 32 n) (\<lambda>n.
      ubind (emalloc ok 32 n) (\<lambda>n.
      ubind (emalloc ok 32 n) (\<lambda>n.
      ubind (ecalloc ok (unat memsize) 1 n) (\<lambda>n.
      ubind (ecalloc ok (unat cachelines) 24 n) (\<lambda>n.
      ubind (emalloc ok (4 * 16) n) (\<lambda>n.
      ubind (emalloc ok (4 * 16) n) (\<lambda>n.
      ubind (create_lines ok cachelinesize 0 (unat cachelines) n) (\<lambda>(ls, n).
      ubind (ecalloc ok 0 1 n) (\<lambda>n.
      ubind (emalloc ok 512 n) (\<lambda>n.
      Inr \<lparr>memory_context = \<lparr>lines = ls, memory = (\<lambda>_. 0), memory_size = memsize,
                              cache_lines = ucast cachelines, cache_line_size = ucast cachelinesize\<rparr>,
           cpu_context = \<lparr>cregs = (map jc [0..<16])[unat CPU_CREG_SSP := VA_INIT_SSP_LOCATION,
                                   unat CPU_CREG_CR1 := CR1_PRIV_MODE, unat CPU_CREG_MR2 := 0],
                           regs = (map jr [0..<16])[unat CPU_REG_SP := VA_INIT_SP_LOCATION],
                           pos = 0, int_present = 0, ints = []\<rparr>,
           statistic_context = \<lparr>cache_miss_count = 0, cache_hits = 0, interrupt_count = 0,
                                 instruction_count = 0\<rparr>\<rparr>))))))))))))"

definition dev_init_devices :: "machine \<Rightarrow> machine" where
  "dev_init_devices m = m"

definition emu_init ::
  "(nat \<Rightarrow> nat \<Rightarrow> bool) \<Rightarrow> (nat \<Rightarrow> dword) \<Rightarrow> (nat \<Rightarrow> dword) \<Rightarrow> stop + machine" where
  "emu_init ok jr jc =
     ubind (emu_create_context ok jr jc 0 0 0) (\<lambda>s.
     Inr (dev_init_devices (pio_init (pio_statics s))))"

text \<open>\<open>memcpy\<close> stores the bytes of the file one after the other; nothing compares their number with the memory.\<close>

definition emu_load_img ::
  "(string \<Rightarrow> byte list option) \<Rightarrow> string \<Rightarrow> machine \<Rightarrow> stop + machine" where
  "emu_load_img files path m =
     (case files path of
        None \<Rightarrow> Inl (Exit 11)
      | Some filedata \<Rightarrow>
          ubind (store_seq store_cell INSTRUCTIONS_START_OFFSET filedata (ectx m)) (\<lambda>s.
          Inr (m\<lparr>ectx := set_pos INSTRUCTIONS_START_OFFSET s\<rparr>)))"

text \<open>\<open>main\<close> on the arguments \<open>argv\<close>: \<open>None\<close> where it does not return, its exit status otherwise.\<close>

definition main ::
  "(nat \<Rightarrow> nat \<Rightarrow> bool) \<Rightarrow> (nat \<Rightarrow> dword) \<Rightarrow> (nat \<Rightarrow> dword) \<Rightarrow> (string \<Rightarrow> byte list option) \<Rightarrow>
   string list \<Rightarrow> (stop + (int \<times> machine)) option" where
  "main ok jr jc files argv =
     (if length argv < 2 then Some (Inl (Exit 10))
      else case ubind (emu_init ok jr jc) (emu_load_img files (argv ! 1)) of
             Inl e \<Rightarrow> Some (Inl e)
           | Inr m \<Rightarrow> cpu_execute m 0)"

section \<open>The initial machine\<close>

text \<open>What \<open>emu_init\<close> returns when every request for memory is granted.\<close>

definition init_ectx :: "(nat \<Rightarrow> dword) \<Rightarrow> (nat \<Rightarrow> dword) \<Rightarrow> emulator_context" where
  "init_ectx jr jc =
     \<lparr>memory_context = \<lparr>lines = map (\<lambda>i. \<lparr>cache_start = of_nat i * 64, cache = replicate 64 0,
                                            hit_count = 0, wb_required = 0\<rparr>) [0..<16],
                         memory = (\<lambda>_. 0), memory_size = 4194304, cache_lines = 16, cache_line_size = 64\<rparr>,
      cpu_context = \<lparr>cregs = (map jc [0..<16])[4 := 0x800, 2 := 2, 1 := 0],
                      regs = (map jr [0..<16])[14 := 0x600], pos = 0, int_present = 0, ints = []\<rparr>,
      statistic_context = \<lparr>cache_miss_count = 0, cache_hits = 0, interrupt_count = 0,
                            instruction_count = 0\<rparr>\<rparr>"

definition init_machine :: "(nat \<Rightarrow> dword) \<Rightarrow> (nat \<Rightarrow> dword) \<Rightarrow> machine" where
  "init_machine jr jc = \<lparr>ectx = init_ectx jr jc, ports = Some pio_null # replicate 127 None, latch = 0\<rparr>"

lemma create_lines_eq:
  "create_lines ok sz i k n =
     (if \<forall>j < k. ok (n + j) (unat sz)
      then Inr (map (\<lambda>j. \<lparr>cache_start = (i + of_nat j) * sz, cache = replicate (unat sz) 0,
                          hit_count = 0, wb_required = 0\<rparr>) [0..<k], n + k)
      else Inl (Exit 10))"
proof (induction k arbitrary: i n)
  case (Suc k)
  have all: "(\<forall>j < Suc k. ok (n + j) (unat sz)) \<longleftrightarrow> ok n (unat sz) \<and> (\<forall>j < k. ok (Suc n + j) (unat sz))"
    by (simp add: All_less_Suc2)
  have up: "map f [0..<Suc k] = f 0 # map (\<lambda>j. f (Suc j)) [0..<k]" for f :: "nat \<Rightarrow> cache_context"
    by (simp add: upt_conv_Cons map_Suc_upt[symmetric] del: upt_Suc)
  show ?case
    unfolding all up by (simp add: Suc.IH ecalloc_def algebra_simps)
qed simp

text \<open>
  The requests for memory, in their order: the context, its three parts, the emulated memory, the table of
  sixteen cache lines, the two register blocks, the lines, the interrupt list (of no elements yet) and the log buffer.
\<close>

definition requests :: "nat list" where
  "requests = [64, 32, 32, 32, 4194304, 384, 64, 64] @ replicate 16 64 @ [0, 512]"

definition granted :: "(nat \<Rightarrow> nat \<Rightarrow> bool) \<Rightarrow> bool" where
  "granted ok \<longleftrightarrow> (\<forall>k < 26. ok k (requests ! k))"

lemma all_less_add: "(\<forall>k < m + n. P k) \<longleftrightarrow> (\<forall>k < m. P k) \<and> (\<forall>j < n. P (m + j))" for m n :: nat
proof -
  have "P k" if "\<forall>k < m. P k" "\<forall>j < n. P (m + j)" "k < m + n" for k
    using that(1,2)[rule_format, of k] that(2)[rule_format, of "k - m"] that(3) by (cases "k < m") auto
  then show ?thesis by auto
qed

lemma granted_iff:
  "granted ok \<longleftrightarrow> ok 0 64 \<and> ok (Suc 0) 32 \<and> ok 2 32 \<and> ok 3 32 \<and> ok 4 4194304 \<and> ok 5 384 \<and> ok 6 64 \<and> ok 7 64 \<and>
     (\<forall>j < 16. ok (8 + j) 64) \<and> ok 24 0 \<and> ok 25 512"
proof -
  let ?P = "\<lambda>k. ok k (requests ! k)"
  have few: "(\<forall>k < 8. Q k) \<longleftrightarrow> Q 0 \<and> Q 1 \<and> Q 2 \<and> Q 3 \<and> Q 4 \<and> Q 5 \<and> Q 6 \<and> Q 7"
    "(\<forall>k < 2. Q k) \<longleftrightarrow> Q 0 \<and> Q 1" for Q :: "nat \<Rightarrow> bool"
    by (simp_all add: numeral_eq_Suc All_less_Suc conj_ac)
  have first: "?P 0 = ok 0 64" "?P 1 = ok 1 32" "?P 2 = ok 2 32" "?P 3 = ok 3 32" "?P 4 = ok 4 4194304"
    "?P 5 = ok 5 384" "?P 6 = ok 6 64" "?P 7 = ok 7 64"
    and mid: "\<And>j. j < 16 \<Longrightarrow> ?P (8 + j) = ok (8 + j) 64" and last: "?P 24 = ok 24 0" "?P 25 = ok 25 512"
    by (simp_all add: requests_def nth_append)
  have "granted ok \<longleftrightarrow> (\<forall>k < 8. ?P k) \<and> (\<forall>j < 16. ?P (8 + j)) \<and> (\<forall>j < 2. ?P (24 + j))"
    using all_less_add[of 8 18 ?P] all_less_add[of 16 2 "\<lambda>j. ?P (8 + j)"] by (simp add: granted_def add.assoc[symmetric])
  also have "\<dots> \<longleftrightarrow> ok 0 64 \<and> ok (Suc 0) 32 \<and> ok 2 32 \<and> ok 3 32 \<and> ok 4 4194304 \<and> ok 5 384 \<and> ok 6 64 \<and> ok 7 64 \<and>
     (\<forall>j < 16. ok (8 + j) 64) \<and> ok 24 0 \<and> ok 25 512"
    using first mid last by (simp add: few)
  finally show ?thesis .
qed

lemma emu_create_context_eq:
  "emu_create_context ok jr jc 0 0 0 = (if granted ok then Inr (init_ectx jr jc) else Inl (Exit 10))"
  by (simp add: emu_create_context_def emalloc_def ecalloc_def create_lines_eq granted_iff init_ectx_def Let_def
      flip: numeral_2_eq_2)

lemma pio_init_statics:
  "pio_init (pio_statics s) = \<lparr>ectx = s, ports = Some pio_null # replicate 127 None, latch = 0\<rparr>"
  by (simp add: pio_init_def pio_statics_def numeral_eq_Suc)

lemma emu_init_eq: "emu_init ok jr jc = (if granted ok then Inr (init_machine jr jc) else Inl (Exit 10))"
  by (simp add: emu_init_def emu_create_context_eq dev_init_devices_def pio_init_statics init_machine_def)

lemma granted_all: "\<forall>n x. ok n x \<Longrightarrow> granted ok"
  by (simp add: granted_def)

lemma emu_init_ok: "\<forall>n x. ok n x \<Longrightarrow> emu_init ok jr jc = Inr (init_machine jr jc)"
  by (simp add: emu_init_eq granted_all)

lemma init_machine_simps [simp]:
  "wf_machine (init_machine jr jc)" "ectx (init_machine jr jc) = init_ectx jr jc"
  "msize (init_ectx jr jc) = 4194304" "mem_at (init_ectx jr jc) a = 0"
  "wf (init_ectx jr jc)"
  by (auto simp: init_machine_def init_ectx_def wf_machine_def wf_def wf_ports_def null_ports_def
      msize_def mem_at_def)

section \<open>Loading an image\<close>

lemma store_seq_frame:
  "store_seq store_cell a bs s = Inr s' \<Longrightarrow>
     cpu_context s' = cpu_context s \<and> statistic_context s' = statistic_context s \<and> msize s' = msize s"
proof (induction bs arbitrary: a s)
  case (Cons b bs)
  then obtain s1 where "store_cell a b s = Inr s1" "store_seq store_cell (a + 1) bs s1 = Inr s'" by auto
  moreover from this(1) have "cpu_context s1 = cpu_context s \<and>
      statistic_context s1 = statistic_context s \<and> msize s1 = msize s"
    by (auto simp: store_cell_def msize_def split: if_splits)
  ultimately show ?case using Cons.IH[of "a + 1" s1] by simp
qed simp

lemma cpu_context_eqs:
  assumes "cpu_context t = cpu_context s"
  shows "wf t = wf s" "reg_of t = reg_of s" "creg_of t = creg_of s" "get_pos t = get_pos s"
  using assms by (simp_all add: wf_def reg_of_def creg_of_def get_pos_def fun_eq_iff)

text \<open>A run of stores that meets a cell out of range stops at the first one.\<close>

lemma store_seq_first_fault:
  assumes "k < length bs" "\<forall>i < k. mem_ok (a + of_nat i) s" "\<not> mem_ok (a + of_nat k) s"
  shows "store_seq store_cell a bs s = Inl (Mem_oob (a + of_nat k))"
  using assms
proof (induction bs arbitrary: a s k)
  case (Cons b bs)
  show ?case
  proof (cases k)
    case 0
    then show ?thesis using Cons.prems by (simp add: store_cell_def mem_ok_def)
  next
    case (Suc j)
    then have ok: "mem_ok a s" using Cons.prems(2)[rule_format, of 0] by simp
    have "\<forall>i < j. mem_ok (a + 1 + of_nat i) (upd_mem a b s)"
    proof (intro allI impI)
      fix i assume "i < j"
      then show "mem_ok (a + 1 + of_nat i) (upd_mem a b s)"
        using Cons.prems(2)[rule_format, of "Suc i"] Suc by (simp add: add.assoc)
    qed
    moreover have "\<not> mem_ok (a + 1 + of_nat j) (upd_mem a b s)"
      using Cons.prems(3) Suc by (simp add: add.assoc)
    ultimately have "store_seq store_cell (a + 1) bs (upd_mem a b s) = Inl (Mem_oob (a + 1 + of_nat j))"
      using Cons.prems(1) Suc by (intro Cons.IH) simp_all
    then show ?thesis using Suc by (simp add: store_cell_norm[OF ok] add.assoc)
  qed
qed simp

lemma loaded_wf:
  assumes "cpu_context s = cpu_context (init_ectx jr jc)"
  shows "wf_machine ((init_machine jr jc)\<lparr>ectx := set_pos a s\<rparr>)"
proof -
  have "wf s" using cpu_context_eqs(1)[OF assms] by simp
  then show ?thesis
    using init_machine_simps(1)[of jr jc] by (simp add: wf_machine_def wf_ports_def null_ports_def)
qed

lemma load_img_fits:
  assumes "files path = Some img" "length img \<le> 4194304 - 4096"
  shows "\<exists>s. emu_load_img files path (init_machine jr jc) =
      Inr ((init_machine jr jc)\<lparr>ectx := set_pos 4096 s\<rparr>) \<and>
      cpu_context s = cpu_context (init_ectx jr jc) \<and> msize s = 4194304 \<and>
      (\<forall>a < 4194304. mem_at s a = (if unat (a - 4096) < length img then img ! unat (a - 4096) else 0))"
proof -
  let ?s0 = "init_ectx jr jc"
  have "\<forall>i < length img. mem_ok (4096 + of_nat i) ?s0"
  proof (cases "img = []")
    case False
    have "fits (length img) 4096 ?s0" using assms(2) by (simp add: fits_def flip: msize_def)
    then show ?thesis using fits_iff_cells[of "length img" 4096 ?s0] False by simp
  qed simp
  then obtain s where s: "store_seq store_cell 4096 img ?s0 = Inr s"
    using ram.store_seq_defined[of 4096 img ?s0] by auto
  note frame = store_seq_frame[OF s]
  have len: "length img \<le> 2 ^ 32" using assms(2) by simp
  have cell: "mem_at s a = (if unat (a - 4096) < length img then img ! unat (a - 4096) else 0)"
    if "a < 4194304" for a
  proof -
    have "load_cell a t = Inr (mem_at t a)" if "msize t = 4194304" for t
      using that \<open>a < 4194304\<close> by (simp add: load_cell_def msize_def mem_at_def)
    then have "Inr (mem_at s a) = load_cell a s" "load_cell a ?s0 = Inr 0" using frame by simp_all
    then show ?thesis using ram.ld_store_seq[OF s len, of a] by (simp split: if_splits)
  qed
  show ?thesis
    using s frame cell assms(1) by (intro exI[of _ s]) (simp add: emu_load_img_def)
qed

lemma image_offset:
  fixes a :: dword
  assumes "a < 4194304" and "n \<le> 4194304 - 4096"
  shows "unat (a - 4096) < n \<longleftrightarrow> 4096 \<le> unat a \<and> unat a < 4096 + n"
    and "4096 \<le> unat a \<Longrightarrow> unat (a - 4096) = unat a - 4096"
proof -
  have far: "unat (a - 4096) = unat a + 4294967296 - 4096" if "\<not> 4096 \<le> unat a"
    using that unat_sub_if'[of a 4096] by simp
  show sub: "unat (a - 4096) = unat a - 4096" if "4096 \<le> unat a"
    using that by (simp add: unat_sub word_le_nat_alt)
  show "unat (a - 4096) < n \<longleftrightarrow> 4096 \<le> unat a \<and> unat a < 4096 + n"
    using far sub assms(2) by (cases "4096 \<le> unat a") auto
qed

text \<open>What the program reads of a loaded machine.\<close>

lemma load_img_reads:
  assumes "files path = Some img" and "length img \<le> 4194304 - 4096"
  shows "\<exists>m'. emu_load_img files path (init_machine jr jc) = Inr m' \<and> wf_machine m' \<and>
    get_pos (ectx m') = 4096 \<and> reg_of (ectx m') = reg_of (init_ectx jr jc) \<and>
    (\<forall>a < 4194304. mem_get_byte_p a (ectx m') =
       Inr (True, if 4096 \<le> unat a \<and> unat a < 4096 + length img then img ! (unat a - 4096) else 0))"
proof -
  obtain s where s: "emu_load_img files path (init_machine jr jc) =
      Inr ((init_machine jr jc)\<lparr>ectx := set_pos 4096 s\<rparr>)"
    "cpu_context s = cpu_context (init_ectx jr jc)" "msize s = 4194304"
    and cell: "\<forall>a < 4194304. mem_at s a = (if unat (a - 4096) < length img then img ! unat (a - 4096) else 0)"
    using load_img_fits[of files path img jr jc, OF assms] by blast
  let ?m = "(init_machine jr jc)\<lparr>ectx := set_pos 4096 s\<rparr>"
  have "mem_get_byte_p a (ectx ?m) = Inr (True, mem_at s a)" if "a < 4194304" for a
    using that s(3) by (simp add: mem_get_byte_p_def load_cell_def msize_def memory_upd mem_at_def)
  moreover have "reg_of (ectx ?m) = reg_of (init_ectx jr jc)"
    using cpu_context_eqs(2)[OF s(2)] by (simp add: fun_eq_iff reg_of_upd)
  ultimately show ?thesis
    using s(1) loaded_wf[OF s(2)] cell image_offset[OF _ assms(2)]
    by (intro exI[of _ ?m]) (simp add: pos_upd)
qed

section \<open>Properties\<close>



text \<open>
  C23. An image that fits between address 4096 and the end of memory is placed there byte by byte, the
  rest of the memory stays zero, the registers stay as they were and the pointer is at its first
  byte. A longer image runs past the end of the memory block: nothing checks its length. A path
  that cannot be read ends the program with status 11.
\<close>

theorem load_img_correct:
  "(files path = None \<longrightarrow> emu_load_img files path (init_machine jr jc) = Inl (Exit 11)) \<and>
   (\<forall>img. files path = Some img \<and> length img \<le> 4194304 - 4096 \<longrightarrow>
      (\<exists>m'. emu_load_img files path (init_machine jr jc) = Inr m' \<and> wf_machine m' \<and>
         get_pos (ectx m') = 4096 \<and> reg_of (ectx m') = reg_of (init_ectx jr jc) \<and>
         (\<forall>i < length img. mem_get_byte_p (4096 + of_nat i) (ectx m') = Inr (True, img ! i)) \<and>
         (\<forall>a < 4194304. \<not> (4096 \<le> unat a \<and> unat a < 4096 + length img) \<longrightarrow>
            mem_get_byte_p a (ectx m') = Inr (True, 0)))) \<and>
   (\<forall>img. files path = Some img \<and> 4194304 - 4096 < length img \<longrightarrow>
      emu_load_img files path (init_machine jr jc) = Inl (Mem_oob 4194304))"
proof (intro conjI allI impI)
  show "files path = None \<Longrightarrow> emu_load_img files path (init_machine jr jc) = Inl (Exit 11)"
    by (simp add: emu_load_img_def)
next
  fix img assume img: "files path = Some img \<and> length img \<le> 4194304 - 4096"
  then obtain m' where m': "emu_load_img files path (init_machine jr jc) = Inr m'" "wf_machine m'"
    "get_pos (ectx m') = 4096" "reg_of (ectx m') = reg_of (init_ectx jr jc)"
    and reads: "\<forall>a < 4194304. mem_get_byte_p a (ectx m') =
       Inr (True, if 4096 \<le> unat a \<and> unat a < 4096 + length img then img ! (unat a - 4096) else 0)"
    using load_img_reads[of files path img jr jc] by blast
  have "mem_get_byte_p (4096 + of_nat i) (ectx m') = Inr (True, img ! i)" if "i < length img" for i
  proof -
    have "unat (of_nat i :: dword) = i" using that img by (simp add: unat_of_nat_dword)
    then have u: "unat (4096 + of_nat i :: dword) = 4096 + i" using that img by (simp add: unat_word_ariths)
    then have "(4096 + of_nat i :: dword) < 4194304" using that img by (simp add: word_less_nat_alt)
    then show ?thesis using reads that u by simp
  qed
  then show "\<exists>m'. emu_load_img files path (init_machine jr jc) = Inr m' \<and> wf_machine m' \<and>
         get_pos (ectx m') = 4096 \<and> reg_of (ectx m') = reg_of (init_ectx jr jc) \<and>
         (\<forall>i < length img. mem_get_byte_p (4096 + of_nat i) (ectx m') = Inr (True, img ! i)) \<and>
         (\<forall>a < 4194304. \<not> (4096 \<le> unat a \<and> unat a < 4096 + length img) \<longrightarrow>
            mem_get_byte_p a (ectx m') = Inr (True, 0))"
    using m' reads by auto
next
  fix img assume img: "files path = Some img \<and> 4194304 - 4096 < length img"
  let ?k = "4194304 - 4096 :: nat"
  have "\<forall>i < ?k. mem_ok (4096 + of_nat i) (init_ectx jr jc)"
    using fits_iff_cells[of ?k 4096 "init_ectx jr jc"] by (simp add: fits_def flip: msize_def)
  moreover have "\<not> mem_ok (4096 + of_nat ?k) (init_ectx jr jc)"
    by (simp add: mem_ok_def flip: msize_def)
  ultimately have "store_seq store_cell 4096 img (init_ectx jr jc) = Inl (Mem_oob (4096 + of_nat ?k))"
    using img by (intro store_seq_first_fault) simp_all
  then show "emu_load_img files path (init_machine jr jc) = Inl (Mem_oob 4194304)"
    using img by (simp add: emu_load_img_def)
qed

theorem load_img_correct_witness:
  "\<exists>m'. emu_load_img (\<lambda>_. Some [0x41, 0x42]) ''x'' (init_machine (\<lambda>_. 0) (\<lambda>_. 0)) = Inr m' \<and>
     get_pos (ectx m') = 4096 \<and> mem_get_byte_p 4097 (ectx m') = Inr (True, 0x42)"
proof -
  have "\<exists>m'. emu_load_img (\<lambda>_. Some [0x41, 0x42]) ''x'' (init_machine (\<lambda>_. 0) (\<lambda>_. 0)) = Inr m' \<and>
      get_pos (ectx m') = 4096 \<and>
      (\<forall>i < 2. mem_get_byte_p (4096 + of_nat i) (ectx m') = Inr (True, [0x41, 0x42] ! i))"
    using conjunct1[OF conjunct2[OF load_img_correct[of "\<lambda>_. Some [0x41, 0x42]" "''x''" "\<lambda>_. 0" "\<lambda>_. 0"]]]
    by auto
  then show ?thesis by (auto dest: spec[of _ 1])
qed

text \<open>
  C16. The program from its start: without an argument, or when any one of its 26 requests for memory is
  refused, it exits with status 10, and with 11 when the image cannot be read. Whatever the registers happen to hold, an image
  that begins with an unconditional \<open>STOP\<close> makes it return 0, and one that begins with an
  unconditional \<open>FAIL\<close> makes it return the 16-bit immediate that stands in its third and fourth byte.
\<close>

theorem main_outcomes:
  assumes "\<forall>k < 26. ok k (requests ! k)" and "img = b1 # b2 # b3 # b4 # rest"
    and "length img \<le> 4194304 - 4096" and "files path = Some img" "drop_bit 4 b2 = COND_ALWAYS"
  shows "(length argv < 2 \<longrightarrow> main ok' jr jc files argv = Some (Inl (Exit 10))) \<and>
    (\<forall>k < 26. \<not> ok' k (requests ! k) \<longrightarrow> main ok' jr jc files argv = Some (Inl (Exit 10))) \<and>
    (main ok jr jc (\<lambda>_. None) [prog, path] = Some (Inl (Exit 11))) \<and>
    (b1 AND 0x3F = OP_STOP \<longrightarrow> (\<exists>m. main ok jr jc files [prog, path] = Some (Inr (0, m)))) \<and>
    (b1 AND 0x3F = OP_FAIL \<longrightarrow>
       (\<exists>m. main ok jr jc files [prog, path] = Some (Inr (256 * uint b4 + uint b3, m))))"
proof -
  obtain s where s: "emu_load_img files path (init_machine jr jc) =
      Inr ((init_machine jr jc)\<lparr>ectx := set_pos 4096 s\<rparr>)"
    "cpu_context s = cpu_context (init_ectx jr jc)" "msize s = 4194304"
    and cell: "\<forall>a < 4194304. mem_at s a = (if unat (a - 4096) < length img then img ! unat (a - 4096) else 0)"
    using load_img_fits[of files path img jr jc, OF assms(4,3)] by blast
  let ?m = "(init_machine jr jc)\<lparr>ectx := set_pos 4096 s\<rparr>"
  have init: "emu_init ok jr jc = Inr (init_machine jr jc)" using assms(1) by (simp add: emu_init_eq granted_def)
  have run: "main ok jr jc files [prog, path] = cpu_loop False ?m 0"
    using s(1) by (simp add: main_def init cpu_execute_def)
  have wf: "wf (ectx ?m)" using cpu_context_eqs(1)[OF s(2)] by simp
  have fit: "fits 4 (get_pos (ectx ?m)) (ectx ?m)"
    using s(3) by (simp add: fits_def pos_upd flip: msize_def) (simp add: msize_def memory_upd)
  have "mem_at s 4096 = b1" "mem_at s 4097 = b2" "mem_at s 4098 = b3" "mem_at s 4099 = b4"
    using cell assms(2) by simp_all
  then have ins: "next_ins ?m = decode_bytes b1 b2 b3 b4"
    by (simp add: next_ins_def ins_at_def memory_upd pos_upd)
  have runs: "runs ?m" using assms(5) by (simp add: runs_def ins)
  have imm: "uint (imm16 (decode_bytes b1 b2 b3 b4)) = 256 * uint b4 + uint b3"
  proof -
    have "int (unat (imm16 (decode_bytes b1 b2 b3 b4))) = int (256 * unat b4 + unat b3)"
      using unat_WORD_FROM_BYTES[of b4 b3] by (simp add: decode_bytes_def)
    then show ?thesis by simp
  qed
  note pass = cpu_pass_norm[OF wf fit, of 0]
  have stop: "b1 AND 0x3F = OP_STOP \<longrightarrow> (\<exists>m. main ok jr jc files [prog, path] = Some (Inr (0, m)))"
    unfolding run using cpu_loop_done(1)[of ?m 0] pass runs by (simp add: ins)
  have failure: "b1 AND 0x3F = OP_FAIL \<longrightarrow>
      (\<exists>m. main ok jr jc files [prog, path] = Some (Inr (256 * uint b4 + uint b3, m)))"
    unfolding run using cpu_loop_done(1)[of ?m "256 * uint b4 + uint b3"] pass runs imm by (simp add: ins)
  have "\<forall>k < 26. \<not> ok' k (requests ! k) \<longrightarrow> main ok' jr jc files argv = Some (Inl (Exit 10))"
    by (auto simp: main_def emu_init_eq granted_def)
  then show ?thesis
    using stop failure by (simp add: main_def init emu_load_img_def)
qed

theorem main_outcomes_witness:
  "\<exists>m. main (\<lambda>n x. True) (\<lambda>_. 1) (\<lambda>_. 2) (\<lambda>_. Some [0xC1, 0, 3, 0]) [''va'', ''i''] = Some (Inr (3, m))"
proof -
  have "(0xC1 :: byte) AND 0x3F = OP_FAIL" "drop_bit 4 (0 :: byte) = COND_ALWAYS" by simp_all
  then show ?thesis
    using main_outcomes[of "\<lambda>n x. True" "[0xC1, 0, 3, 0]" "0xC1" 0 3 0 "[]" "\<lambda>_. Some [0xC1, 0, 3, 0]" "''i''"
        "[]" "\<lambda>n x. True" "\<lambda>_. 1" "\<lambda>_. 2" "''va''"]
    by simp
qed

text \<open>
  C40. Whatever the loaded image does, every state of the run keeps the shape that start-up gave the
  machine: sixteen registers of each kind, 4 MiB of memory, the null device on port 0 and nothing on
  the other 127, and an instruction counter that counts the passes of the loop, skipped instructions
  included.
\<close>

theorem run_invariant:
  assumes "emu_load_img files path (init_machine jr jc) = Inr m0" and "reaches n m0 m"
  shows "length (regs (cpu_context (ectx m))) = 16 \<and> length (cregs (cpu_context (ectx m))) = 16 \<and>
    msize (ectx m) = 4194304 \<and> ports m = Some pio_null # replicate 127 None \<and>
    instruction_count (statistic_context (ectx m)) = of_nat n"
proof -
  obtain img s where s: "store_seq store_cell 4096 img (init_ectx jr jc) = Inr s"
    "m0 = (init_machine jr jc)\<lparr>ectx := set_pos 4096 s\<rparr>"
    using assms(1) by (auto simp: emu_load_img_def ubind_eq_Inr split: option.splits)
  note frame = store_seq_frame[OF s(1)]
  have "wf_machine m0" using frame s(2) loaded_wf by simp
  from reaches_wf[OF assms(2) this] show ?thesis
    using frame by (simp add: s(2) init_machine_def wf_machine_def wf_def) (simp add: init_ectx_def msize_def set_pos_def)
qed

theorem run_invariant_witness:
  "\<exists>m. emu_load_img (\<lambda>_. Some [0x41, 0x42]) ''x'' (init_machine (\<lambda>_. 0) (\<lambda>_. 0)) = Inr m \<and>
     msize (ectx m) = 4194304 \<and> instruction_count (statistic_context (ectx m)) = 0"
proof -
  obtain m where m: "emu_load_img (\<lambda>_. Some [0x41, 0x42]) ''x'' (init_machine (\<lambda>_. 0) (\<lambda>_. 0)) = Inr m"
    using load_img_fits[of "\<lambda>_. Some [0x41, 0x42]" "''x''" "[0x41, 0x42]" "\<lambda>_. 0" "\<lambda>_. 0"] by auto
  then show ?thesis using run_invariant[OF m reaches_0] by auto
qed

end
