(* ===== verification/Emit.thy ===== *)
theory Emit
  imports Decode
begin

text \<open>
  The code emitter of the assembler, \<^verbatim>\<open>src/assembler/emit.c\<close> and \<^verbatim>\<open>src/assembler/emit.h\<close>: an image
  buffer that is written at a movable position and grows in blocks of 512 bytes, a table of labels
  and a list of the places that refer to labels. A cell of the buffer is \<open>None\<close> while nobody has
  written it: \<open>realloc\<close> leaves the bytes it adds indeterminate. The length of the list is the size of
  the heap block, which the code tracks in the field \<open>size\<close> (\<open>buf_size\<close> here); a store past the end
  of the block stops the run with \<open>Heap_oob\<close> and the index. \<open>heap_serves\<close> is no field of the struct: it
  says which request sizes the allocator serves.
\<close>

unbundle bit_operations_syntax

section \<open>Data\<close>

abbreviation (input) DYNAMIC_BUFFER_SIZE :: nat where "DYNAMIC_BUFFER_SIZE \<equiv> 512"

record label_ref =
  ref_pos :: dword
  ref_reg :: byte
  ref_name :: string
  ref_cond :: byte

record emit_context =
  buf :: "byte option list"
  buf_len_fixed :: byte
  epos :: dword
  highest_pos :: dword
  eoffset :: dword
  buf_size :: dword
  labels :: "string \<rightharpoonup> dword"
  labelrefs :: "label_ref list"
  heap_serves :: "nat \<Rightarrow> bool"

section \<open>Operations\<close>

definition emit_create_context :: "(nat \<Rightarrow> bool) \<Rightarrow> dword \<Rightarrow> byte \<Rightarrow> emit_context option" where
  "emit_create_context heap sz fixed_length =
     (if \<not> heap 48 then None
      else if \<not> heap (unat sz) then None
      else Some \<lparr>buf = replicate (unat sz) (Some 0), buf_len_fixed = fixed_length, epos = 0,
        highest_pos = 0, eoffset = 0, buf_size = sz, labels = Map.empty, labelrefs = [],
        heap_serves = heap\<rparr>)"

text \<open>\<open>yyerror\<close> of the grammar prints the message and the position and ends the program.\<close>

definition yyerror :: "emit_context \<Rightarrow> stop + 'a" where
  "yyerror ctx = Inl (Exit (- 1))"

definition set_highest_position :: "emit_context \<Rightarrow> emit_context" where
  "set_highest_position ctx =
     (if epos ctx > highest_pos ctx then ctx\<lparr>highest_pos := epos ctx\<rparr> else ctx)"

text \<open>\<open>realloc\<close> keeps the common prefix; \<open>memset\<close> stores its bytes in ascending order.\<close>

definition realloc_buf :: "nat \<Rightarrow> byte option list \<Rightarrow> byte option list" where
  "realloc_buf n b = take n b @ replicate (n - length b) None"

definition memset_buf :: "nat \<Rightarrow> byte \<Rightarrow> nat \<Rightarrow> byte option list \<Rightarrow> stop + byte option list" where
  "memset_buf p c n b =
     (if p + n \<le> length b then Inr (take p b @ replicate n (Some c) @ drop (p + n) b)
      else Inl (Heap_oob (max p (length b))))"

definition handle_exceeding_buffer :: "emit_context \<Rightarrow> dword \<Rightarrow> stop + emit_context" where
  "handle_exceeding_buffer ctx required_size =
     (if \<not> epos ctx + required_size - 1 \<ge> buf_size ctx then Inr ctx
      else if buf_len_fixed ctx \<noteq> 0 then yyerror ctx
      else
        let alloc_block = unat (highest_pos ctx) div DYNAMIC_BUFFER_SIZE + 1 in
        if \<not> heap_serves ctx (alloc_block * DYNAMIC_BUFFER_SIZE) then Inl (Exit 2)
        else
          ubind (memset_buf (unat (epos ctx)) 0 DYNAMIC_BUFFER_SIZE
            (realloc_buf (alloc_block * DYNAMIC_BUFFER_SIZE) (buf ctx))) (\<lambda>b.
          Inr (ctx\<lparr>buf := b, buf_size := buf_size ctx + of_nat DYNAMIC_BUFFER_SIZE\<rparr>)))"

text \<open>\<open>ctx->buf[ctx->pos++] = b\<close>, and a run of them.\<close>

definition put_byte :: "byte \<Rightarrow> emit_context \<Rightarrow> stop + emit_context" where
  "put_byte b ctx =
     (if unat (epos ctx) < length (buf ctx)
      then Inr (ctx\<lparr>buf := (buf ctx)[unat (epos ctx) := Some b], epos := epos ctx + 1\<rparr>)
      else Inl (Heap_oob (unat (epos ctx))))"

fun put_bytes :: "byte list \<Rightarrow> emit_context \<Rightarrow> stop + emit_context" where
  "put_bytes [] ctx = Inr ctx"
| "put_bytes (b # bs) ctx = ubind (put_byte b ctx) (put_bytes bs)"

definition emit_label :: "string \<Rightarrow> emit_context \<Rightarrow> stop + emit_context" where
  "emit_label name ctx =
     (if labels ctx name \<noteq> None then yyerror ctx
      else Inr (ctx\<lparr>labels := (labels ctx)(name \<mapsto> epos ctx + eoffset ctx)\<rparr>))"

definition emit_label_ref :: "string \<Rightarrow> byte \<Rightarrow> byte \<Rightarrow> emit_context \<Rightarrow> stop + emit_context" where
  "emit_label_ref name reg cond ctx =
     (if \<not> heap_serves ctx 24 then yyerror ctx
      else
        let elr = \<lparr>ref_pos = epos ctx, ref_reg = reg, ref_name = name, ref_cond = cond\<rparr>;
            ctx = ctx\<lparr>labelrefs := labelrefs ctx @ [elr]\<rparr>
        in ubind (handle_exceeding_buffer ctx 8) (\<lambda>ctx.
           Inr (set_highest_position (ctx\<lparr>epos := epos ctx + 8\<rparr>))))"

definition emit_label_res :: "string \<Rightarrow> emit_context \<Rightarrow> stop + dword" where
  "emit_label_res name ctx =
     (case labels ctx name of None \<Rightarrow> yyerror ctx | Some value \<Rightarrow> Inr value)"

definition emit_byte :: "byte \<Rightarrow> emit_context \<Rightarrow> stop + emit_context" where
  "emit_byte b ctx =
     ubind (handle_exceeding_buffer ctx 1) (\<lambda>ctx.
     ubind (put_byte b ctx) (\<lambda>ctx. Inr (set_highest_position ctx)))"

text \<open>The eight encoders share their first and last steps and differ in their four bytes.\<close>

definition emit_four :: "byte list \<Rightarrow> emit_context \<Rightarrow> stop + emit_context" where
  "emit_four bs ctx =
     ubind (handle_exceeding_buffer ctx 4) (\<lambda>ctx.
     ubind (put_bytes bs ctx) (\<lambda>ctx. Inr (set_highest_position ctx)))"

definition emit_fmt_i :: "byte \<Rightarrow> byte \<Rightarrow> byte \<Rightarrow> emit_context \<Rightarrow> stop + emit_context" where
  "emit_fmt_i pfx cond op =
     emit_four [push_bit 6 pfx OR op, push_bit 4 cond OR 0, 0, 0]"

definition emit_fmt_ii ::
  "byte \<Rightarrow> byte \<Rightarrow> byte \<Rightarrow> byte \<Rightarrow> byte \<Rightarrow> byte \<Rightarrow> emit_context \<Rightarrow> stop + emit_context" where
  "emit_fmt_ii pfx cond op d a b =
     emit_four [push_bit 6 pfx OR op, push_bit 4 cond OR d, push_bit 4 a OR b, 0]"

definition emit_fmt_iii ::
  "byte \<Rightarrow> byte \<Rightarrow> byte \<Rightarrow> byte \<Rightarrow> byte \<Rightarrow> word16 \<Rightarrow> emit_context \<Rightarrow> stop + emit_context" where
  "emit_fmt_iii pfx cond op d a i12 =
     emit_four [push_bit 6 pfx OR op, push_bit 4 cond OR d,
       push_bit 4 a OR ucast (drop_bit 8 i12), ucast (i12 AND 0xFF)]"

definition emit_fmt_iv ::
  "byte \<Rightarrow> byte \<Rightarrow> byte \<Rightarrow> byte \<Rightarrow> word16 \<Rightarrow> emit_context \<Rightarrow> stop + emit_context" where
  "emit_fmt_iv pfx cond op d i16 =
     emit_four [push_bit 6 pfx OR op, push_bit 4 cond OR d,
       ucast (i16 AND 0xFF), ucast (drop_bit 8 i16)]"

definition emit_fmt_v :: "byte \<Rightarrow> byte \<Rightarrow> byte \<Rightarrow> byte \<Rightarrow> emit_context \<Rightarrow> stop + emit_context" where
  "emit_fmt_v pfx cond op d =
     emit_four [push_bit 6 pfx OR op, push_bit 4 cond OR d, 0, 0]"

definition emit_fmt_vi ::
  "byte \<Rightarrow> byte \<Rightarrow> byte \<Rightarrow> byte \<Rightarrow> byte \<Rightarrow> emit_context \<Rightarrow> stop + emit_context" where
  "emit_fmt_vi pfx cond op a b =
     emit_four [push_bit 6 pfx OR op, push_bit 4 cond OR 0, push_bit 4 a OR b, 0]"

definition emit_fmt_vii ::
  "byte \<Rightarrow> byte \<Rightarrow> byte \<Rightarrow> byte \<Rightarrow> word16 \<Rightarrow> emit_context \<Rightarrow> stop + emit_context" where
  "emit_fmt_vii pfx cond op a i12 =
     emit_four [push_bit 6 pfx OR op, push_bit 4 cond OR 0,
       push_bit 4 a OR ucast (drop_bit 8 i12), ucast (i12 AND 0xFF)]"

definition emit_fmt_viii :: "byte \<Rightarrow> byte \<Rightarrow> byte \<Rightarrow> word16 \<Rightarrow> emit_context \<Rightarrow> stop + emit_context" where
  "emit_fmt_viii pfx cond op i16 =
     emit_four [push_bit 6 pfx OR op, push_bit 4 cond OR 0,
       ucast (i16 AND 0xFF), ucast (drop_bit 8 i16)]"

section \<open>Well-formed buffers\<close>

text \<open>The tracked size is that of the block, and no position beyond it was ever reached.\<close>

definition wf_emit :: "emit_context \<Rightarrow> bool" where
  "wf_emit ctx \<longleftrightarrow> length (buf ctx) = unat (buf_size ctx) \<and> highest_pos ctx \<le> buf_size ctx"

definition overwrite :: "nat \<Rightarrow> byte list \<Rightarrow> byte option list \<Rightarrow> byte option list" where
  "overwrite p bs b = take p b @ map Some bs @ drop (p + length bs) b"

lemma overwrite_simps [simp]:
  "p + length bs \<le> length b \<Longrightarrow> length (overwrite p bs b) = length b"
  "overwrite p [] b = b"
  by (simp_all add: overwrite_def)

lemma overwrite_nth:
  "p + length bs \<le> length b \<Longrightarrow> k < length b \<Longrightarrow>
     overwrite p bs b ! k = (if p \<le> k \<and> k < p + length bs then Some (bs ! (k - p)) else b ! k)"
  by (auto simp: overwrite_def nth_append)

lemma overwrite_Cons:
  "p < length b \<Longrightarrow> overwrite (Suc p) bs (b[p := Some x]) = overwrite p (x # bs) b"
  by (simp add: overwrite_def take_Suc_conv_app_nth take_update_cancel drop_update_cancel)

lemma put_bytes_norm:
  assumes "unat (epos ctx) + length bs \<le> length (buf ctx)" and "length (buf ctx) < 2 ^ 32"
  shows "put_bytes bs ctx = Inr (ctx\<lparr>buf := overwrite (unat (epos ctx)) bs (buf ctx),
    epos := epos ctx + of_nat (length bs)\<rparr>)"
  using assms
proof (induction bs arbitrary: ctx)
  case (Cons x bs)
  let ?ctx = "ctx\<lparr>buf := (buf ctx)[unat (epos ctx) := Some x], epos := epos ctx + 1\<rparr>"
  have "unat (epos ctx + 1) = Suc (unat (epos ctx))"
    using Cons.prems by (simp add: unat_word_ariths)
  then show ?case
    using Cons.prems Cons.IH[of ?ctx] by (simp add: put_byte_def overwrite_Cons algebra_simps)
qed simp

text \<open>An index that is out of the block is reported as the first such one.\<close>

lemma put_bytes_oob:
  assumes "unat (epos ctx) \<le> length (buf ctx)" and "length (buf ctx) < unat (epos ctx) + length bs"
    and "length (buf ctx) < 2 ^ 32"
  shows "put_bytes bs ctx = Inl (Heap_oob (length (buf ctx)))"
  using assms
proof (induction bs arbitrary: ctx)
  case (Cons x bs)
  let ?ctx = "ctx\<lparr>buf := (buf ctx)[unat (epos ctx) := Some x], epos := epos ctx + 1\<rparr>"
  have "unat (epos ctx + 1) = Suc (unat (epos ctx))" if "unat (epos ctx) < length (buf ctx)"
    using that Cons.prems by (simp add: unat_word_ariths)
  then show ?case
    using Cons.prems Cons.IH[of ?ctx] by (simp add: put_byte_def)
qed simp

section \<open>Room and growth\<close>

text \<open>There is room for \<open>n\<close> bytes; then nothing is reallocated.\<close>

definition room :: "nat \<Rightarrow> emit_context \<Rightarrow> bool" where
  "room n ctx \<longleftrightarrow> unat (epos ctx) + n \<le> unat (buf_size ctx)"

lemma handle_room:
  assumes "room (unat n) ctx" and "0 < n"
  shows "handle_exceeding_buffer ctx n = Inr ctx"
proof -
  have "unat (epos ctx + n - 1) = unat (epos ctx) + unat n - 1"
    using assms unat_dword_less[of "buf_size ctx"]
    by (simp add: room_def unat_word_ariths unat_sub_if' word_less_nat_alt)
  then have "\<not> epos ctx + n - 1 \<ge> buf_size ctx"
    using assms by (simp add: room_def word_le_nat_alt word_less_nat_alt)
  then show ?thesis by (simp add: handle_exceeding_buffer_def)
qed

lemma handle_no_room:
  assumes "\<not> room (unat n) ctx" and "0 < n" and "unat (epos ctx) + unat n \<le> 2 ^ 32"
  shows "epos ctx + n - 1 \<ge> buf_size ctx"
proof -
  have n: "unat (n - 1) = unat n - 1" "0 < unat n"
    using assms by (simp_all add: unat_sub_if' word_less_nat_alt Suc_le_eq)
  have "unat (epos ctx + (n - 1)) = unat (epos ctx) + unat (n - 1)"
    by (rule unat_add_lem[THEN iffD1]) (use n assms(3) in simp)
  then have "unat (epos ctx + n - 1) = unat (epos ctx) + unat n - 1"
    using n by (simp only: add_diff_eq)
  then show ?thesis
    using assms by (simp add: room_def word_le_nat_alt word_less_nat_alt)
qed

text \<open>The buffer after a growth that stays inside the new block.\<close>

definition grown :: "emit_context \<Rightarrow> emit_context" where
  "grown ctx = ctx\<lparr>
     buf := take (unat (epos ctx)) (buf ctx) @ replicate 512 (Some 0) @
       replicate (unat (buf_size ctx) - unat (epos ctx)) None,
     buf_size := buf_size ctx + 512\<rparr>"

definition grow_target :: "emit_context \<Rightarrow> nat" where
  "grow_target ctx = (unat (highest_pos ctx) div 512 + 1) * 512"

text \<open>A dynamic buffer: its size is a whole number of blocks, and one more still fits a dword.\<close>

definition dynamic :: "emit_context \<Rightarrow> bool" where
  "dynamic ctx \<longleftrightarrow> buf_len_fixed ctx = 0 \<and> 512 dvd unat (buf_size ctx) \<and>
     unat (buf_size ctx) + 512 < 2 ^ 32"

lemma grow_target_full:
  "wf_emit ctx \<Longrightarrow> dynamic ctx \<Longrightarrow> highest_pos ctx = buf_size ctx \<Longrightarrow>
     grow_target ctx = unat (buf_size ctx) + 512"
  by (auto simp: grow_target_def dynamic_def)

lemma grow_target_less:
  assumes "wf_emit ctx" and "dynamic ctx" and "highest_pos ctx \<noteq> buf_size ctx"
  shows "grow_target ctx \<le> unat (buf_size ctx)"
proof -
  from assms obtain k where k: "unat (buf_size ctx) = 512 * k" by (auto simp: dynamic_def)
  have "unat (highest_pos ctx) < 512 * k"
    using assms k by (metis wf_emit_def word_le_less_eq word_less_nat_alt)
  then have "unat (highest_pos ctx) div 512 < k" by (simp add: less_mult_imp_div_less mult.commute)
  then show ?thesis by (simp add: grow_target_def k)
qed

lemma handle_grow:
  assumes "wf_emit ctx" and "dynamic ctx" and "\<not> room (unat n) ctx" and "0 < n" and "n \<le> 512"
    and "unat (epos ctx) + unat n \<le> 2 ^ 32" and "heap_serves ctx (grow_target ctx)"
  shows "handle_exceeding_buffer ctx n =
    (if highest_pos ctx = buf_size ctx \<and> epos ctx \<le> buf_size ctx then Inr (grown ctx)
     else Inl (Heap_oob (max (unat (epos ctx)) (grow_target ctx))))"
proof -
  let ?p = "unat (epos ctx)" and ?sz = "unat (buf_size ctx)"
  have len: "length (realloc_buf k (buf ctx)) = k" for k
    by (simp add: realloc_buf_def)
  have far: "?sz < ?p + 512"
    using assms(3,5) by (simp add: room_def word_le_nat_alt)
  have step: "handle_exceeding_buffer ctx n =
    ubind (memset_buf ?p 0 512 (realloc_buf (grow_target ctx) (buf ctx))) (\<lambda>b.
      Inr (ctx\<lparr>buf := b, buf_size := buf_size ctx + 512\<rparr>))"
    using handle_no_room[OF assms(3,4,6)] assms(2,7)
    by (simp add: handle_exceeding_buffer_def dynamic_def grow_target_def add.commute)
  show ?thesis
  proof (cases "highest_pos ctx = buf_size ctx \<and> epos ctx \<le> buf_size ctx")
    case True
    then have "?p \<le> ?sz" and "grow_target ctx = ?sz + 512" and "length (buf ctx) = ?sz"
      using assms grow_target_full by (auto simp: word_le_nat_alt wf_emit_def)
    moreover from \<open>?p \<le> ?sz\<close> far have "512 - (?p + 512 - ?sz) = ?sz - ?p" by linarith
    ultimately show ?thesis
      using True far by (simp add: step memset_buf_def realloc_buf_def grown_def)
  next
    case False
    have "grow_target ctx < ?p + 512"
      using False far assms(1,2) grow_target_full[of ctx] grow_target_less[of ctx]
      by (cases "highest_pos ctx = buf_size ctx") (auto simp: word_le_nat_alt)
    with False show ?thesis by (simp add: step memset_buf_def len)
  qed
qed

section \<open>Effect of an encoder\<close>

text \<open>The shape the encoders and \<open>emit_byte\<close> share.\<close>

definition emit_run :: "byte list \<Rightarrow> emit_context \<Rightarrow> stop + emit_context" where
  "emit_run bs ctx =
     ubind (handle_exceeding_buffer ctx (of_nat (length bs))) (\<lambda>ctx.
     ubind (put_bytes bs ctx) (\<lambda>ctx. Inr (set_highest_position ctx)))"

lemma emit_four_run: "length bs = 4 \<Longrightarrow> emit_four bs = emit_run bs"
  by (simp add: emit_four_def emit_run_def fun_eq_iff)

lemma emit_byte_run: "emit_byte b = emit_run [b]"
proof -
  have "put_bytes [] = Inr" by (rule ext) simp
  then show ?thesis by (intro ext) (simp add: emit_byte_def emit_run_def)
qed

text \<open>The context after \<open>bs\<close> was written over what stood at the position.\<close>

definition written :: "byte list \<Rightarrow> emit_context \<Rightarrow> emit_context" where
  "written bs ctx = set_highest_position (ctx\<lparr>buf := overwrite (unat (epos ctx)) bs (buf ctx),
     epos := epos ctx + of_nat (length bs)\<rparr>)"

lemma set_highest_simps [simp]:
  "buf (set_highest_position ctx) = buf ctx" "epos (set_highest_position ctx) = epos ctx"
  "buf_size (set_highest_position ctx) = buf_size ctx" "labels (set_highest_position ctx) = labels ctx"
  "labelrefs (set_highest_position ctx) = labelrefs ctx" "eoffset (set_highest_position ctx) = eoffset ctx"
  "buf_len_fixed (set_highest_position ctx) = buf_len_fixed ctx"
  "heap_serves (set_highest_position ctx) = heap_serves ctx"
  "highest_pos (set_highest_position ctx) = max (highest_pos ctx) (epos ctx)"
  by (auto simp: set_highest_position_def max_def dest: less_imp_le)

lemma written_simps [simp]:
  "buf (written bs ctx) = overwrite (unat (epos ctx)) bs (buf ctx)"
  "epos (written bs ctx) = epos ctx + of_nat (length bs)" "buf_size (written bs ctx) = buf_size ctx"
  "labels (written bs ctx) = labels ctx" "labelrefs (written bs ctx) = labelrefs ctx"
  "eoffset (written bs ctx) = eoffset ctx" "buf_len_fixed (written bs ctx) = buf_len_fixed ctx"
  "heap_serves (written bs ctx) = heap_serves ctx"
  "highest_pos (written bs ctx) = max (highest_pos ctx) (epos ctx + of_nat (length bs))"
  by (simp_all add: written_def)

lemma grown_simps [simp]:
  "epos (grown ctx) = epos ctx" "buf_size (grown ctx) = buf_size ctx + 512"
  "labels (grown ctx) = labels ctx" "labelrefs (grown ctx) = labelrefs ctx"
  "eoffset (grown ctx) = eoffset ctx" "buf_len_fixed (grown ctx) = buf_len_fixed ctx"
  "heap_serves (grown ctx) = heap_serves ctx" "highest_pos (grown ctx) = highest_pos ctx"
  by (simp_all add: grown_def)

lemma unat_epos_add: "room n ctx \<Longrightarrow> unat (epos ctx + of_nat n) = unat (epos ctx) + n"
  using unat_dword_less[of "buf_size ctx"]
  by (auto simp: room_def unat_word_ariths unsigned_of_nat take_bit_nat_eq_self)

lemma emit_run_room:
  assumes "wf_emit ctx" and "room (length bs) ctx" and "bs \<noteq> []"
  shows "emit_run bs ctx = Inr (written bs ctx)" and "wf_emit (written bs ctx)"
proof -
  have n: "unat (of_nat (length bs) :: dword) = length bs"
    by (rule unat_of_nat_dword) (use assms(2) unat_dword_less[of "buf_size ctx"] in \<open>simp add: room_def\<close>)
  have "0 < (of_nat (length bs) :: dword)" using n assms(3) by (simp add: word_less_nat_alt)
  moreover have "unat (epos ctx) + length bs \<le> length (buf ctx)" "length (buf ctx) < 2 ^ 32"
    using assms unat_dword_less[of "buf_size ctx"] by (simp_all add: room_def wf_emit_def)
  ultimately show "emit_run bs ctx = Inr (written bs ctx)"
    using assms handle_room[of "of_nat (length bs)" ctx] n
    by (simp add: emit_run_def put_bytes_norm written_def)
  show "wf_emit (written bs ctx)"
    using assms unat_epos_add[of "length bs" ctx]
    by (auto simp: wf_emit_def room_def word_le_nat_alt max_def)
qed

section \<open>Appending\<close>

text \<open>
  While a program is emitted without \<open>.at\<close>, the position is the highest one, the buffer up to it
  is the image so far and the rest of it is zero. A run of bytes that does not cross a block boundary is appended.
\<close>

definition sequential :: "emit_context \<Rightarrow> bool" where
  "sequential ctx \<longleftrightarrow> wf_emit ctx \<and> buf_len_fixed ctx = 0 \<and> 512 dvd unat (buf_size ctx) \<and>
     epos ctx = highest_pos ctx \<and> (\<forall>n. heap_serves ctx n) \<and>
     set (drop (unat (epos ctx)) (buf ctx)) \<subseteq> {Some 0}"

definition image :: "emit_context \<Rightarrow> byte option list" where
  "image ctx = take (unat (highest_pos ctx)) (buf ctx)"

definition in_block :: "nat \<Rightarrow> emit_context \<Rightarrow> bool" where
  "in_block n ctx \<longleftrightarrow> unat (epos ctx) mod 512 + n \<le> 512 \<and> unat (epos ctx) + 1024 < 2 ^ 32"

lemma sequential_room:
  assumes "sequential ctx" and "in_block n ctx" and "0 < n"
  shows "room n ctx \<or> epos ctx = buf_size ctx"
proof -
  from assms obtain k where k: "unat (buf_size ctx) = 512 * k" by (auto simp: sequential_def)
  have le: "unat (epos ctx) \<le> 512 * k"
    using assms k by (auto simp: sequential_def wf_emit_def word_le_nat_alt)
  have "unat (epos ctx) + n \<le> 512 * k" if "unat (epos ctx) \<noteq> 512 * k"
  proof -
    have "unat (epos ctx) div 512 < k" using le that by (simp add: less_mult_imp_div_less mult.commute)
    then have "512 * (unat (epos ctx) div 512) + 512 \<le> 512 * k" by linarith
    moreover have "unat (epos ctx) = 512 * (unat (epos ctx) div 512) + unat (epos ctx) mod 512" by simp
    moreover have "unat (epos ctx) mod 512 + n \<le> 512" using assms(2) by (simp add: in_block_def)
    ultimately show ?thesis by linarith
  qed
  then show ?thesis by (auto simp: room_def k word_unat_eq_iff)
qed

text \<open>What making room does to a sequential context: nothing, or one more zeroed block.\<close>

lemma sequential_handle:
  assumes "sequential ctx" and "in_block (unat n) ctx" and "0 < n"
  obtains ctx' where "handle_exceeding_buffer ctx n = Inr ctx'" and "sequential ctx'"
    and "room (unat n) ctx'" and "take (unat (epos ctx)) (buf ctx') = take (unat (epos ctx)) (buf ctx)"
    and "\<And>P. P (ctx'\<lparr>buf := buf ctx, buf_size := buf_size ctx\<rparr>) \<longleftrightarrow> P ctx"
proof (cases "room (unat n) ctx")
  case True
  with assms show ?thesis by (intro that[of ctx]) (simp_all add: handle_room)
next
  case False
  have pos: "epos ctx = buf_size ctx"
    using False sequential_room[OF assms(1,2)] assms(3) by (simp add: word_less_nat_alt)
  have n: "unat n \<le> 512" "unat (epos ctx) + 1024 < 2 ^ 32"
    using assms(2) by (simp_all add: in_block_def)
  have sz: "unat (buf_size ctx + 512) = unat (buf_size ctx) + 512"
    using n pos by (simp add: unat_word_ariths)
  have dyn: "dynamic ctx" using assms(1) n(2) unfolding sequential_def dynamic_def pos by auto
  have len: "length (buf ctx) = unat (epos ctx)" using assms(1) pos by (simp add: sequential_def wf_emit_def)
  have h: "handle_exceeding_buffer ctx n = Inr (grown ctx)"
    using assms False n pos dyn
    by (subst handle_grow) (auto simp: sequential_def word_le_nat_alt)
  have seq: "sequential (grown ctx)"
    using assms(1) pos sz len by (auto simp: sequential_def wf_emit_def grown_def word_le_nat_alt)
  show ?thesis
    by (rule that[OF h seq]) (use pos n sz len in \<open>auto simp: room_def grown_def\<close>)
qed

lemma take_overwrite:
  "p + length bs \<le> length b \<Longrightarrow> take (p + length bs) (overwrite p bs b) = take p b @ map Some bs"
  by (simp add: overwrite_def)

text \<open>What an appending step keeps.\<close>

definition keeps_labels :: "emit_context \<Rightarrow> emit_context \<Rightarrow> bool" where
  "keeps_labels ctx ctx' \<longleftrightarrow> labels ctx' = labels ctx \<and> labelrefs ctx' = labelrefs ctx \<and>
     eoffset ctx' = eoffset ctx"

lemma keeps_labels_simps [simp]:
  "keeps_labels ctx ctx"
  "keeps_labels ctx (written bs ctx') = keeps_labels ctx ctx'"
  "keeps_labels ctx (grown ctx') = keeps_labels ctx ctx'"
  by (auto simp: keeps_labels_def)

lemma drop_overwrite:
  "p + length bs \<le> length b \<Longrightarrow> drop (p + length bs) (overwrite p bs b) = drop (p + length bs) b"
  by (simp add: overwrite_def)

lemma written_sequential:
  assumes "sequential ctx" and "room (length bs) ctx" and "bs \<noteq> []"
  shows "sequential (written bs ctx)" and "image (written bs ctx) = image ctx @ map Some bs"
proof -
  let ?p = "unat (epos ctx)"
  note seq = assms(1)[unfolded sequential_def]
  have pos: "unat (epos ctx + of_nat (length bs)) = ?p + length bs"
    by (rule unat_epos_add) (rule assms(2))
  have top: "highest_pos (written bs ctx) = epos ctx + of_nat (length bs)"
    using seq pos by (auto simp: max_def word_le_nat_alt)
  have room: "?p + length bs \<le> length (buf ctx)"
    using seq assms(2) by (simp add: room_def wf_emit_def)
  have "set (drop (?p + length bs) (buf ctx)) \<subseteq> {Some 0}"
    using seq set_drop_subset_set_drop[of ?p "?p + length bs" "buf ctx"] by fastforce
  then have "set (drop (unat (epos (written bs ctx))) (buf (written bs ctx))) \<subseteq> {Some 0}"
    by (simp add: pos drop_overwrite[OF room])
  then show "sequential (written bs ctx)"
    using seq top emit_run_room(2)[of ctx bs] assms by (simp add: sequential_def)
  show "image (written bs ctx) = image ctx @ map Some bs"
    using seq top pos take_overwrite[OF room] by (simp add: image_def)
qed

lemma image_eqI:
  "sequential ctx \<Longrightarrow> sequential ctx' \<Longrightarrow> epos ctx' = epos ctx \<Longrightarrow>
     take (unat (epos ctx)) (buf ctx') = take (unat (epos ctx)) (buf ctx) \<Longrightarrow> image ctx' = image ctx"
  by (metis image_def sequential_def)

lemma emit_run_append:
  assumes "sequential ctx" and "in_block (length bs) ctx" and "bs \<noteq> []"
  obtains ctx' where "emit_run bs ctx = Inr ctx'" and "sequential ctx'"
    and "image ctx' = image ctx @ map Some bs"
    and "unat (epos ctx') = unat (epos ctx) + length bs" and "keeps_labels ctx ctx'"
proof -
  let ?n = "of_nat (length bs) :: dword"
  have n: "unat ?n = length bs"
    using assms(2) by (intro unat_of_nat_dword) (simp add: in_block_def)
  have pos: "0 < ?n" using n assms(3) by (simp add: word_less_nat_alt)
  from sequential_handle[OF assms(1) _ this] assms(2) n obtain ctx1 where
    h: "handle_exceeding_buffer ctx ?n = Inr ctx1" and s1: "sequential ctx1"
    and r: "room (length bs) ctx1"
    and t: "take (unat (epos ctx)) (buf ctx1) = take (unat (epos ctx)) (buf ctx)"
    and P: "\<And>P. P (ctx1\<lparr>buf := buf ctx, buf_size := buf_size ctx\<rparr>) \<longleftrightarrow> P ctx" by metis
  have e: "epos ctx1 = epos ctx" using P[of "\<lambda>c. epos c = epos ctx"] by simp
  have k: "keeps_labels ctx ctx1" using P[of "keeps_labels ctx"] by (simp add: keeps_labels_def)
  have "emit_run bs ctx1 = Inr (written bs ctx1)"
    using emit_run_room[of ctx1 bs] s1 r assms(3) by (simp add: sequential_def)
  then have emit: "emit_run bs ctx = Inr (written bs ctx1)"
    using h r n pos handle_room[of ?n ctx1] by (simp add: emit_run_def)
  show ?thesis
    by (rule that[OF emit])
       (use written_sequential[OF s1 r assms(3)] image_eqI[OF assms(1) s1 e t] unat_epos_add[OF r] e k in simp_all)
qed

text \<open>A label reference reserves eight bytes, which stay zero until the labels are resolved.\<close>

lemma image_reserved:
  assumes "sequential ctx" and "room 8 ctx"
  defines "ctx' \<equiv> set_highest_position (ctx\<lparr>epos := epos ctx + 8\<rparr>)"
  shows "sequential ctx'" and "image ctx' = image ctx @ replicate 8 (Some 0)"
proof -
  let ?p = "unat (epos ctx)"
  note seq = assms(1)[unfolded sequential_def]
  have pos: "unat (epos ctx + 8) = ?p + 8"
    using unat_epos_add[OF assms(2)] by simp
  have top: "highest_pos ctx' = epos ctx + 8"
    using seq pos by (auto simp: ctx'_def max_def word_le_nat_alt)
  have room: "?p + 8 \<le> length (buf ctx)"
    using seq assms(2) by (simp add: room_def wf_emit_def)
  have tail: "set (drop ?p (buf ctx)) \<subseteq> {Some 0}" using seq by blast
  then have "set (drop (?p + 8) (buf ctx)) \<subseteq> {Some 0}"
    using set_drop_subset_set_drop[of ?p "?p + 8" "buf ctx"] by auto
  then show "sequential ctx'"
    using seq top pos room by (auto simp: sequential_def wf_emit_def ctx'_def word_le_nat_alt max_def)
  have "take 8 (drop ?p (buf ctx)) = replicate 8 (Some 0)"
    using tail room by (intro replicate_eqI) (auto dest: in_set_takeD)
  then have "take (?p + 8) (buf ctx) = take ?p (buf ctx) @ replicate 8 (Some 0)"
    by (simp only: take_add)
  moreover have "buf ctx' = buf ctx" "highest_pos ctx = epos ctx"
    using seq by (simp_all add: ctx'_def)
  ultimately show "image ctx' = image ctx @ replicate 8 (Some 0)"
    by (simp only: image_def top pos)
qed

lemma emit_label_ref_append:
  assumes "sequential ctx" and "in_block 8 ctx"
  obtains ctx' where "emit_label_ref name reg cond ctx = Inr ctx'" and "sequential ctx'"
    and "image ctx' = image ctx @ replicate 8 (Some 0)"
    and "unat (epos ctx') = unat (epos ctx) + 8" and "labels ctx' = labels ctx"
    and "eoffset ctx' = eoffset ctx"
    and "labelrefs ctx' = labelrefs ctx @
      [\<lparr>ref_pos = epos ctx, ref_reg = reg, ref_name = name, ref_cond = cond\<rparr>]"
proof -
  let ?elr = "\<lparr>ref_pos = epos ctx, ref_reg = reg, ref_name = name, ref_cond = cond\<rparr>"
  let ?ctx = "ctx\<lparr>labelrefs := labelrefs ctx @ [?elr]\<rparr>"
  have s: "sequential ?ctx" and b: "in_block (unat (8 :: dword)) ?ctx"
    using assms by (auto simp: sequential_def in_block_def wf_emit_def)
  obtain ctx1 where
    h: "handle_exceeding_buffer ?ctx 8 = Inr ctx1" and s1: "sequential ctx1" and r: "room 8 ctx1"
    and t: "take (unat (epos ctx)) (buf ctx1) = take (unat (epos ctx)) (buf ctx)"
    and P: "\<And>P. P (ctx1\<lparr>buf := buf ?ctx, buf_size := buf_size ?ctx\<rparr>) \<longleftrightarrow> P ?ctx"
    using sequential_handle[OF s b] by auto
  have e: "epos ctx1 = epos ctx" using P[of "\<lambda>c. epos c = epos ctx"] by simp
  have k: "labels ctx1 = labels ctx" "eoffset ctx1 = eoffset ctx" "labelrefs ctx1 = labelrefs ctx @ [?elr]"
    using P[of "\<lambda>c. labels c = labels ctx"] P[of "\<lambda>c. eoffset c = eoffset ctx"]
      P[of "\<lambda>c. labelrefs c = labelrefs ctx @ [?elr]"] by simp_all
  have "emit_label_ref name reg cond ctx = Inr (set_highest_position (ctx1\<lparr>epos := epos ctx1 + 8\<rparr>))"
    using assms h by (simp add: emit_label_ref_def sequential_def)
  then show ?thesis
    by (rule that)
       (use image_reserved[OF s1 r] image_eqI[OF assms(1) s1 e t] unat_epos_add[OF r] e k in simp_all)
qed

section \<open>The encoders\<close>

text \<open>
  What a client of an encoder relies on: a call emits the code of its operands. Then a call at a
  position with room overwrites exactly those bytes, and a call at the end of the image appends
  them; so do the calls of a list one after the other, as long as the code keeps to whole
  instructions and the positions stay far from the width of a dword.
\<close>

fun emit_seq :: "('x \<Rightarrow> emit_context \<Rightarrow> stop + emit_context) \<Rightarrow> 'x list \<Rightarrow> emit_context \<Rightarrow> stop + emit_context" where
  "emit_seq f [] ctx = Inr ctx"
| "emit_seq f (x # xs) ctx = ubind (f x ctx) (emit_seq f xs)"

locale encoder =
  fixes emit :: "'x \<Rightarrow> emit_context \<Rightarrow> stop + emit_context" and code :: "'x \<Rightarrow> byte list"
  assumes emit_code: "emit x = emit_four (code x)"
    and length_code: "length (code x) = 4"
begin

lemma code_nonempty: "code x \<noteq> []"
  using length_code[of x] by auto

lemma emit_at:
  "wf_emit ctx \<Longrightarrow> room 4 ctx \<Longrightarrow> emit x ctx = Inr (written (code x) ctx)"
  using emit_run_room(1)[of ctx "code x"] length_code[of x] code_nonempty[of x]
  by (simp add: emit_code emit_four_run)

lemma emit_append:
  assumes "sequential ctx" and "in_block 4 ctx"
  obtains ctx' where "emit x ctx = Inr ctx'" and "sequential ctx'"
    and "image ctx' = image ctx @ map Some (code x)" and "unat (epos ctx') = unat (epos ctx) + 4"
    and "keeps_labels ctx ctx'"
  using emit_run_append[of ctx "code x"] assms length_code[of x] code_nonempty[of x]
  by (metis emit_code emit_four_run)

lemma emit_all:
  assumes "sequential ctx" and "4 dvd unat (epos ctx)" and "unat (epos ctx) + 4 * length xs + 1024 < 2 ^ 32"
  shows "\<exists>ctx'. emit_seq emit xs ctx = Inr ctx' \<and> sequential ctx' \<and>
    image ctx' = image ctx @ map Some (concat (map code xs)) \<and>
    unat (epos ctx') = unat (epos ctx) + 4 * length xs \<and> keeps_labels ctx ctx'"
  using assms
proof (induction xs arbitrary: ctx)
  case (Cons x xs)
  have "unat (epos ctx) mod 512 mod 4 = 0"
    using Cons.prems(2) by (simp add: mod_mod_cancel)
  then have "in_block 4 ctx"
    using Cons.prems(3) by (auto simp: in_block_def elim!: dvdE)
  with Cons.prems(1) obtain ctx1 where c: "emit x ctx = Inr ctx1" "sequential ctx1"
    "image ctx1 = image ctx @ map Some (code x)" "unat (epos ctx1) = unat (epos ctx) + 4"
    "keeps_labels ctx ctx1"
    by (rule emit_append)
  with Cons.prems Cons.IH[of ctx1] show ?case
    by (auto simp: keeps_labels_def)
qed simp

end

text \<open>The bytes of each format.\<close>

definition code_i :: "byte \<times> byte \<times> byte \<Rightarrow> byte list" where
  "code_i = (\<lambda>(p, c, q). [push_bit 6 p OR q, push_bit 4 c, 0, 0])"

definition code_ii :: "byte \<times> byte \<times> byte \<times> byte \<times> byte \<times> byte \<Rightarrow> byte list" where
  "code_ii = (\<lambda>(p, c, q, d, a, b). [push_bit 6 p OR q, push_bit 4 c OR d, push_bit 4 a OR b, 0])"

definition code_iii :: "byte \<times> byte \<times> byte \<times> byte \<times> byte \<times> word16 \<Rightarrow> byte list" where
  "code_iii = (\<lambda>(p, c, q, d, a, i).
     [push_bit 6 p OR q, push_bit 4 c OR d, push_bit 4 a OR ucast (drop_bit 8 i), ucast i])"

definition code_iv :: "byte \<times> byte \<times> byte \<times> byte \<times> word16 \<Rightarrow> byte list" where
  "code_iv = (\<lambda>(p, c, q, d, i).
     [push_bit 6 p OR q, push_bit 4 c OR d, ucast i, ucast (drop_bit 8 i)])"

lemma ucast_mask_low [simp]: "(ucast (x AND 0xFF :: word16) :: byte) = ucast x"
  by (rule bit_word_eqI) (auto simp: mask_8 bit_simps)

interpretation fmt_i: encoder "\<lambda>(p, c, q). emit_fmt_i p c q" code_i
  by unfold_locales (auto simp: emit_fmt_i_def code_i_def)

interpretation fmt_ii: encoder "\<lambda>(p, c, q, d, a, b). emit_fmt_ii p c q d a b" code_ii
  by unfold_locales (auto simp: emit_fmt_ii_def code_ii_def)

interpretation fmt_iii: encoder "\<lambda>(p, c, q, d, a, i). emit_fmt_iii p c q d a i" code_iii
  by unfold_locales (auto simp: emit_fmt_iii_def code_iii_def)

interpretation fmt_iv: encoder "\<lambda>(p, c, q, d, i). emit_fmt_iv p c q d i" code_iv
  by unfold_locales (auto simp: emit_fmt_iv_def code_iv_def)

text \<open>The other four leave out operands of these.\<close>

lemma fmt_as:
  "emit_fmt_v p c q d = emit_fmt_ii p c q d 0 0"
  "emit_fmt_vi p c q a b = emit_fmt_ii p c q 0 a b"
  "emit_fmt_vii p c q a i = emit_fmt_iii p c q 0 a i"
  "emit_fmt_viii p c q i' = emit_fmt_iv p c q 0 i'"
  by (simp_all add: emit_fmt_v_def emit_fmt_vi_def emit_fmt_vii_def emit_fmt_viii_def emit_fmt_ii_def
      emit_fmt_iii_def emit_fmt_iv_def)

interpretation fmt_v: encoder "\<lambda>(p, c, q, d). emit_fmt_v p c q d" "\<lambda>(p, c, q, d). code_ii (p, c, q, d, 0, 0)"
  by unfold_locales (auto simp: fmt_as emit_fmt_ii_def code_ii_def)

interpretation fmt_vi: encoder "\<lambda>(p, c, q, a, b). emit_fmt_vi p c q a b" "\<lambda>(p, c, q, a, b). code_ii (p, c, q, 0, a, b)"
  by unfold_locales (auto simp: fmt_as emit_fmt_ii_def code_ii_def)

interpretation fmt_vii: encoder "\<lambda>(p, c, q, a, i). emit_fmt_vii p c q a i" "\<lambda>(p, c, q, a, i). code_iii (p, c, q, 0, a, i)"
  by unfold_locales (auto simp: fmt_as emit_fmt_iii_def code_iii_def)

interpretation fmt_viii: encoder "\<lambda>(p, c, q, i). emit_fmt_viii p c q i" "\<lambda>(p, c, q, i). code_iv (p, c, q, 0, i)"
  by unfold_locales (auto simp: fmt_as emit_fmt_iv_def code_iv_def)

section \<open>Decoding what was emitted\<close>

lemma word_less_bits: "x < 2 ^ k \<Longrightarrow> bit x n \<Longrightarrow> n < k" for x :: "'a::len word"
  by (metis less_mask_eq bit_and_iff bit_mask_iff)

lemma nibble_bits: "x < 16 \<Longrightarrow> bit x n \<Longrightarrow> n < 4" "x < 64 \<Longrightarrow> bit x n \<Longrightarrow> n < 6"
  "x < 4 \<Longrightarrow> bit x n \<Longrightarrow> n < 2" for x :: byte
  using word_less_bits[of x 4 n] word_less_bits[of x 6 n] word_less_bits[of x 2 n] by simp_all

lemma join_nibbles:
  "a < 16 \<Longrightarrow> b < 16 \<Longrightarrow> drop_bit 4 (push_bit 4 a OR b) = a"
  "b < 16 \<Longrightarrow> (push_bit 4 a OR b) AND 0xF = b"
  "a < 16 \<Longrightarrow> drop_bit 4 (push_bit 4 a) = a" for a b :: byte
  by (rule bit_word_eqI; auto simp: mask_4 bit_simps dest: nibble_bits)+

lemma join_opcode:
  "p < 4 \<Longrightarrow> q < 64 \<Longrightarrow> drop_bit 6 (push_bit 6 p OR q) = p"
  "q < 64 \<Longrightarrow> (push_bit 6 p OR q) AND 0x3F = q" for p q :: byte
  by (rule bit_word_eqI; auto simp: mask_6 bit_simps dest: nibble_bits)+

text \<open>The fields of an instruction whose bytes were put together from them.\<close>

lemmas joined = decode_bytes_sel join_nibbles join_opcode

lemma imm12_high: "i < 0x1000 \<Longrightarrow> ucast (drop_bit 8 i) < (16 :: byte)" for i :: word16
  by (simp add: word_less_nat_alt unsigned_ucast_eq drop_bit_eq_div unat_div take_bit_nat_eq_self)

lemma bit_imm12_decode:
  "bit (imm12 (decode_bytes b1 b2 b3 b4)) n \<longleftrightarrow> (if n < 8 then bit b4 n else n < 12 \<and> bit b3 (n - 8))"
  by (simp only: decode_bytes_def instruction_context.simps bit_imm12)

lemma imm12_join:
  assumes "i < 0x1000"
  shows "imm12 (decode_bytes b1 b2 (push_bit 4 a OR ucast (drop_bit 8 i)) (ucast i)) = i"
proof (rule bit_word_eqI)
  fix n assume "n < LENGTH(16)"
  have "bit i n \<Longrightarrow> n < 12" using word_less_bits[of i 12 n] assms by simp
  then show "bit (imm12 (decode_bytes b1 b2 (push_bit 4 a OR ucast (drop_bit 8 i)) (ucast i))) n = bit i n"
    by (auto simp: bit_imm12_decode bit_simps dest: bit_imp_le_length)
qed

lemma imm16_join: "imm16 (decode_bytes b1 b2 (ucast i) (ucast (drop_bit 8 i))) = i"
  by (rule bit_word_eqI)
     (auto simp: decode_bytes_def bit_simps bit_WORD_FROM_BYTES dest: bit_imp_le_length)

text \<open>The instruction that stands at an index of a buffer.\<close>

definition image_ins :: "byte option list \<Rightarrow> nat \<Rightarrow> instruction_context option" where
  "image_ins b k =
     (case take 4 (drop k b) of
        [Some b1, Some b2, Some b3, Some b4] \<Rightarrow> Some (decode_bytes b1 b2 b3 b4)
      | _ \<Rightarrow> None)"

lemma image_ins_overwrite:
  assumes "p + 4 \<le> length b"
  shows "image_ins (overwrite p [b1, b2, b3, b4] b) p = Some (decode_bytes b1 b2 b3 b4)"
  using assms by (simp add: image_ins_def overwrite_def)

text \<open>
  A call that succeeds, advances the position by four, changes no byte but the four at the old
  position and leaves there an instruction with the property \<open>P\<close>.
\<close>

definition emits ::
  "emit_context \<Rightarrow> stop + emit_context \<Rightarrow> (instruction_context \<Rightarrow> bool) \<Rightarrow> bool" where
  "emits ctx r P \<longleftrightarrow> (\<exists>ctx' i. r = Inr ctx' \<and> epos ctx' = epos ctx + 4 \<and> keeps_labels ctx ctx' \<and>
     length (buf ctx') = length (buf ctx) \<and> image_ins (buf ctx') (unat (epos ctx)) = Some i \<and> P i \<and>
     take (unat (epos ctx)) (buf ctx') = take (unat (epos ctx)) (buf ctx) \<and>
     drop (unat (epos ctx) + 4) (buf ctx') = drop (unat (epos ctx) + 4) (buf ctx))"

lemma emits_written:
  assumes "wf_emit ctx" and "room 4 ctx" and "r = Inr (written [b1, b2, b3, b4] ctx)"
    and "P (decode_bytes b1 b2 b3 b4)"
  shows "emits ctx r P"
proof -
  have room: "unat (epos ctx) + 4 \<le> length (buf ctx)"
    using assms(1,2) by (simp add: wf_emit_def room_def)
  then have "take (unat (epos ctx)) (overwrite (unat (epos ctx)) [b1, b2, b3, b4] (buf ctx)) =
    take (unat (epos ctx)) (buf ctx)" by (simp add: overwrite_def)
  moreover have len: "length [b1, b2, b3, b4] = 4" by simp
  moreover have "drop (unat (epos ctx) + 4) (overwrite (unat (epos ctx)) [b1, b2, b3, b4] (buf ctx)) =
    drop (unat (epos ctx) + 4) (buf ctx)"
    using room drop_overwrite[of "unat (epos ctx)" "[b1, b2, b3, b4]" "buf ctx", unfolded len] by simp
  ultimately show ?thesis
    using assms(4) room by (simp add: emits_def assms(3) image_ins_overwrite)
qed

context encoder begin

lemma emits_code:
  "wf_emit ctx \<Longrightarrow> room 4 ctx \<Longrightarrow> code x = [b1, b2, b3, b4] \<Longrightarrow> P (decode_bytes b1 b2 b3 b4) \<Longrightarrow>
     emits ctx (emit x ctx) P"
  by (rule emits_written) (simp_all add: emit_at)

end

lemma code_eqs:
  "code_i (p, c, q) = [push_bit 6 p OR q, push_bit 4 c, 0, 0]"
  "code_ii (p, c, q, d, a, b) = [push_bit 6 p OR q, push_bit 4 c OR d, push_bit 4 a OR b, 0]"
  "code_iii (p, c, q, d, a, i) =
     [push_bit 6 p OR q, push_bit 4 c OR d, push_bit 4 a OR ucast (drop_bit 8 i), ucast i]"
  "code_iv (p, c, q, d, i) = [push_bit 6 p OR q, push_bit 4 c OR d, ucast i, ucast (drop_bit 8 i)]"
  by (simp_all add: code_i_def code_ii_def code_iii_def code_iv_def)

lemma emits_ii:
  assumes "wf_emit ctx" and "room 4 ctx" and "p < 4" and "c < 16" and "q < 64" and "d < 16" and "a < 16" and "b < 16"
  shows "emits ctx (emit_fmt_ii p c q d a b ctx) (\<lambda>x. prefix x = p \<and> condition x = c \<and> opcode x = q \<and>
           dst x = d \<and> opa x = a \<and> opb x = b)"
  by (rule fmt_ii.emits_code[OF assms(1,2) code_eqs(2), unfolded prod.case]) (use assms in \<open>simp only: joined simp_thms\<close>)

lemma emits_iii:
  assumes "wf_emit ctx" and "room 4 ctx" and "p < 4" and "c < 16" and "q < 64" and "d < 16" and "a < 16" and "i < 0x1000"
  shows "emits ctx (emit_fmt_iii p c q d a i ctx) (\<lambda>x. prefix x = p \<and> condition x = c \<and> opcode x = q \<and>
           dst x = d \<and> opa x = a \<and> imm12 x = i)"
  by (rule fmt_iii.emits_code[OF assms(1,2) code_eqs(3), unfolded prod.case])
     (use assms imm12_high[OF assms(8)] in \<open>simp only: joined imm12_join simp_thms\<close>)

lemma emits_iv:
  assumes "wf_emit ctx" and "room 4 ctx" and "p < 4" and "c < 16" and "q < 64" and "d < 16"
  shows "emits ctx (emit_fmt_iv p c q d j ctx) (\<lambda>x. prefix x = p \<and> condition x = c \<and> opcode x = q \<and>
           dst x = d \<and> imm16 x = j)"
  by (rule fmt_iv.emits_code[OF assms(1,2) code_eqs(4), unfolded prod.case])
     (use assms in \<open>simp only: joined imm16_join simp_thms\<close>)

lemma emits_mono: "emits ctx r P \<Longrightarrow> (\<And>x. P x \<Longrightarrow> Q x) \<Longrightarrow> emits ctx r Q"
  by (auto simp: emits_def)

section \<open>Properties\<close>

text \<open>
  C12. Encoding and decoding are inverse: with operands that fit their fields, each of the eight
  encoders writes, over exactly four bytes at the position, an instruction that the decoder of the
  processor takes apart into the same prefix, condition, opcode and operands.
\<close>

theorem emit_decode:
  assumes "wf_emit ctx" and "room 4 ctx" and "p < 4" and "c < 16" and "q < 64" and "d < 16"
    and "a < 16" and "b < 16" and "i < 0x1000"
  shows "emits ctx (emit_fmt_i p c q ctx) (\<lambda>x. prefix x = p \<and> condition x = c \<and> opcode x = q) \<and>
    emits ctx (emit_fmt_ii p c q d a b ctx) (\<lambda>x. prefix x = p \<and> condition x = c \<and> opcode x = q \<and>
      dst x = d \<and> opa x = a \<and> opb x = b) \<and>
    emits ctx (emit_fmt_iii p c q d a i ctx) (\<lambda>x. prefix x = p \<and> condition x = c \<and> opcode x = q \<and>
      dst x = d \<and> opa x = a \<and> imm12 x = i) \<and>
    emits ctx (emit_fmt_iv p c q d j ctx) (\<lambda>x. prefix x = p \<and> condition x = c \<and> opcode x = q \<and>
      dst x = d \<and> imm16 x = j) \<and>
    emits ctx (emit_fmt_v p c q d ctx) (\<lambda>x. prefix x = p \<and> condition x = c \<and> opcode x = q \<and> dst x = d) \<and>
    emits ctx (emit_fmt_vi p c q a b ctx) (\<lambda>x. prefix x = p \<and> condition x = c \<and> opcode x = q \<and>
      opa x = a \<and> opb x = b) \<and>
    emits ctx (emit_fmt_vii p c q a i ctx) (\<lambda>x. prefix x = p \<and> condition x = c \<and> opcode x = q \<and>
      opa x = a \<and> imm12 x = i) \<and>
    emits ctx (emit_fmt_viii p c q j ctx) (\<lambda>x. prefix x = p \<and> condition x = c \<and> opcode x = q \<and> imm16 x = j)"
proof (intro conjI)
  show "emits ctx (emit_fmt_i p c q ctx) (\<lambda>x. prefix x = p \<and> condition x = c \<and> opcode x = q)"
    by (rule fmt_i.emits_code[OF assms(1,2) code_eqs(1), unfolded prod.case])
       (use assms in \<open>simp only: joined simp_thms\<close>)
  show "emits ctx (emit_fmt_v p c q d ctx) (\<lambda>x. prefix x = p \<and> condition x = c \<and> opcode x = q \<and> dst x = d)"
    unfolding fmt_as by (rule emits_mono[OF emits_ii]) (use assms in auto)
  show "emits ctx (emit_fmt_vi p c q a b ctx) (\<lambda>x. prefix x = p \<and> condition x = c \<and> opcode x = q \<and>
      opa x = a \<and> opb x = b)"
    unfolding fmt_as by (rule emits_mono[OF emits_ii]) (use assms in auto)
  show "emits ctx (emit_fmt_vii p c q a i ctx) (\<lambda>x. prefix x = p \<and> condition x = c \<and> opcode x = q \<and>
      opa x = a \<and> imm12 x = i)"
    unfolding fmt_as by (rule emits_mono[OF emits_iii]) (use assms in auto)
  show "emits ctx (emit_fmt_viii p c q j ctx) (\<lambda>x. prefix x = p \<and> condition x = c \<and> opcode x = q \<and> imm16 x = j)"
    unfolding fmt_as by (rule emits_mono[OF emits_iv]) (use assms in auto)
qed (rule emits_ii emits_iii emits_iv; fact assms)+

text \<open>A buffer of eight bytes that may not grow.\<close>

definition sample_emit :: emit_context where
  "sample_emit = \<lparr>buf = replicate 8 (Some 0), buf_len_fixed = 1, epos = 4, highest_pos = 4, eoffset = 0,
     buf_size = 8, labels = Map.empty, labelrefs = [], heap_serves = (\<lambda>n. True)\<rparr>"

theorem emit_decode_witness:
  "emits sample_emit (emit_fmt_iii 3 0 44 1 2 0x7FF sample_emit)
     (\<lambda>x. prefix x = 3 \<and> condition x = 0 \<and> opcode x = 44 \<and> dst x = 1 \<and> opa x = 2 \<and> imm12 x = 0x7FF)"
  using emit_decode[of sample_emit 3 0 44 1 2 0 "0x7FF"]
  by (simp add: wf_emit_def room_def sample_emit_def)

text \<open>
  C34. Making room, on every path: nothing happens where the bytes fit; a fixed buffer ends the
  program; a dynamic one whose size is a whole number of blocks ends it when memory is short, and
  otherwise grows by one zeroed block and then has the room exactly when the position is at or
  below the size and the size was reached before. In every other case (an instruction that
  straddles the end of a block, a position that \<open>.at\<close> moved past the end) the computed size is too
  small and clearing the new block overruns the heap block.
\<close>

theorem buffer_growth:
  assumes "wf_emit ctx" and "512 dvd unat (buf_size ctx)" and "unat (buf_size ctx) + 512 < 2 ^ 32"
    and "0 < n" and "n \<le> 512" and "unat (epos ctx) + unat n \<le> 2 ^ 32"
  shows "handle_exceeding_buffer ctx n =
      (if room (unat n) ctx then Inr ctx
       else if buf_len_fixed ctx \<noteq> 0 then Inl (Exit (- 1))
       else if \<not> heap_serves ctx (grow_target ctx) then Inl (Exit 2)
       else if highest_pos ctx = buf_size ctx \<and> epos ctx \<le> buf_size ctx then Inr (grown ctx)
       else Inl (Heap_oob (max (unat (epos ctx)) (grow_target ctx)))) \<and>
    (epos ctx \<le> buf_size ctx \<longrightarrow> wf_emit (grown ctx) \<and> room (unat n) (grown ctx))"
proof
  show "handle_exceeding_buffer ctx n =
      (if room (unat n) ctx then Inr ctx
       else if buf_len_fixed ctx \<noteq> 0 then Inl (Exit (- 1))
       else if \<not> heap_serves ctx (grow_target ctx) then Inl (Exit 2)
       else if highest_pos ctx = buf_size ctx \<and> epos ctx \<le> buf_size ctx then Inr (grown ctx)
       else Inl (Heap_oob (max (unat (epos ctx)) (grow_target ctx))))"
  proof (cases "room (unat n) ctx \<or> buf_len_fixed ctx \<noteq> 0 \<or> \<not> heap_serves ctx (grow_target ctx)")
    case True
    then show ?thesis
      using handle_room[of n ctx] handle_no_room[of n ctx] assms
      by (auto simp: handle_exceeding_buffer_def yyerror_def grow_target_def Let_def add.commute)
  next
    case False
    then show ?thesis
      using handle_grow[of ctx n] assms by (simp add: dynamic_def)
  qed
  have sz: "unat (buf_size ctx + 512) = unat (buf_size ctx) + 512"
    using assms(3) by (simp add: unat_word_ariths)
  then show "epos ctx \<le> buf_size ctx \<longrightarrow> wf_emit (grown ctx) \<and> room (unat n) (grown ctx)"
    using assms(1,5) by (auto simp: wf_emit_def room_def grown_def word_le_nat_alt)
qed

text \<open>A reference to a label after 127 instructions: 508 bytes in a buffer of 512.\<close>

definition sample_full :: emit_context where
  "sample_full = \<lparr>buf = replicate 512 (Some 0), buf_len_fixed = 0, epos = 508, highest_pos = 508, eoffset = 0,
     buf_size = 512, labels = Map.empty, labelrefs = [], heap_serves = (\<lambda>n. True)\<rparr>"

theorem buffer_growth_witness: "handle_exceeding_buffer sample_full 8 = Inl (Heap_oob 512)"
  using buffer_growth[of sample_full 8]
  by (simp add: sample_full_def wf_emit_def room_def grow_target_def)

end
