(* ===== verification/Lookup.thy ===== *)
theory Lookup
  imports Rawdefs
begin

text \<open>
  Names and numbers, \<^verbatim>\<open>src/common/lookup.c\<close>. Each table is an array of pointers that alternates
  numbers and names; here it is the list of the pairs, with \<open>None\<close> for the null name of a gap or of
  the unused rest of the array, whose number reads as zero. A name that is not found is replaced
  by a default (with a warning on the error stream, left out), a number that is not by \<open>N/A\<close>.
\<close>

section \<open>Tables\<close>

definition oplkupbuf :: "(byte \<times> string option) list" where
  "oplkupbuf = [
    (OP_STOP, Some ''STOP''), (OP_FAIL, Some ''FAIL''), (0, None),
    (0, None), (OP_IRET, Some ''IRET''), (0, None),
    (OP_LOADI, Some ''LOADI''), (0, None), (OP_STOREMA, Some ''STOREMA''),
    (OP_LOADMA, Some ''LOADMA''), (OP_INT, Some ''INT''), (OP_JMP, Some ''JMP''),
    (OP_CALL, Some ''CALL''), (OP_STOREAS, Some ''STOREAS''), (OP_LOADAS, Some ''LOADAS''),
    (0, None), (OP_SMUL, Some ''SMUL''), (OP_SDIV, Some ''SDIV''),
    (OP_NOT, Some ''NOT''), (0, None), (OP_SEX, Some ''SEX''),
    (OP_MOD, Some ''MOD''), (OP_TEST, Some ''TEST''), (0, None),
    (OP_CMP, Some ''CMP''), (OP_IN, Some ''IN''), (OP_MOV, Some ''MOV''),
    (OP_CMPXCHG, Some ''CMPXCHG''), (0, None), (OP_MOVTC, Some ''MOVTC''),
    (OP_MOVFC, Some ''MOVFC''), (OP_SAR, Some ''SAR''), (OP_XCHG, Some ''XCHG''),
    (OP_AND, Some ''AND''), (OP_OR, Some ''OR''), (OP_XOR, Some ''XOR''),
    (OP_SHL, Some ''SHL''), (OP_SHR, Some ''SHR''), (OP_LOADID, Some ''LOADID''),
    (OP_LOADRD, Some ''LOADRD''), (OP_STOREID, Some ''STOREID''), (OP_STORERD, Some ''STORERD''),
    (OP_ADD, Some ''ADD''), (OP_SUB, Some ''SUB''), (OP_MUL, Some ''MUL''),
    (OP_DIV, Some ''DIV''), (OP_OUT, Some ''OUT''), (OP_XCHGC, Some ''XCHGC'')] @ replicate 16 (0, None)"

definition creglkupbuf :: "(byte \<times> string option) list" where
  "creglkupbuf = [
    (CPU_CREG_MR1, Some ''MR1''), (CPU_CREG_MR2, Some ''MR2''), (CPU_CREG_CR1, Some ''CR1''),
    (CPU_CREG_CR2, Some ''CR2''), (CPU_CREG_SSP, Some ''SSP''), (CPU_CREG_MR3, Some ''MR3''),
    (CPU_CREG_MR4, Some ''MR4''), (CPU_CREG_ST1, Some ''ST1''), (CPU_CREG_ST1, Some ''ST2''),
    (CPU_CREG_ST1, Some ''ST3''), (CPU_CREG_ST1, Some ''ST4'')] @ replicate 5 (0, None)"

definition reg32lkupbuf :: "(byte \<times> string option) list" where
  "reg32lkupbuf = [
    (CPU_REG_R0, Some ''R0''), (CPU_REG_R1, Some ''R1''), (CPU_REG_R2, Some ''R2''),
    (CPU_REG_R3, Some ''R3''), (CPU_REG_R4, Some ''R4''), (CPU_REG_R5, Some ''R5''),
    (CPU_REG_R6, Some ''R6''), (CPU_REG_R7, Some ''R7''), (CPU_REG_R8, Some ''R8''),
    (CPU_REG_R9, Some ''R9''), (CPU_REG_RA, Some ''RA''), (CPU_REG_RB, Some ''RB''),
    (CPU_REG_RC, Some ''RC''), (CPU_REG_BP, Some ''BP''), (CPU_REG_SP, Some ''SP''),
    (CPU_REG_FLGS, Some ''FLGS'')]"

definition reg16lkupbuf :: "(byte \<times> string option) list" where
  "reg16lkupbuf = [
    (CPU_REG16_R0L, Some ''R0L''), (CPU_REG16_R0H, Some ''R0H''), (CPU_REG16_R1L, Some ''R1L''),
    (CPU_REG16_R1H, Some ''R1H''), (CPU_REG16_R2L, Some ''R2L''), (CPU_REG16_R2H, Some ''R2H''),
    (CPU_REG16_R3L, Some ''R3L''), (CPU_REG16_R3H, Some ''R3H''), (CPU_REG16_R4L, Some ''R4L''),
    (CPU_REG16_R4H, Some ''R4H''), (CPU_REG16_R5L, Some ''R5L''), (CPU_REG16_R5H, Some ''R5H''),
    (CPU_REG16_R6L, Some ''R6L''), (CPU_REG16_R6H, Some ''R6H''), (CPU_REG16_R7L, Some ''R7L''),
    (CPU_REG16_R7H, Some ''R7H'')]"

definition reg8lkupbuf :: "(byte \<times> string option) list" where
  "reg8lkupbuf = [
    (CPU_REG8_R0LL, Some ''R0LL''), (CPU_REG8_R0LH, Some ''R0LH''), (CPU_REG8_R0HL, Some ''R0HL''),
    (CPU_REG8_R0HH, Some ''R0HH''), (CPU_REG8_R1LL, Some ''R1LL''), (CPU_REG8_R1LH, Some ''R1LH''),
    (CPU_REG8_R1HL, Some ''R1HL''), (CPU_REG8_R1HH, Some ''R1HH''), (CPU_REG8_R2LL, Some ''R2LL''),
    (CPU_REG8_R2LH, Some ''R2LH''), (CPU_REG8_R2HL, Some ''R2HL''), (CPU_REG8_R2HH, Some ''R2HH''),
    (CPU_REG8_R3LL, Some ''R3LL''), (CPU_REG8_R3LH, Some ''R3LH''), (CPU_REG8_R3HL, Some ''R3HL''),
    (CPU_REG8_R3HH, Some ''R3HH'')]"

section \<open>Searches\<close>

text \<open>The two loops over a table, the same in every function that has one.\<close>

fun number_for :: "(byte \<times> string option) list \<Rightarrow> byte \<Rightarrow> string \<Rightarrow> byte" where
  "number_for [] d name = d"
| "number_for ((n, None) # t) d name = number_for t d name"
| "number_for ((n, Some s) # t) d name = (if s = name then n else number_for t d name)"

fun name_of :: "(byte \<times> string option) list \<Rightarrow> byte \<Rightarrow> string" where
  "name_of [] k = ''N/A''"
| "name_of ((n, s) # t) k =
     (if n = k then (case s of None \<Rightarrow> ''N/A'' | Some s \<Rightarrow> s) else name_of t k)"

definition get_op_for_name :: "string \<Rightarrow> byte" where
  "get_op_for_name name = number_for oplkupbuf OP_STOP name"

definition get_creg_for_name :: "string \<Rightarrow> byte" where
  "get_creg_for_name name = number_for creglkupbuf CPU_CREG_CR1 name"

definition get_reg_for_name :: "string \<Rightarrow> byte" where
  "get_reg_for_name name = number_for reg32lkupbuf CPU_REG_R0 name"

definition get_reg16_for_name :: "string \<Rightarrow> byte" where
  "get_reg16_for_name name = number_for reg16lkupbuf CPU_REG16_R0L name"

definition get_reg8_for_name :: "string \<Rightarrow> byte" where
  "get_reg8_for_name name = number_for reg8lkupbuf CPU_REG8_R0LL name"

definition get_cond_for_name :: "string \<Rightarrow> byte" where
  "get_cond_for_name cond =
     (if cond = ''IS'' then COND_IS
      else if cond = ''NS'' then COND_NS
      else if cond = ''IZ'' then COND_IZ
      else if cond = ''NZ'' then COND_NZ
      else if cond = ''IP'' then COND_IP
      else if cond = ''NP'' then COND_NP
      else if cond = ''IO'' then COND_IO
      else if cond = ''NO'' then COND_NO
      else if cond = ''IZIS'' then COND_IZIS
      else if cond = ''NZNS'' then COND_NZNS
      else if cond = ''IZIC'' then COND_IZIC
      else if cond = ''NZNC'' then COND_NZNC
      else if cond = ''IC'' then COND_IC
      else if cond = ''NC'' then COND_NC
      else if cond = ''NF'' then COND_NF
      else COND_ALWAYS)"

definition get_name_of_op :: "byte \<Rightarrow> byte \<Rightarrow> string" where
  "get_name_of_op prefix n = name_of oplkupbuf n"

definition get_name_of_creg :: "byte \<Rightarrow> string" where
  "get_name_of_creg n = name_of creglkupbuf n"

definition get_name_of_reg :: "byte \<Rightarrow> string" where
  "get_name_of_reg n = name_of reg32lkupbuf n"

definition get_name_of_reg16 :: "byte \<Rightarrow> string" where
  "get_name_of_reg16 n = name_of reg16lkupbuf n"

definition get_name_of_reg8 :: "byte \<Rightarrow> string" where
  "get_name_of_reg8 n = name_of reg8lkupbuf n"

definition get_name_of_prefix :: "byte \<Rightarrow> string" where
  "get_name_of_prefix prefix =
     (if prefix = PREFIX_DWORD then ''DWORD''
      else if prefix = PREFIX_WORD then ''WORD''
      else if prefix = PREFIX_BYTE then ''BYTE''
      else if prefix = PREFIX_IMM then ''IMM''
      else ''N/A'')"

definition get_name_of_cond :: "byte \<Rightarrow> string" where
  "get_name_of_cond cond =
     (if cond = COND_ALWAYS then []
      else if cond = COND_IS then ''IS''
      else if cond = COND_NS then ''NS''
      else if cond = COND_IZ then ''IZ''
      else if cond = COND_NZ then ''NZ''
      else if cond = COND_IO then ''IO''
      else if cond = COND_NO then ''NO''
      else if cond = COND_IP then ''IP''
      else if cond = COND_NP then ''NP''
      else if cond = COND_IZIS then ''IZIS''
      else if cond = COND_IZIC then ''IZIC''
      else if cond = COND_NZNS then ''NZNS''
      else if cond = COND_NZNC then ''NZNC''
      else if cond = COND_IC then ''IC''
      else if cond = COND_NC then ''NC''
      else if cond = COND_NF then ''NF''
      else ''N/A'')"

lemmas table_defs = oplkupbuf_def creglkupbuf_def reg32lkupbuf_def reg16lkupbuf_def reg8lkupbuf_def

text \<open>Whatever the name, a number that is looked up fits its field of an instruction.\<close>

lemma number_for_less:
  "list_all (\<lambda>(n, s). n < b) t \<Longrightarrow> d < b \<Longrightarrow> number_for t d name < b"
  by (induction t d name rule: number_for.induct) auto

lemma padding_all: "P (0, None) \<Longrightarrow> list_all P (replicate k (0, None))"
  by (induction k) auto

lemma numbers_less [simp]:
  "get_op_for_name s < 64" "get_reg_for_name s < 16" "get_reg16_for_name s < 16"
  "get_reg8_for_name s < 16" "get_creg_for_name s < 16"
  unfolding get_op_for_name_def get_reg_for_name_def get_reg16_for_name_def get_reg8_for_name_def get_creg_for_name_def
  by (rule number_for_less; simp add: table_defs padding_all)+

lemma cond_number_less [simp]: "get_cond_for_name s < 16"
  by (simp add: get_cond_for_name_def)

section \<open>An interface of name tables\<close>

text \<open>
  What the assembler and the disassembler rely on: every valid number has a name, and looking
  the name up gives the number back. Then no two valid numbers share a name, and the name of a
  number is never taken for the name of another.
\<close>

locale name_table =
  fixes num :: "string \<Rightarrow> byte" and nm :: "byte \<Rightarrow> string" and valid :: "byte set"
  assumes named: "n \<in> valid \<Longrightarrow> nm n \<noteq> ''N/A''"
    and num_nm: "n \<in> valid \<Longrightarrow> num (nm n) = n"
begin

lemma nm_inj: "inj_on nm valid"
  by (rule inj_on_inverseI) (rule num_nm)

lemma nm_eq_iff: "n \<in> valid \<Longrightarrow> k \<in> valid \<Longrightarrow> nm n = nm k \<longleftrightarrow> n = k"
  using nm_inj by (auto dest: inj_onD)

lemma nm_num: "s \<in> nm ` valid \<Longrightarrow> nm (num s) = s"
  using num_nm by auto

lemma num_bij: "bij_betw num (nm ` valid) valid"
  by (rule bij_betw_byWitness[of _ nm]) (auto simp: num_nm)

end

text \<open>The numbers below eight, one by one.\<close>

lemma octal_in: "r < 8 \<longleftrightarrow> r \<in> {0, 1, 2, 3, 4, 5, 6, 7}" for r :: byte
proof -
  have "[0..<8] = [0, 1, 2, 3, 4, 5, 6, 7]" by (simp add: upt_rec)
  then have "unat r < 8 \<longleftrightarrow> unat r \<in> set [0, 1, 2, 3, 4, 5, 6, 7]"
    by (metis atLeast_upt lessThan_iff)
  then show ?thesis by (simp add: word_less_nat_alt word_unat_eq_iff)
qed

text \<open>The unused rest of a table has neither names nor numbers to offer.\<close>

lemma name_of_padding [simp]: "name_of (replicate k (0, None)) n = ''N/A''"
  by (induction k) auto

lemma number_for_padding [simp]: "number_for (replicate k (0, None)) d s = d"
  by (induction k) auto

text \<open>The opcodes that have a name.\<close>

definition named_ops :: "byte list" where
  "named_ops = map fst (filter (\<lambda>(n, s). s \<noteq> None) oplkupbuf)"

interpretation ops: name_table get_op_for_name "get_name_of_op p" "set named_ops"
  by unfold_locales
     (auto simp: named_ops_def get_op_for_name_def get_name_of_op_def oplkupbuf_def)

interpretation regs32: name_table get_reg_for_name get_name_of_reg "set nibbles"
  by unfold_locales (auto simp: nibbles_def get_reg_for_name_def get_name_of_reg_def reg32lkupbuf_def)

interpretation regs16: name_table get_reg16_for_name get_name_of_reg16 "set nibbles"
  by unfold_locales (auto simp: nibbles_def get_reg16_for_name_def get_name_of_reg16_def reg16lkupbuf_def)

interpretation regs8: name_table get_reg8_for_name get_name_of_reg8 "set nibbles"
  by unfold_locales (auto simp: nibbles_def get_reg8_for_name_def get_name_of_reg8_def reg8lkupbuf_def)

interpretation conds: name_table get_cond_for_name get_name_of_cond "set nibbles"
  by unfold_locales (auto simp: nibbles_def get_cond_for_name_def get_name_of_cond_def)

interpretation cregs: name_table get_creg_for_name get_name_of_creg "{0, 1, 2, 3, 4, 5, 6, 7}"
  by unfold_locales (auto simp: get_creg_for_name_def get_name_of_creg_def creglkupbuf_def)

section \<open>Properties\<close>

text \<open>
  C33. The names of the sixteen dword, word and byte registers, of the sixteen conditions (the empty
  name for the unconditional one) and of the named opcodes are looked up again to their numbers, so
  no two of a kind share a name. An opcode has a name exactly when it is one of the 40 that
  \<^verbatim>\<open>rawdefs.h\<close> defines.
\<close>

theorem lookup_roundtrip:
  "(\<forall>r < 16. get_reg_for_name (get_name_of_reg r) = r \<and> get_reg16_for_name (get_name_of_reg16 r) = r \<and>
      get_reg8_for_name (get_name_of_reg8 r) = r \<and> get_cond_for_name (get_name_of_cond r) = r) \<and>
   (\<forall>p n. get_name_of_op p n \<noteq> ''N/A'' \<longrightarrow> get_op_for_name (get_name_of_op p n) = n) \<and>
   (\<forall>p n. get_name_of_op p n \<noteq> ''N/A'' \<longleftrightarrow> n \<in> {OP_STOP, OP_FAIL, OP_IRET, OP_LOADI, OP_STOREMA, OP_LOADMA,
      OP_INT, OP_JMP, OP_CALL, OP_STOREAS, OP_LOADAS, OP_SMUL, OP_SDIV, OP_NOT, OP_SEX, OP_MOD, OP_TEST,
      OP_CMP, OP_IN, OP_MOV, OP_CMPXCHG, OP_MOVTC, OP_MOVFC, OP_SAR, OP_XCHG, OP_AND, OP_OR, OP_XOR, OP_SHL,
      OP_SHR, OP_LOADID, OP_LOADRD, OP_STOREID, OP_STORERD, OP_ADD, OP_SUB, OP_MUL, OP_DIV, OP_OUT, OP_XCHGC})"
proof (intro conjI allI impI)
  fix p n
  have mem: "get_name_of_op p n \<noteq> ''N/A'' \<longleftrightarrow> n \<in> set named_ops"
    by (auto simp: get_name_of_op_def oplkupbuf_def named_ops_def)
  then show "get_op_for_name (get_name_of_op p n) = n" if "get_name_of_op p n \<noteq> ''N/A''"
    using that ops.num_nm by blast
  show "get_name_of_op p n \<noteq> ''N/A'' \<longleftrightarrow> n \<in> {OP_STOP, OP_FAIL, OP_IRET, OP_LOADI, OP_STOREMA, OP_LOADMA,
      OP_INT, OP_JMP, OP_CALL, OP_STOREAS, OP_LOADAS, OP_SMUL, OP_SDIV, OP_NOT, OP_SEX, OP_MOD, OP_TEST,
      OP_CMP, OP_IN, OP_MOV, OP_CMPXCHG, OP_MOVTC, OP_MOVFC, OP_SAR, OP_XCHG, OP_AND, OP_OR, OP_XOR, OP_SHL,
      OP_SHR, OP_LOADID, OP_LOADRD, OP_STOREID, OP_STORERD, OP_ADD, OP_SUB, OP_MUL, OP_DIV, OP_OUT, OP_XCHGC}"
    unfolding mem by (simp add: named_ops_def oplkupbuf_def)
qed (simp_all add: nibble_in regs32.num_nm regs16.num_nm regs8.num_nm conds.num_nm)

theorem lookup_roundtrip_witness: "get_reg_for_name (get_name_of_reg 13) = 13"
  using conjunct1[OF lookup_roundtrip] by (simp add: nibble_in nibbles_def)

text \<open>
  The control register table is wrong in its last three rows, which repeat the number of \<open>ST1\<close>:
  the names \<open>ST2\<close>, \<open>ST3\<close> and \<open>ST4\<close> are looked up to \<open>ST1\<close>, and the numbers 8, 9 and 10 of those
  registers have no name. The first eight control registers round-trip.
\<close>

lemma creg_names:
  "(\<forall>r < 8. get_creg_for_name (get_name_of_creg r) = r) \<and>
   get_creg_for_name ''ST2'' = CPU_CREG_ST1 \<and> get_creg_for_name ''ST3'' = CPU_CREG_ST1 \<and>
   get_creg_for_name ''ST4'' = CPU_CREG_ST1 \<and>
   (\<forall>r \<in> {CPU_CREG_ST2, CPU_CREG_ST3, CPU_CREG_ST4}. get_name_of_creg r = ''N/A'')"
proof (intro conjI)
  show "\<forall>r < 8. get_creg_for_name (get_name_of_creg r) = r" using cregs.num_nm octal_in by blast
qed (simp_all add: get_creg_for_name_def get_name_of_creg_def creglkupbuf_def)

lemma creg_names_witness: "get_name_of_creg 8 = ''N/A'' \<and> get_creg_for_name (get_name_of_creg 5) = 5"
  using creg_names by auto

end
