(* ===== verification/Assembler.thy ===== *)
theory Assembler
  imports Emit Lookup
begin

text \<open>
  The assembler: the actions of the grammar \<^verbatim>\<open>src/assembler/vasm.y\<close>, label resolution and what
  follows the parse in \<open>main\<close>. A value of \<open>exp\<close> is a statement with the values that the lexer gives
  its tokens: names in upper case, immediates as words and dwords; the tokens themselves and the
  parser are in the theories of the lexer and the grammar. Most rules come in two forms, with and
  without a condition, which are one constructor with an optional name here.
\<close>

unbundle bit_operations_syntax

section \<open>Statements\<close>

text \<open>The rules that are named after their instruction format.\<close>

datatype fmt_exp =
    Fmt_I string "string option"
  | Fmt_II string "string option" string string string
  | Fmt_II_imm string "string option" string string word16
  | Fmt_IV string "string option" string word16
  | Fmt_V string "string option" string
  | Fmt_VI string "string option" string string
  | Fmt_VIC_creg_reg string "string option" string string
  | Fmt_VIC_reg_creg string "string option" string string
  | Fmt_VI_imm string "string option" string word16
  | Fmt_V_imm string "string option" word16
  | Fmt_VIII string "string option" word16

text \<open>The rules of the instructions that mix register sizes, and of the special registers.\<close>

datatype reg_class = Reg32 | Reg16 | Reg8

datatype data_exp =
    Cmpxchg "string option" string string string
  | Loadi8 "string option" string word16
  | Loadi16 "string option" string word16
  | Loadid reg_class "string option" string string word16
  | Loadrd reg_class "string option" string string string
  | Mov reg_class string "string option" string string
  | Sex8 "string option" string string
  | Sex16 "string option" string string
  | Storeid reg_class "string option" string string word16
  | Storerd reg_class "string option" string string string
  | Xchgc "string option" string string
  | Storeas string
  | Loadas string

text \<open>Instructions that the assembler makes up of others.\<close>

datatype pseudo_exp =
    Loadadr "string option" string string
  | Ldcall "string option" string string
  | Ldjmp "string option" string string
  | Push "string option" string
  | Pop "string option" string
  | Load32 "string option" string dword

datatype byte_exp = Byte_ENDL | Byte_SPACE | Byte_INT word16

datatype directive_exp =
    Align word16 word16
  | Label string
  | Offset dword
  | Byte word16
  | Word word16
  | Dword dword
  | At dword
  | Bytes "byte_exp list"

datatype exp = ENDL | SPACE | Fmt fmt_exp | Data data_exp | Pseudo pseudo_exp | Directive directive_exp

section \<open>Actions\<close>

text \<open>The condition of the two forms of a rule.\<close>

definition cond_code :: "string option \<Rightarrow> byte" where
  "cond_code c = (case c of None \<Rightarrow> COND_ALWAYS | Some n \<Rightarrow> get_cond_for_name n)"

lemma cond_code_less [simp]: "cond_code c < 16"
  by (simp add: cond_code_def split: option.split)

definition checkIfValid12Bit :: "word16 \<Rightarrow> emit_context \<Rightarrow> stop + emit_context" where
  "checkIfValid12Bit i ctx = (if i AND 0xF000 \<noteq> 0 then yyerror ctx else Inr ctx)"

fun fmt_action :: "fmt_exp \<Rightarrow> emit_context \<Rightarrow> stop + emit_context" where
  "fmt_action (Fmt_I op c) ctx = emit_fmt_i PREFIX_DWORD (cond_code c) (get_op_for_name op) ctx"
| "fmt_action (Fmt_II op c d a b) ctx =
     emit_fmt_ii PREFIX_DWORD (cond_code c) (get_op_for_name op)
       (get_reg_for_name d) (get_reg_for_name a) (get_reg_for_name b) ctx"
| "fmt_action (Fmt_II_imm op c d a i) ctx =
     ubind (checkIfValid12Bit i ctx) (\<lambda>ctx.
     emit_fmt_iii PREFIX_IMM (cond_code c) (get_op_for_name op)
       (get_reg_for_name d) (get_reg_for_name a) i ctx)"
| "fmt_action (Fmt_IV op c d i) ctx =
     emit_fmt_iv PREFIX_IMM (cond_code c) (get_op_for_name op) (get_reg_for_name d) i ctx"
| "fmt_action (Fmt_V op c d) ctx =
     emit_fmt_v PREFIX_DWORD (cond_code c) (get_op_for_name op) (get_reg_for_name d) ctx"
| "fmt_action (Fmt_VI op c a b) ctx =
     emit_fmt_vi PREFIX_DWORD (cond_code c) (get_op_for_name op) (get_reg_for_name a) (get_reg_for_name b) ctx"
| "fmt_action (Fmt_VIC_creg_reg op c a b) ctx =
     emit_fmt_vi PREFIX_DWORD (cond_code c) (get_op_for_name op) (get_creg_for_name a) (get_reg_for_name b) ctx"
| "fmt_action (Fmt_VIC_reg_creg op c a b) ctx =
     emit_fmt_vi PREFIX_DWORD (cond_code c) (get_op_for_name op) (get_reg_for_name a) (get_creg_for_name b) ctx"
| "fmt_action (Fmt_VI_imm op c a i) ctx =
     (if op \<noteq> ''CMP'' then yyerror ctx
      else
        ubind (checkIfValid12Bit i ctx) (\<lambda>ctx.
        emit_fmt_vii PREFIX_IMM (cond_code c) (get_op_for_name op) (get_reg_for_name a) i ctx))"
| "fmt_action (Fmt_V_imm op c i) ctx =
     emit_fmt_viii PREFIX_IMM (cond_code c) (get_op_for_name op) i ctx"
| "fmt_action (Fmt_VIII op c i) ctx =
     emit_fmt_viii PREFIX_IMM (cond_code c) (get_op_for_name op) i ctx"

fun class_prefix :: "reg_class \<Rightarrow> byte" where
  "class_prefix Reg32 = PREFIX_DWORD"
| "class_prefix Reg16 = PREFIX_WORD"
| "class_prefix Reg8 = PREFIX_BYTE"

fun class_reg :: "reg_class \<Rightarrow> string \<Rightarrow> byte" where
  "class_reg Reg32 = get_reg_for_name"
| "class_reg Reg16 = get_reg16_for_name"
| "class_reg Reg8 = get_reg8_for_name"

text \<open>
  \<open>LOADRD\<close> of a 16-bit register and \<open>XCHGC\<close> look some names up in another table in their
  conditional form than in their unconditional one.
\<close>

fun data_action :: "data_exp \<Rightarrow> emit_context \<Rightarrow> stop + emit_context" where
  "data_action (Cmpxchg c d a b) ctx =
     emit_fmt_ii PREFIX_DWORD (cond_code c) OP_CMPXCHG
       (get_reg_for_name d) (get_reg_for_name a) (get_reg_for_name b) ctx"
| "data_action (Loadi8 c d i) ctx =
     emit_fmt_iv PREFIX_BYTE (cond_code c) OP_LOADI (get_reg8_for_name d) i ctx"
| "data_action (Loadi16 c d i) ctx =
     emit_fmt_iv PREFIX_WORD (cond_code c) OP_LOADI (get_reg16_for_name d) i ctx"
| "data_action (Loadid k c d a i) ctx =
     ubind (checkIfValid12Bit i ctx) (\<lambda>ctx.
     emit_fmt_iii (class_prefix k) (cond_code c) OP_LOADID (class_reg k d) (get_reg_for_name a) i ctx)"
| "data_action (Loadrd Reg16 (Some c) d a b) ctx =
     emit_fmt_ii PREFIX_WORD (get_cond_for_name c) OP_LOADRD
       (get_reg8_for_name d) (get_reg_for_name a) (get_reg16_for_name b) ctx"
| "data_action (Loadrd k c d a b) ctx =
     emit_fmt_ii (class_prefix k) (cond_code c) OP_LOADRD
       (class_reg k d) (get_reg_for_name a) (get_reg_for_name b) ctx"
| "data_action (Mov k op c a b) ctx =
     emit_fmt_vi (class_prefix k) (cond_code c) (get_op_for_name op) (class_reg k a) (class_reg k b) ctx"
| "data_action (Sex8 c a b) ctx =
     emit_fmt_vi PREFIX_BYTE (cond_code c) OP_SEX (get_reg_for_name a) (get_reg8_for_name b) ctx"
| "data_action (Sex16 c a b) ctx =
     emit_fmt_vi PREFIX_WORD (cond_code c) OP_SEX (get_reg_for_name a) (get_reg16_for_name b) ctx"
| "data_action (Storeid k c d a i) ctx =
     ubind (checkIfValid12Bit i ctx) (\<lambda>ctx.
     emit_fmt_iii (class_prefix k) (cond_code c) OP_STOREID (get_reg_for_name d) (class_reg k a) i ctx)"
| "data_action (Storerd k c d a b) ctx =
     emit_fmt_ii (class_prefix k) (cond_code c) OP_STORERD
       (get_reg_for_name d) (class_reg k a) (get_reg_for_name b) ctx"
| "data_action (Xchgc None a b) ctx =
     emit_fmt_vi PREFIX_DWORD COND_ALWAYS OP_XCHGC (get_reg_for_name a) (get_creg_for_name b) ctx"
| "data_action (Xchgc (Some c) a b) ctx =
     emit_fmt_vi PREFIX_DWORD (get_cond_for_name c) OP_XCHGC (get_reg_for_name a) (get_reg8_for_name b) ctx"
| "data_action (Storeas d) ctx =
     emit_fmt_v PREFIX_DWORD COND_ALWAYS OP_STOREAS (get_reg_for_name d) ctx"
| "data_action (Loadas d) ctx =
     emit_fmt_v PREFIX_DWORD COND_ALWAYS OP_LOADAS (get_reg_for_name d) ctx"

text \<open>The pair of \<open>LOADI\<close> instructions that loads the halves of a dword into two word registers.\<close>

definition emit_loadi_pair :: "byte \<Rightarrow> byte \<Rightarrow> dword \<Rightarrow> emit_context \<Rightarrow> stop + emit_context" where
  "emit_loadi_pair cond reg val ctx =
     ubind (emit_fmt_iv PREFIX_WORD cond OP_LOADI reg (ucast (LWORD_FROM_DWORD val)) ctx) (\<lambda>ctx.
     emit_fmt_iv PREFIX_WORD cond OP_LOADI (reg + 1) (ucast (HWORD_FROM_DWORD val)) ctx)"

text \<open>The guard and the reference that the three address-loading instructions share.\<close>

definition label_ref_action :: "string option \<Rightarrow> string \<Rightarrow> string \<Rightarrow> emit_context \<Rightarrow> stop + emit_context" where
  "label_ref_action c r name ctx =
     (if get_reg_for_name r > CPU_REG_R7 then yyerror ctx
      else emit_label_ref name (get_reg_for_name r) (cond_code c) ctx)"

fun pseudo_action :: "pseudo_exp \<Rightarrow> emit_context \<Rightarrow> stop + emit_context" where
  "pseudo_action (Loadadr c r name) ctx = label_ref_action c r name ctx"
| "pseudo_action (Ldcall c r name) ctx =
     ubind (label_ref_action c r name ctx) (\<lambda>ctx.
     emit_fmt_v PREFIX_DWORD (cond_code c) OP_CALL (get_reg_for_name r) ctx)"
| "pseudo_action (Ldjmp c r name) ctx =
     ubind (label_ref_action c r name ctx) (\<lambda>ctx.
     emit_fmt_v PREFIX_DWORD (cond_code c) OP_JMP (get_reg_for_name r) ctx)"
| "pseudo_action (Push c r) ctx =
     (let imm = push_bit 4 (get_reg_for_name r) OR get_reg_for_name r in
      emit_fmt_iv PREFIX_IMM (cond_code c) OP_STOREMA (get_reg_for_name ''SP'') (ucast imm) ctx)"
| "pseudo_action (Pop c r) ctx =
     (let imm = push_bit 4 (get_reg_for_name r) OR get_reg_for_name r in
      emit_fmt_iv PREFIX_IMM (cond_code c) OP_LOADMA (get_reg_for_name ''SP'') (ucast imm) ctx)"
| "pseudo_action (Load32 c r val) ctx =
     (let high = (get_reg_for_name r > CPU_REG_R7);
          swap = (\<lambda>ctx. if high
            then emit_fmt_vi PREFIX_DWORD (cond_code c) OP_XCHG CPU_REG_R7 (get_reg_for_name r) ctx
            else Inr ctx);
          reg = (if high then CPU_REG_R7 * 2 else get_reg_for_name r * 2)
      in ubind (swap ctx) (\<lambda>ctx. ubind (emit_loadi_pair (cond_code c) reg val ctx) swap))"

section \<open>Directives\<close>

lemma epos_handle: "handle_exceeding_buffer ctx n = Inr ctx' \<Longrightarrow> epos ctx' = epos ctx"
  by (auto simp: handle_exceeding_buffer_def yyerror_def Let_def split: if_splits)

lemma epos_emit_byte: "emit_byte b ctx = Inr ctx' \<Longrightarrow> epos ctx' = epos ctx + 1"
  by (auto simp: emit_byte_def put_byte_def dest: epos_handle split: if_splits)

text \<open>
  The loop of \<open>.align\<close>. The position grows by one on each pass and the remainder is zero at the
  latest when it wraps around to zero, so the loop ends.
\<close>

function align_loop :: "word16 \<Rightarrow> word16 \<Rightarrow> emit_context \<Rightarrow> stop + emit_context" where
  "align_loop n fill ctx =
     (if n = 0 then Inl Div_zero
      else if epos ctx mod ucast n \<noteq> 0 then ubind (emit_byte (ucast fill) ctx) (align_loop n fill)
      else Inr ctx)"
  by pat_completeness auto
termination
proof (relation "measure (\<lambda>(n, fill, ctx). unat (- epos ctx))")
  fix n fill :: word16 and ctx ctx' :: emit_context
  assume "epos ctx mod ucast n \<noteq> 0" and "emit_byte (ucast fill) ctx = Inr ctx'"
  then have "epos ctx \<noteq> 0" and "epos ctx' = epos ctx + 1" by (auto dest: epos_emit_byte)
  moreover from this(1) have "- epos ctx \<noteq> 0" by simp
  then have "unat (- epos ctx - 1) < unat (- epos ctx)"
    by (simp add: unat_minus_one unat_gt_0)
  ultimately show "((n, fill, ctx'), n, fill, ctx) \<in> measure (\<lambda>(n, fill, ctx). unat (- epos ctx))"
    by simp
qed simp

declare align_loop.simps [simp del]

fun bytes_action :: "byte_exp list \<Rightarrow> emit_context \<Rightarrow> stop + emit_context" where
  "bytes_action [] ctx = Inr ctx"
| "bytes_action (Byte_ENDL # bs) ctx = bytes_action bs ctx"
| "bytes_action (Byte_SPACE # bs) ctx = bytes_action bs ctx"
| "bytes_action (Byte_INT i # bs) ctx =
     (if i > 0xFF then yyerror ctx else ubind (emit_byte (ucast i) ctx) (bytes_action bs))"

fun directive_action :: "directive_exp \<Rightarrow> emit_context \<Rightarrow> stop + emit_context" where
  "directive_action (Align n fill) ctx = align_loop n fill ctx"
| "directive_action (Label name) ctx = emit_label name ctx"
| "directive_action (Offset d) ctx = Inr (ctx\<lparr>eoffset := d\<rparr>)"
| "directive_action (Byte i) ctx =
     (if i > 0xFF then yyerror ctx else emit_byte (ucast i) ctx)"
| "directive_action (Word i) ctx =
     ubind (emit_byte (ucast (LBYTE_FROM_WORD i)) ctx)
       (emit_byte (ucast (HBYTE_FROM_WORD i)))"
| "directive_action (Dword d) ctx =
     ubind (emit_byte (ucast (LLBYTE_FROM_DWORD d)) ctx) (\<lambda>ctx.
     ubind (emit_byte (ucast (LHBYTE_FROM_DWORD d)) ctx) (\<lambda>ctx.
     ubind (emit_byte (ucast (HLBYTE_FROM_DWORD d)) ctx) (\<lambda>ctx.
     emit_byte (ucast (HHBYTE_FROM_DWORD d)) ctx)))"
| "directive_action (At d) ctx = Inr (ctx\<lparr>epos := d\<rparr>)"
| "directive_action (Bytes bs) ctx = bytes_action bs ctx"

fun action :: "exp \<Rightarrow> emit_context \<Rightarrow> stop + emit_context" where
  "action ENDL ctx = Inr ctx"
| "action SPACE ctx = Inr ctx"
| "action (Fmt e) ctx = fmt_action e ctx"
| "action (Data e) ctx = data_action e ctx"
| "action (Pseudo e) ctx = pseudo_action e ctx"
| "action (Directive e) ctx = directive_action e ctx"

section \<open>The program\<close>

fun resolve_refs :: "label_ref list \<Rightarrow> emit_context \<Rightarrow> stop + emit_context" where
  "resolve_refs [] ctx = Inr ctx"
| "resolve_refs (lr # lrs) ctx =
     ubind (emit_label_res (ref_name lr) ctx) (\<lambda>val.
     ubind (emit_loadi_pair (ref_cond lr) (ref_reg lr * 2) val (ctx\<lparr>epos := ref_pos lr\<rparr>))
       (resolve_refs lrs))"

definition label_resolution :: "emit_context \<Rightarrow> stop + emit_context" where
  "label_resolution ctx = resolve_refs (labelrefs ctx) ctx"

text \<open>What \<open>fwrite\<close> puts into the output file.\<close>

definition write_file :: "emit_context \<Rightarrow> stop + byte option list" where
  "write_file ctx =
     (if unat (highest_pos ctx) \<le> length (buf ctx) then Inr (take (unat (highest_pos ctx)) (buf ctx))
      else Inl (Heap_oob (length (buf ctx))))"

text \<open>
  \<open>main\<close> once the command line is read and the files are open: \<open>fixed\<close> is the argument of
  \<^verbatim>\<open>--fixed-buffer\<close> if it is given, \<open>es\<close> the statements of the input in their order.
\<close>

definition vasm_main :: "(nat \<Rightarrow> bool) \<Rightarrow> int option \<Rightarrow> exp list \<Rightarrow> stop + byte option list" where
  "vasm_main heap fixed es =
     (let (buffer_size, fixed_size) =
        (case fixed of None \<Rightarrow> (of_nat DYNAMIC_BUFFER_SIZE, 0) | Some n \<Rightarrow> (of_int n, 1)) in
      case emit_create_context heap buffer_size fixed_size of
        None \<Rightarrow> Inl Null_deref
      | Some ctx \<Rightarrow>
          ubind (emit_seq action es (ctx\<lparr>eoffset := 4096\<rparr>)) (\<lambda>ctx.
          ubind (label_resolution ctx) write_file))"

section \<open>Programs as chunks of code\<close>

text \<open>
  The abstract view of a statement: the runs of bytes it appends, the references and labels it
  leaves at its position, the changes of the two counters, and the points at which it is rejected.
\<close>

datatype chunk =
    Code "byte list"
  | Ref byte byte string
  | Lab string
  | Org dword
  | Goto dword
  | Bad
  | Rem_zero

fun emit_chunk :: "chunk \<Rightarrow> emit_context \<Rightarrow> stop + emit_context" where
  "emit_chunk (Code bs) ctx = emit_run bs ctx"
| "emit_chunk (Ref r c n) ctx = emit_label_ref n r c ctx"
| "emit_chunk (Lab n) ctx = emit_label n ctx"
| "emit_chunk (Org d) ctx = Inr (ctx\<lparr>eoffset := d\<rparr>)"
| "emit_chunk (Goto d) ctx = Inr (ctx\<lparr>epos := d\<rparr>)"
| "emit_chunk Bad ctx = yyerror ctx"
| "emit_chunk Rem_zero ctx = Inl Div_zero"

definition check12 :: "word16 \<Rightarrow> chunk list \<Rightarrow> chunk list" where
  "check12 i cs = (if i AND 0xF000 \<noteq> 0 then [Bad] else cs)"

lemma wide12: "i AND 0xF000 \<noteq> 0 \<longleftrightarrow> 0x1000 \<le> i" for i :: word16
proof -
  have high: "(0xF000 :: word16) = push_bit 12 (mask 4)"
    by (simp add: mask_eq_exp_minus_1 push_bit_eq_mult)
  have "i AND 0xF000 = 0 \<longleftrightarrow> take_bit 12 i = i"
    unfolding high by (auto simp: bit_eq_iff bit_simps)
  also have "\<dots> \<longleftrightarrow> i < 0x1000" by (simp add: word_unat_eq_iff unsigned_take_bit_eq take_bit_nat_eq_self_iff word_less_nat_alt)
  finally show ?thesis by auto
qed

fun fmt_chunks :: "fmt_exp \<Rightarrow> chunk list" where
  "fmt_chunks (Fmt_I op c) = [Code (code_i (0, cond_code c, get_op_for_name op))]"
| "fmt_chunks (Fmt_II op c d a b) = [Code (code_ii (0, cond_code c, get_op_for_name op,
     get_reg_for_name d, get_reg_for_name a, get_reg_for_name b))]"
| "fmt_chunks (Fmt_II_imm op c d a i) = check12 i [Code (code_iii (3, cond_code c, get_op_for_name op,
     get_reg_for_name d, get_reg_for_name a, i))]"
| "fmt_chunks (Fmt_IV op c d i) =
     [Code (code_iv (3, cond_code c, get_op_for_name op, get_reg_for_name d, i))]"
| "fmt_chunks (Fmt_V op c d) =
     [Code (code_ii (0, cond_code c, get_op_for_name op, get_reg_for_name d, 0, 0))]"
| "fmt_chunks (Fmt_VI op c a b) = [Code (code_ii (0, cond_code c, get_op_for_name op,
     0, get_reg_for_name a, get_reg_for_name b))]"
| "fmt_chunks (Fmt_VIC_creg_reg op c a b) = [Code (code_ii (0, cond_code c, get_op_for_name op,
     0, get_creg_for_name a, get_reg_for_name b))]"
| "fmt_chunks (Fmt_VIC_reg_creg op c a b) = [Code (code_ii (0, cond_code c, get_op_for_name op,
     0, get_reg_for_name a, get_creg_for_name b))]"
| "fmt_chunks (Fmt_VI_imm op c a i) =
     (if op \<noteq> ''CMP'' then [Bad]
      else check12 i [Code (code_iii (3, cond_code c, get_op_for_name op, 0, get_reg_for_name a, i))])"
| "fmt_chunks (Fmt_V_imm op c i) = [Code (code_iv (3, cond_code c, get_op_for_name op, 0, i))]"
| "fmt_chunks (Fmt_VIII op c i) = [Code (code_iv (3, cond_code c, get_op_for_name op, 0, i))]"

fun data_chunks :: "data_exp \<Rightarrow> chunk list" where
  "data_chunks (Cmpxchg c d a b) = [Code (code_ii (0, cond_code c, OP_CMPXCHG,
     get_reg_for_name d, get_reg_for_name a, get_reg_for_name b))]"
| "data_chunks (Loadi8 c d i) = [Code (code_iv (2, cond_code c, OP_LOADI, get_reg8_for_name d, i))]"
| "data_chunks (Loadi16 c d i) = [Code (code_iv (1, cond_code c, OP_LOADI, get_reg16_for_name d, i))]"
| "data_chunks (Loadid k c d a i) =
     check12 i [Code (code_iii (class_prefix k, cond_code c, OP_LOADID, class_reg k d, get_reg_for_name a, i))]"
| "data_chunks (Loadrd k c d a b) =
     (if k = Reg16 \<and> c \<noteq> None
      then [Code (code_ii (1, cond_code c, OP_LOADRD, get_reg8_for_name d, get_reg_for_name a, get_reg16_for_name b))]
      else [Code (code_ii (class_prefix k, cond_code c, OP_LOADRD, class_reg k d, get_reg_for_name a, get_reg_for_name b))])"
| "data_chunks (Mov k op c a b) =
     [Code (code_ii (class_prefix k, cond_code c, get_op_for_name op, 0, class_reg k a, class_reg k b))]"
| "data_chunks (Sex8 c a b) = [Code (code_ii (2, cond_code c, OP_SEX, 0, get_reg_for_name a, get_reg8_for_name b))]"
| "data_chunks (Sex16 c a b) = [Code (code_ii (1, cond_code c, OP_SEX, 0, get_reg_for_name a, get_reg16_for_name b))]"
| "data_chunks (Storeid k c d a i) =
     check12 i [Code (code_iii (class_prefix k, cond_code c, OP_STOREID, get_reg_for_name d, class_reg k a, i))]"
| "data_chunks (Storerd k c d a b) =
     [Code (code_ii (class_prefix k, cond_code c, OP_STORERD, get_reg_for_name d, class_reg k a, get_reg_for_name b))]"
| "data_chunks (Xchgc c a b) = [Code (code_ii (0, cond_code c, OP_XCHGC, 0, get_reg_for_name a,
     (if c = None then get_creg_for_name b else get_reg8_for_name b)))]"
| "data_chunks (Storeas d) = [Code (code_ii (0, 0, OP_STOREAS, get_reg_for_name d, 0, 0))]"
| "data_chunks (Loadas d) = [Code (code_ii (0, 0, OP_LOADAS, get_reg_for_name d, 0, 0))]"

definition loadi_pair :: "byte \<Rightarrow> byte \<Rightarrow> dword \<Rightarrow> byte list" where
  "loadi_pair c r v = code_iv (1, c, OP_LOADI, r, ucast v) @ code_iv (1, c, OP_LOADI, r + 1, ucast (drop_bit 16 v))"

definition ref_chunks :: "string option \<Rightarrow> string \<Rightarrow> string \<Rightarrow> chunk list" where
  "ref_chunks c r name =
     (if get_reg_for_name r > 7 then [Bad] else [Ref (get_reg_for_name r) (cond_code c) name])"

fun pseudo_chunks :: "pseudo_exp \<Rightarrow> chunk list" where
  "pseudo_chunks (Loadadr c r name) = ref_chunks c r name"
| "pseudo_chunks (Ldcall c r name) =
     ref_chunks c r name @ [Code (code_ii (0, cond_code c, OP_CALL, get_reg_for_name r, 0, 0))]"
| "pseudo_chunks (Ldjmp c r name) =
     ref_chunks c r name @ [Code (code_ii (0, cond_code c, OP_JMP, get_reg_for_name r, 0, 0))]"
| "pseudo_chunks (Push c r) = [Code (code_iv (3, cond_code c, OP_STOREMA, get_reg_for_name ''SP'',
     ucast (push_bit 4 (get_reg_for_name r) OR get_reg_for_name r)))]"
| "pseudo_chunks (Pop c r) = [Code (code_iv (3, cond_code c, OP_LOADMA, get_reg_for_name ''SP'',
     ucast (push_bit 4 (get_reg_for_name r) OR get_reg_for_name r)))]"
| "pseudo_chunks (Load32 c r v) =
     (let n = get_reg_for_name r; swap = (if n > 7 then [Code (code_ii (0, cond_code c, OP_XCHG, 0, 7, n))] else []);
          q = (if n > 7 then 14 else n * 2)
      in swap @ [Code (code_iv (1, cond_code c, OP_LOADI, q, ucast v)),
           Code (code_iv (1, cond_code c, OP_LOADI, q + 1, ucast (drop_bit 16 v)))] @ swap)"

text \<open>The number of bytes from a position up to the next multiple of \<open>n\<close>.\<close>

definition padding :: "nat \<Rightarrow> nat \<Rightarrow> nat" where
  "padding n p = (n - p mod n) mod n"

fun bytes_chunks :: "byte_exp list \<Rightarrow> chunk list" where
  "bytes_chunks [] = []"
| "bytes_chunks (Byte_INT i # bs) = (if i > 0xFF then [Bad] else [Code [ucast i]]) @ bytes_chunks bs"
| "bytes_chunks (b # bs) = bytes_chunks bs"

fun directive_chunks :: "nat \<Rightarrow> directive_exp \<Rightarrow> chunk list" where
  "directive_chunks p (Align n fill) =
     (if n = 0 then [Rem_zero] else replicate (padding (unat n) p) (Code [ucast fill]))"
| "directive_chunks p (Label name) = [Lab name]"
| "directive_chunks p (Offset d) = [Org d]"
| "directive_chunks p (Byte i) = (if i > 0xFF then [Bad] else [Code [ucast i]])"
| "directive_chunks p (Word i) = [Code [ucast i], Code [ucast (drop_bit 8 i)]]"
| "directive_chunks p (Dword d) = [Code [ucast d], Code [ucast (drop_bit 8 d)],
     Code [ucast (drop_bit 16 d)], Code [ucast (drop_bit 24 d)]]"
| "directive_chunks p (At d) = [Goto d]"
| "directive_chunks p (Bytes bs) = bytes_chunks bs"

fun chunks :: "nat \<Rightarrow> exp \<Rightarrow> chunk list" where
  "chunks p ENDL = []"
| "chunks p SPACE = []"
| "chunks p (Fmt e) = fmt_chunks e"
| "chunks p (Data e) = data_chunks e"
| "chunks p (Pseudo e) = pseudo_chunks e"
| "chunks p (Directive e) = directive_chunks p e"

section \<open>The actions refine the chunks\<close>

lemma emit_seq_Nil [simp]: "emit_seq f [] = Inr"
  by (rule ext) simp

lemma emit_seq_Cons [simp]: "emit_seq f (x # xs) = (\<lambda>ctx. ubind (f x ctx) (emit_seq f xs))"
  by (rule ext) simp

lemma emit_seq_append: "emit_seq f (xs @ ys) = (\<lambda>ctx. ubind (emit_seq f xs ctx) (emit_seq f ys))"
  by (induction xs) (auto simp: ubind_assoc)

lemma check12_action:
  "ubind (checkIfValid12Bit i ctx) (\<lambda>ctx. emit_run bs ctx) = emit_seq emit_chunk (check12 i [Code bs]) ctx"
  by (simp add: checkIfValid12Bit_def check12_def yyerror_def)

text \<open>Every encoder emits its code.\<close>

lemma encoder_runs:
  "emit_fmt_i p c q = emit_run (code_i (p, c, q))"
  "emit_fmt_ii p c q d a b = emit_run (code_ii (p, c, q, d, a, b))"
  "emit_fmt_iii p c q d a i = emit_run (code_iii (p, c, q, d, a, i))"
  "emit_fmt_iv p c q d i = emit_run (code_iv (p, c, q, d, i))"
  using fmt_i.emit_code[of "(p, c, q)"] fmt_i.length_code[of "(p, c, q)"]
    fmt_ii.emit_code[of "(p, c, q, d, a, b)"] fmt_ii.length_code[of "(p, c, q, d, a, b)"]
    fmt_iii.emit_code[of "(p, c, q, d, a, i)"] fmt_iii.length_code[of "(p, c, q, d, a, i)"]
    fmt_iv.emit_code[of "(p, c, q, d, i)"] fmt_iv.length_code[of "(p, c, q, d, i)"]
  by (simp_all add: emit_four_run)

lemmas chunk_simps = encoder_runs fmt_as emit_byte_run check12_action

lemma fmt_refines: "fmt_action e ctx = emit_seq emit_chunk (fmt_chunks e) ctx"
  by (cases e) (simp_all add: chunk_simps yyerror_def)

lemma data_refines: "data_action e ctx = emit_seq emit_chunk (data_chunks e) ctx"
  by (cases "(e, ctx)" rule: data_action.cases) (simp_all add: chunk_simps cond_code_def)

lemma ucast_halves:
  "(ucast (LWORD_FROM_DWORD v) :: word16) = ucast v" "(ucast (HWORD_FROM_DWORD v) :: word16) = ucast (drop_bit 16 v)"
  by (simp_all add: LWORD_FROM_DWORD_def HWORD_FROM_DWORD_def)

lemma loadi_pair_run:
  "emit_loadi_pair c r v ctx =
     ubind (emit_run (code_iv (1, c, OP_LOADI, r, ucast v)) ctx)
       (emit_run (code_iv (1, c, OP_LOADI, r + 1, ucast (drop_bit 16 v))))"
  by (simp add: emit_loadi_pair_def encoder_runs ucast_halves)

lemma ref_refines: "label_ref_action c r name ctx = emit_seq emit_chunk (ref_chunks c r name) ctx"
  by (simp add: label_ref_action_def ref_chunks_def)

lemma pseudo_refines: "pseudo_action e ctx = emit_seq emit_chunk (pseudo_chunks e) ctx"
proof (cases e)
  case (Load32 c r v)
  then show ?thesis by (simp add: chunk_simps loadi_pair_run Let_def emit_seq_append ubind_assoc)
qed (simp_all add: chunk_simps ref_refines emit_seq_append Let_def)

lemma padding_step:
  assumes "0 < n"
  shows "padding n p = (if p mod n = 0 then 0 else Suc (padding n (p + 1)))"
proof -
  have "p mod n < n" using assms by simp
  then show ?thesis by (auto simp: padding_def mod_Suc)
qed

lemma align_refines:
  "n \<noteq> 0 \<Longrightarrow> unat (epos ctx) + padding (unat n) (unat (epos ctx)) < 2 ^ 32 \<Longrightarrow>
     align_loop n fill ctx =
       emit_seq emit_chunk (replicate (padding (unat n) (unat (epos ctx))) (Code [ucast fill])) ctx"
proof (induction n fill ctx rule: align_loop.induct)
  case (1 n fill ctx)
  have n: "0 < unat n" using 1(2) by (simp add: unat_gt_0)
  have rem: "epos ctx mod ucast n = 0 \<longleftrightarrow> unat (epos ctx) mod unat n = 0"
    using unat_word16_less[of n] by (simp add: word_unat_eq_iff unat_mod unsigned_ucast_eq take_bit_nat_eq_self)
  show ?case
  proof (cases "unat (epos ctx) mod unat n = 0")
    case True
    then show ?thesis using 1(2) rem n by (subst align_loop.simps) (simp add: padding_step)
  next
    case False
    then have pad: "padding (unat n) (unat (epos ctx)) = Suc (padding (unat n) (unat (epos ctx) + 1))"
      using padding_step[OF n] by simp
    have pos: "unat (epos ctx + 1) = unat (epos ctx) + 1"
      using 1(3) pad by (simp add: unat_word_ariths)
    have "align_loop n fill ctx' =
      emit_seq emit_chunk (replicate (padding (unat n) (unat (epos ctx) + 1)) (Code [ucast fill])) ctx'"
      if "emit_byte (ucast fill) ctx = Inr ctx'" for ctx'
      using 1(1)[OF 1(2) _ that] False rem 1(2,3) pad pos epos_emit_byte[OF that] by simp
    then show ?thesis
      using False rem 1(2) pad
      by (subst align_loop.simps) (auto simp: emit_byte_run intro!: ubind_cong)
  qed
qed

lemma bytes_refines: "bytes_action bs ctx = emit_seq emit_chunk (bytes_chunks bs) ctx"
  by (induction bs ctx rule: bytes_action.induct) (auto simp: chunk_simps yyerror_def intro!: ubind_cong)

lemma byte_macros [simp]:
  "(ucast (LBYTE_FROM_WORD w) :: byte) = ucast w" "(ucast (HBYTE_FROM_WORD w) :: byte) = ucast (drop_bit 8 w)"
  "(ucast (LLBYTE_FROM_DWORD d) :: byte) = ucast d" "(ucast (LHBYTE_FROM_DWORD d) :: byte) = ucast (drop_bit 8 d)"
  "(ucast (HLBYTE_FROM_DWORD d) :: byte) = ucast (drop_bit 16 d)"
  "(ucast (HHBYTE_FROM_DWORD d) :: byte) = ucast (drop_bit 24 d)"
  by (rule bit_word_eqI; auto simp: macro_defs mask_8 bit_simps)+

lemma directive_refines:
  assumes "\<And>n fill. e = Align n fill \<Longrightarrow> n \<noteq> 0 \<Longrightarrow>
    unat (epos ctx) + padding (unat n) (unat (epos ctx)) < 2 ^ 32"
  shows "directive_action e ctx = emit_seq emit_chunk (directive_chunks (unat (epos ctx)) e) ctx"
proof (cases e)
  case (Align n fill)
  then show ?thesis
    using assms align_refines[of n ctx fill] by (cases "n = 0") (simp_all add: align_loop.simps)
qed (auto simp: chunk_simps bytes_refines yyerror_def ubind_assoc)

lemma action_refines:
  assumes "\<And>n fill. e = Directive (Align n fill) \<Longrightarrow> n \<noteq> 0 \<Longrightarrow>
    unat (epos ctx) + padding (unat n) (unat (epos ctx)) < 2 ^ 32"
  shows "action e ctx = emit_seq emit_chunk (chunks (unat (epos ctx)) e) ctx"
  using assms by (cases e) (simp_all add: fmt_refines data_refines pseudo_refines directive_refines)

section \<open>Layout\<close>

text \<open>
  The specification of the two passes over chunks: the size of a chunk, the chunks of a program,
  the addresses of its labels, its references and the bytes before and after they are resolved.
\<close>

fun chunk_size :: "chunk \<Rightarrow> nat" where
  "chunk_size (Code bs) = length bs"
| "chunk_size (Ref r c n) = 8"
| "chunk_size _ = 0"

definition size_of :: "chunk list \<Rightarrow> nat" where
  "size_of cs = sum_list (map chunk_size cs)"

lemma size_of_simps [simp]:
  "size_of [] = 0" "size_of (c # cs) = chunk_size c + size_of cs" "size_of (cs @ ds) = size_of cs + size_of ds"
  by (simp_all add: size_of_def)

fun prog_chunks :: "nat \<Rightarrow> exp list \<Rightarrow> chunk list" where
  "prog_chunks p [] = []"
| "prog_chunks p (e # es) = chunks p e @ prog_chunks (p + size_of (chunks p e)) es"

fun place :: "nat \<Rightarrow> dword \<Rightarrow> (string \<rightharpoonup> dword) \<Rightarrow> chunk list \<Rightarrow> (string \<rightharpoonup> dword)" where
  "place p d L [] = L"
| "place p d L (Lab n # cs) = place p d (L(n \<mapsto> of_nat p + d)) cs"
| "place p d L (Org d' # cs) = place p d' L cs"
| "place p d L (c # cs) = place (p + chunk_size c) d L cs"

fun refs :: "nat \<Rightarrow> chunk list \<Rightarrow> label_ref list" where
  "refs p [] = []"
| "refs p (Ref r c n # cs) =
     \<lparr>ref_pos = of_nat p, ref_reg = r, ref_name = n, ref_cond = c\<rparr> # refs (p + 8) cs"
| "refs p (c # cs) = refs (p + chunk_size c) cs"

fun raw :: "chunk list \<Rightarrow> byte list" where
  "raw [] = []"
| "raw (Code bs # cs) = bs @ raw cs"
| "raw (Ref r c n # cs) = replicate 8 0 @ raw cs"
| "raw (c # cs) = raw cs"

fun link :: "(string \<rightharpoonup> dword) \<Rightarrow> chunk list \<Rightarrow> byte list" where
  "link L [] = []"
| "link L (Code bs # cs) = bs @ link L cs"
| "link L (Ref r c n # cs) = loadi_pair c (r * 2) (the (L n)) @ link L cs"
| "link L (c # cs) = link L cs"

text \<open>
  The conditions: no chunk crosses a block boundary, none moves the position or divides by zero,
  and the image stays a kilobyte below the width of a position (\<open>fits_all\<close>); no statement is
  rejected and no label defined twice (\<open>accepted\<close>); every reference has its label (\<open>resolved\<close>).
\<close>

fun fits_at :: "nat \<Rightarrow> chunk \<Rightarrow> bool" where
  "fits_at p (Code bs) \<longleftrightarrow> bs \<noteq> [] \<and> p mod 512 + length bs \<le> 512 \<and> p + 1024 < 2 ^ 32"
| "fits_at p (Ref r c n) \<longleftrightarrow> p mod 512 + 8 \<le> 512 \<and> p + 1024 < 2 ^ 32"
| "fits_at p (Goto d) \<longleftrightarrow> False"
| "fits_at p Rem_zero \<longleftrightarrow> False"
| "fits_at p _ \<longleftrightarrow> True"

fun fits_all :: "nat \<Rightarrow> chunk list \<Rightarrow> bool" where
  "fits_all p [] \<longleftrightarrow> True"
| "fits_all p (c # cs) \<longleftrightarrow> fits_at p c \<and> fits_all (p + chunk_size c) cs"

fun accepted :: "string set \<Rightarrow> chunk list \<Rightarrow> bool" where
  "accepted S [] \<longleftrightarrow> True"
| "accepted S (Bad # cs) \<longleftrightarrow> False"
| "accepted S (Lab n # cs) \<longleftrightarrow> n \<notin> S \<and> accepted (insert n S) cs"
| "accepted S (c # cs) \<longleftrightarrow> accepted S cs"

fun resolved :: "(string \<rightharpoonup> dword) \<Rightarrow> chunk list \<Rightarrow> bool" where
  "resolved L [] \<longleftrightarrow> True"
| "resolved L (Ref r c n # cs) \<longleftrightarrow> L n \<noteq> None \<and> resolved L cs"
| "resolved L (c # cs) \<longleftrightarrow> resolved L cs"

lemma fits_all_append: "fits_all p (cs @ ds) \<longleftrightarrow> fits_all p cs \<and> fits_all (p + size_of cs) ds"
  by (induction cs arbitrary: p) (auto simp: add.assoc)

lemma length_raw: "length (raw cs) = size_of cs"
  by (induction cs rule: raw.induct) auto

lemma length_loadi_pair [simp]: "length (loadi_pair c r v) = 8"
  by (simp add: loadi_pair_def code_iv_def)

lemma length_link: "length (link L cs) = size_of cs"
  by (induction L cs rule: link.induct) auto

section \<open>The first pass\<close>

definition pass_one :: "emit_context \<Rightarrow> chunk list \<Rightarrow> emit_context \<Rightarrow> bool" where
  "pass_one ctx cs ctx' \<longleftrightarrow> sequential ctx' \<and> image ctx' = image ctx @ map Some (raw cs) \<and>
     unat (epos ctx') = unat (epos ctx) + size_of cs \<and>
     labels ctx' = place (unat (epos ctx)) (eoffset ctx) (labels ctx) cs \<and>
     labelrefs ctx' = labelrefs ctx @ refs (unat (epos ctx)) cs"

lemma emit_chunk_code:
  assumes "sequential ctx" and "fits_at (unat (epos ctx)) (Code bs)"
  shows "\<exists>ctx1. emit_run bs ctx = Inr ctx1 \<and> sequential ctx1 \<and> image ctx1 = image ctx @ map Some bs \<and>
    unat (epos ctx1) = unat (epos ctx) + length bs \<and> keeps_labels ctx ctx1"
  using emit_run_append[of ctx bs] assms by (auto simp: in_block_def)

lemma emit_chunk_ref:
  assumes "sequential ctx" and "fits_at (unat (epos ctx)) (Ref r c n)"
  shows "\<exists>ctx1. emit_label_ref n r c ctx = Inr ctx1 \<and> sequential ctx1 \<and>
    image ctx1 = image ctx @ replicate 8 (Some 0) \<and> unat (epos ctx1) = unat (epos ctx) + 8 \<and>
    labels ctx1 = labels ctx \<and> eoffset ctx1 = eoffset ctx \<and> labelrefs ctx1 = labelrefs ctx @
      [\<lparr>ref_pos = epos ctx, ref_reg = r, ref_name = n, ref_cond = c\<rparr>]"
  using emit_label_ref_append[of ctx n r c] assms by (auto simp: in_block_def)

lemma sequential_upd:
  "sequential ctx \<Longrightarrow> sequential (ctx\<lparr>labels := L\<rparr>)" "sequential ctx \<Longrightarrow> sequential (ctx\<lparr>eoffset := d\<rparr>)"
  "image (ctx\<lparr>labels := L\<rparr>) = image ctx" "image (ctx\<lparr>eoffset := d\<rparr>) = image ctx"
  by (auto simp: sequential_def wf_emit_def image_def)

lemma pass_one_correct:
  assumes "sequential ctx" and "fits_all (unat (epos ctx)) cs"
  shows "if accepted (dom (labels ctx)) cs then \<exists>ctx'. emit_seq emit_chunk cs ctx = Inr ctx' \<and> pass_one ctx cs ctx'
    else emit_seq emit_chunk cs ctx = Inl (Exit (- 1))"
  using assms
proof (induction cs arbitrary: ctx)
  case Nil
  then show ?case by (simp add: pass_one_def)
next
  case (Cons c cs)
  show ?case
  proof (cases c)
    case (Code bs)
    with Cons.prems obtain ctx1 where c1: "emit_run bs ctx = Inr ctx1" "sequential ctx1"
      "image ctx1 = image ctx @ map Some bs" "unat (epos ctx1) = unat (epos ctx) + length bs" "keeps_labels ctx ctx1"
      using emit_chunk_code[of ctx bs] by auto
    with Cons.prems Code Cons.IH[of ctx1] show ?thesis
      by (auto simp: pass_one_def keeps_labels_def split: if_splits)
  next
    case (Ref r k n)
    with Cons.prems obtain ctx1 where c1: "emit_label_ref n r k ctx = Inr ctx1" "sequential ctx1"
      "image ctx1 = image ctx @ replicate 8 (Some 0)" "unat (epos ctx1) = unat (epos ctx) + 8"
      "labels ctx1 = labels ctx" "eoffset ctx1 = eoffset ctx" "labelrefs ctx1 = labelrefs ctx @
        [\<lparr>ref_pos = epos ctx, ref_reg = r, ref_name = n, ref_cond = k\<rparr>]"
      using emit_chunk_ref[of ctx r k n] by auto
    with Cons.prems Ref Cons.IH[of ctx1] show ?thesis
      by (auto simp: pass_one_def split: if_splits)
  next
    case (Lab n)
    let ?ctx = "ctx\<lparr>labels := (labels ctx)(n \<mapsto> epos ctx + eoffset ctx)\<rparr>"
    have "dom (labels ?ctx) = insert n (dom (labels ctx))" by simp
    with Lab show ?thesis
      using Cons.prems Cons.IH[of ?ctx]
      by (auto simp: pass_one_def emit_label_def yyerror_def sequential_upd simp del: fun_upd_apply split: if_splits)
  next
    case (Org d)
    then show ?thesis
      using Cons.prems Cons.IH[of "ctx\<lparr>eoffset := d\<rparr>"] by (auto simp: pass_one_def sequential_upd split: if_splits)
  qed (use Cons.prems in \<open>auto simp: yyerror_def\<close>)
qed

text \<open>The statements of a program one after the other emit the chunks of the program.\<close>

lemma fits_replicate: "fits_all p (replicate (Suc k) (Code [b])) \<Longrightarrow> p + k + 1024 < 2 ^ 32"
proof (induction k arbitrary: p)
  case (Suc k)
  then show ?case using Suc.IH[of "Suc p"] by simp
qed simp

lemma program_refines:
  "sequential ctx \<Longrightarrow> fits_all (unat (epos ctx)) (prog_chunks (unat (epos ctx)) es) \<Longrightarrow>
     emit_seq action es ctx = emit_seq emit_chunk (prog_chunks (unat (epos ctx)) es) ctx"
proof (induction es arbitrary: ctx)
  case (Cons e es)
  let ?p = "unat (epos ctx)"
  have fits: "fits_all ?p (chunks ?p e)"
    "fits_all (?p + size_of (chunks ?p e)) (prog_chunks (?p + size_of (chunks ?p e)) es)"
    using Cons.prems(2) by (simp_all add: fits_all_append)
  have step: "action e ctx = emit_seq emit_chunk (chunks ?p e) ctx"
  proof (rule action_refines)
    fix n fill :: word16 assume "e = Directive (Align n fill)" and "n \<noteq> 0"
    then have "?p + padding (unat n) ?p < 2 ^ 32 \<or> padding (unat n) ?p = 0"
      using fits(1) fits_replicate[of ?p "padding (unat n) ?p - 1" "ucast fill"]
      by (cases "padding (unat n) ?p") (simp_all del: replicate_Suc)
    then show "?p + padding (unat n) ?p < 2 ^ 32"
      using unat_dword_less[of "epos ctx"] by auto
  qed
  have "emit_seq action es ctx' = emit_seq emit_chunk (prog_chunks (?p + size_of (chunks ?p e)) es) ctx'"
    if "emit_seq emit_chunk (chunks ?p e) ctx = Inr ctx'" for ctx'
    using pass_one_correct[OF Cons.prems(1) fits(1)] that fits(2) Cons.IH[of ctx']
    by (auto simp: pass_one_def split: if_splits)
  then show ?case
    by (auto simp: step emit_seq_append intro!: ubind_cong)
qed simp

section \<open>The second pass\<close>

lemma overwrite_overwrite:
  "p + length xs + length ys \<le> length b \<Longrightarrow>
     overwrite (p + length xs) ys (overwrite p xs b) = overwrite p (xs @ ys) b"
  by (simp add: overwrite_def ac_simps)

text \<open>Writing a pair of instructions over the eight bytes of a reference.\<close>

lemma emit_loadi_pair_at:
  assumes "wf_emit ctx" and "unat p + 8 \<le> unat (highest_pos ctx)"
  shows "\<exists>ctx'. emit_loadi_pair c r v (ctx\<lparr>epos := p\<rparr>) = Inr ctx' \<and> wf_emit ctx' \<and>
    buf ctx' = overwrite (unat p) (loadi_pair c r v) (buf ctx) \<and> labels ctx' = labels ctx \<and>
    highest_pos ctx' = highest_pos ctx"
proof -
  let ?lo = "code_iv (1, c, OP_LOADI, r, ucast v)" and ?hi = "code_iv (1, c, OP_LOADI, r + 1, ucast (drop_bit 16 v))"
  let ?ctx = "ctx\<lparr>epos := p\<rparr>"
  have len: "length ?lo = 4" "length ?hi = 4" by (simp_all add: code_iv_def)
  then have ne: "?lo \<noteq> []" "?hi \<noteq> []" by (metis list.size(3) zero_neq_numeral)+
  have top: "unat p + 8 \<le> unat (buf_size ctx)"
    using assms by (simp add: wf_emit_def word_le_nat_alt)
  have pos: "unat (p + 4) = unat p + 4" "unat (p + 8) = unat p + 8"
    using top unat_dword_less[of "buf_size ctx"] by (simp_all add: unat_word_ariths)
  have w0: "wf_emit ?ctx" and r0: "room (length ?lo) ?ctx"
    using assms top len by (simp_all add: wf_emit_def room_def)
  note e0 = emit_run_room[OF w0 r0 ne(1)]
  have r1: "room (length ?hi) (written ?lo ?ctx)" using top len pos by (simp add: room_def)
  note e1 = emit_run_room[OF e0(2) r1 ne(2)]
  have "max (max (highest_pos ctx) (p + 4)) (8 + p) = highest_pos ctx"
    using assms(2) pos by (simp add: max_absorb1 word_le_nat_alt add.commute)
  moreover have "overwrite (unat p + 4) ?hi (overwrite (unat p) ?lo (buf ctx)) =
    overwrite (unat p) (?lo @ ?hi) (buf ctx)"
    using overwrite_overwrite[of "unat p" ?lo ?hi "buf ctx"] len top assms(1) by (simp add: wf_emit_def)
  ultimately show ?thesis
    using e0 e1 len pos by (simp add: loadi_pair_run loadi_pair_def)
qed

lemma overwrite_same:
  assumes "take (length bs) (drop p b) = map Some bs" and "p + length bs \<le> length b"
  shows "overwrite p (bs @ xs) b = overwrite (p + length bs) xs b"
proof -
  have "take (p + length bs) b = take p b @ map Some bs" using assms(1) by (simp only: take_add)
  then show ?thesis by (simp add: overwrite_def add.assoc)
qed

lemma resolve_correct:
  assumes "wf_emit ctx" and "p + size_of cs \<le> unat (highest_pos ctx)"
    and "take (size_of cs) (drop p (buf ctx)) = map Some (raw cs)"
  shows "if resolved (labels ctx) cs
    then \<exists>ctx'. resolve_refs (refs p cs) ctx = Inr ctx' \<and> highest_pos ctx' = highest_pos ctx \<and>
      buf ctx' = overwrite p (link (labels ctx) cs) (buf ctx)
    else resolve_refs (refs p cs) ctx = Inl (Exit (- 1))"
  using assms
proof (induction cs arbitrary: p ctx)
  case (Cons c cs)
  have len: "p + size_of (c # cs) \<le> length (buf ctx)"
    using Cons.prems by (auto simp: wf_emit_def word_le_nat_alt)
  have rest: "take (size_of cs) (drop (p + chunk_size c) (buf ctx)) = map Some (raw cs)"
    using arg_cong[OF Cons.prems(3), of "drop (chunk_size c)"]
    by (cases c) (auto simp: drop_take add.commute)
  show ?case
  proof (cases c)
    case (Code bs)
    have "take (length bs) (drop p (buf ctx)) = map Some bs"
      using arg_cong[OF Cons.prems(3), of "take (length bs)"] Code by simp
    then have "overwrite p (bs @ xs) (buf ctx) = overwrite (p + length bs) xs (buf ctx)" for xs
      using overwrite_same len Code by simp
    with Code Cons.prems Cons.IH[of ctx "p + length bs"] rest show ?thesis by simp
  next
    case (Ref r k n)
    show ?thesis
    proof (cases "labels ctx n")
      case None
      then show ?thesis using Ref by (simp add: emit_label_res_def yyerror_def)
    next
      case (Some v)
      have p: "unat (of_nat p :: dword) = p"
        using Cons.prems(2) unat_dword_less[of "highest_pos ctx"] by (intro unat_of_nat_dword) simp
      obtain ctx1 where c1: "emit_loadi_pair k (r * 2) v (ctx\<lparr>epos := of_nat p\<rparr>) = Inr ctx1" "wf_emit ctx1"
        "buf ctx1 = overwrite p (loadi_pair k (r * 2) v) (buf ctx)" "labels ctx1 = labels ctx"
        "highest_pos ctx1 = highest_pos ctx"
        using emit_loadi_pair_at[OF Cons.prems(1), of "of_nat p" k "r * 2" v] Cons.prems(2) Ref p by auto
      have "take (size_of cs) (drop (p + 8) (buf ctx1)) = map Some (raw cs)"
        using rest Ref len drop_overwrite[of p "loadi_pair k (r * 2) v" "buf ctx"] c1(3) by simp
      with c1 Cons.IH[of ctx1 "p + 8"] Cons.prems(2) Ref Some show ?thesis
        using overwrite_overwrite[of p "loadi_pair k (r * 2) v" "link (labels ctx) cs" "buf ctx"] len
        by (auto simp: emit_label_res_def length_link add.assoc split: if_splits)
    qed
  qed (use Cons.prems Cons.IH[of ctx p] rest in auto)
qed simp

lemma vasm_main_links:
  assumes "\<And>n. heap n" and "fits_all 0 (prog_chunks 0 es)"
  shows "vasm_main heap None es =
    (let cs = prog_chunks 0 es; L = place 0 4096 Map.empty cs in
     if accepted {} cs \<and> resolved L cs then Inr (map Some (link L cs)) else Inl (Exit (- 1)))"
proof -
  let ?cs = "prog_chunks 0 es"
  define ctx where "ctx = \<lparr>buf = replicate 512 (Some 0), buf_len_fixed = 0, epos = 0, highest_pos = 0,
    eoffset = 4096, buf_size = 512, labels = Map.empty, labelrefs = [], heap_serves = heap\<rparr>"
  have ctx: "sequential ctx" "epos ctx = 0" "image ctx = []" "labels ctx = Map.empty" "eoffset ctx = 4096"
    "labelrefs ctx = []"
    using assms(1) by (auto simp: ctx_def sequential_def wf_emit_def image_def)
  have main: "vasm_main heap None es =
    ubind (emit_seq emit_chunk ?cs ctx) (\<lambda>ctx. ubind (label_resolution ctx) write_file)"
    using program_refines[of ctx es] ctx(1,2) assms
    by (simp add: vasm_main_def emit_create_context_def) (simp add: ctx_def)
  show ?thesis
  proof (cases "accepted {} ?cs")
    case False
    then show ?thesis using pass_one_correct[of ctx ?cs] ctx assms(2) by (simp add: main)
  next
    case True
    then obtain ctx1 where c1: "emit_seq emit_chunk ?cs ctx = Inr ctx1" "pass_one ctx ?cs ctx1"
      using pass_one_correct[of ctx ?cs] ctx assms(2) by auto
    then have one: "sequential ctx1" "image ctx1 = map Some (raw ?cs)" "unat (highest_pos ctx1) = size_of ?cs"
      "labels ctx1 = place 0 4096 Map.empty ?cs" "labelrefs ctx1 = refs 0 ?cs"
      using ctx by (auto simp: pass_one_def sequential_def)
    then have "wf_emit ctx1" "take (size_of ?cs) (buf ctx1) = map Some (raw ?cs)"
      by (simp_all add: sequential_def image_def)
    moreover have "size_of ?cs \<le> length (buf ctx1)"
      using one(1,3) by (auto simp: sequential_def wf_emit_def word_le_nat_alt)
    ultimately show ?thesis
      using resolve_correct[of ctx1 0 ?cs] one True c1(1)
      by (auto simp: main label_resolution_def write_file_def length_link overwrite_def Let_def split: if_splits)
  qed
qed

section \<open>Properties\<close>

text \<open>
  C1. The assembler, whole: for statements that the layout admits (no instruction or reference
  crosses a 512-byte block, no \<open>.at\<close>, less than four gigabytes) and an allocator that serves every
  request, the output of both passes is the concatenated code of the statements with every
  reference replaced by the pair of \<open>LOADI\<close> instructions that loads the address of its label, also
  where the label comes later; and if some statement is rejected (an immediate, a register or a
  byte out of range), a label is defined twice or a reference has no label, the program exits. (The
  manual has VASM truncate an immediate above twelve bits and a \<open>.byte\<close> above 255; the code exits.)
\<close>

theorem assembler_correct:
  assumes "\<And>n. heap n" and "fits_all 0 (prog_chunks 0 es)"
  shows "vasm_main heap None es =
    (let cs = prog_chunks 0 es; L = place 0 4096 Map.empty cs in
     if accepted {} cs \<and> resolved L cs then Inr (map Some (link L cs)) else Inl (Exit (- 1)))"
  using assms by (rule vasm_main_links)

theorem assembler_correct_witness:
  "vasm_main (\<lambda>n. True) None [Directive (Label ''_L''), Pseudo (Ldjmp None ''R1'' ''_L'')] =
     Inr (map Some [0x46, 0x02, 0x00, 0x10, 0x46, 0x03, 0x00, 0x00, 0x0B, 0x01, 0x00, 0x00])"
proof -
  let ?es = "[Directive (Label ''_L''), Pseudo (Ldjmp None ''R1'' ''_L'')]"
  have cs: "prog_chunks 0 ?es = [Lab ''_L'', Ref 1 0 ''_L'', Code (code_ii (0, 0, OP_JMP, 1, 0, 0))]"
    by (simp add: ref_chunks_def get_reg_for_name_def reg32lkupbuf_def cond_code_def)
  then have "fits_all 0 (prog_chunks 0 ?es)" by (simp add: code_ii_def)
  from assembler_correct[of "\<lambda>n. True", OF TrueI this] show ?thesis
    unfolding cs by (simp add: loadi_pair_def code_ii_def code_iv_def)
qed

end
