(* ===== verification/Disasm.thy ===== *)
theory Disasm
  imports Decode Lookup
begin

text \<open>
  The disassembler: the library \<^verbatim>\<open>src/disassembler/lib_vasmdis.c\<close>, which turns four bytes into a
  line of text, and the program \<^verbatim>\<open>src/disassembler/vdis.c\<close>, which prints an image. The library writes
  into static buffers of 256 characters through \<open>snprintf\<close>; the one that holds the arguments is
  passed and returned here. \<open>files\<close> is what the file system holds under a path, \<open>writable\<close> says which
  files can be opened for writing; the loader of GLib puts a zero byte behind the data.
\<close>

unbundle bit_operations_syntax

section \<open>Data and formats\<close>

record dis_instruction =
  dis_opcode :: byte
  dis_prefix :: byte
  dis_condition :: byte
  dis_destination :: byte
  dis_operand_a :: byte
  dis_operand_b :: byte
  dis_imm16 :: word16
  dis_imm12 :: word16

abbreviation (input) ARGUMENT_BUFFER_SIZE :: nat where "ARGUMENT_BUFFER_SIZE \<equiv> 256"
abbreviation (input) INSTRUCTION_BUFFER_SIZE :: nat where "INSTRUCTION_BUFFER_SIZE \<equiv> 256"

text \<open>What \<open>snprintf\<close> with size \<open>n\<close> leaves of the text it formats.\<close>

definition snprintf :: "nat \<Rightarrow> string \<Rightarrow> string" where
  "snprintf n s = take (n - 1) s"

text \<open>The conversion \<open>%04x\<close> of a 16-bit value: four digits.\<close>

definition fmt_04x :: "word16 \<Rightarrow> string" where
  "fmt_04x v = [hex_digit (unat v div 4096), hex_digit (unat v div 256),
     hex_digit (unat v div 16), hex_digit (unat v)]"

text \<open>The separator of the arguments, a comma and a tab, and the format strings.\<close>

definition COMMA_TAB :: string where
  "COMMA_TAB = [CHR '','', CHR 0x09]"

definition FMT_REG_REG_REG :: "string \<Rightarrow> string \<Rightarrow> string \<Rightarrow> string" where
  "FMT_REG_REG_REG a b c = a @ COMMA_TAB @ b @ COMMA_TAB @ c"

definition FMT_REG_REG :: "string \<Rightarrow> string \<Rightarrow> string" where
  "FMT_REG_REG a b = a @ COMMA_TAB @ b"

definition FMT_REG_REG_IMM12 :: "string \<Rightarrow> string \<Rightarrow> word16 \<Rightarrow> string" where
  "FMT_REG_REG_IMM12 a b i = a @ COMMA_TAB @ b @ COMMA_TAB @ ''0x'' @ fmt_04x i"

definition FMT_REG :: "string \<Rightarrow> string" where
  "FMT_REG a = a"

definition FMT_REG_IMM12 :: "string \<Rightarrow> word16 \<Rightarrow> string" where
  "FMT_REG_IMM12 a i = a @ COMMA_TAB @ ''0x'' @ fmt_04x i"

definition FMT_REG_IMM16 :: "string \<Rightarrow> word16 \<Rightarrow> string" where
  "FMT_REG_IMM16 a i = a @ COMMA_TAB @ ''0x'' @ fmt_04x i"

definition FMT_IMM16 :: "word16 \<Rightarrow> string" where
  "FMT_IMM16 i = ''0x'' @ fmt_04x i"

definition FMT_NONE :: string where
  "FMT_NONE = []"

definition MSG_INVALID_ARGS :: string where
  "MSG_INVALID_ARGS = ''; INVALID''"

section \<open>The library\<close>

text \<open>\<open>bytes\<close> points to at least four bytes.\<close>

definition vasmdis_bytes_to_instruction :: "byte list \<Rightarrow> dis_instruction" where
  "vasmdis_bytes_to_instruction bytes =
     (let operand_b = bytes ! 2 AND 0x0F in
      \<lparr>dis_opcode = bytes ! 0 AND 0x3F,
       dis_prefix = drop_bit 6 (bytes ! 0),
       dis_condition = drop_bit 4 (bytes ! 1),
       dis_destination = bytes ! 1 AND 0x0F,
       dis_operand_a = drop_bit 4 (bytes ! 2),
       dis_operand_b = operand_b,
       dis_imm16 = ucast (push_bit 8 (ucast (bytes ! 3) :: dword) OR ucast (bytes ! 2)),
       dis_imm12 = ucast (push_bit 8 (ucast operand_b :: dword) OR ucast (bytes ! 3))\<rparr>)"

definition decode_dword_prefix_ops :: "dis_instruction \<Rightarrow> string" where
  "decode_dword_prefix_ops i =
     (let op = dis_opcode i in
      if op \<in> set [OP_STOP, OP_IRET]
      then snprintf ARGUMENT_BUFFER_SIZE
        (FMT_NONE)
      else if op \<in> set [OP_ADD, OP_AND, OP_DIV, OP_OR, OP_MOD, OP_MUL, OP_SAR, OP_SDIV,
        OP_SHL, OP_SHR, OP_SMUL, OP_SUB, OP_XOR, OP_LOADRD, OP_STORERD, OP_CMPXCHG]
      then snprintf ARGUMENT_BUFFER_SIZE
        (FMT_REG_REG_REG (get_name_of_reg (dis_destination i)) (get_name_of_reg (dis_operand_a i))
          (get_name_of_reg (dis_operand_b i)))
      else if op \<in> set [OP_CALL, OP_JMP, OP_TEST, OP_LOADAS, OP_STOREAS]
      then snprintf ARGUMENT_BUFFER_SIZE
        (FMT_REG (get_name_of_reg (dis_destination i)))
      else if op \<in> set [OP_CMP, OP_IN, OP_NOT, OP_OUT, OP_XCHG, OP_MOV]
      then snprintf ARGUMENT_BUFFER_SIZE
        (FMT_REG_REG (get_name_of_reg (dis_operand_a i)) (get_name_of_reg (dis_operand_b i)))
      else if op \<in> set [OP_LOADID, OP_STOREID]
      then snprintf ARGUMENT_BUFFER_SIZE
        (FMT_REG_REG_IMM12 (get_name_of_reg (dis_destination i)) (get_name_of_reg (dis_operand_a i))
          (dis_imm12 i))
      else if op = OP_MOVTC
      then snprintf ARGUMENT_BUFFER_SIZE
        (FMT_REG_REG (get_name_of_creg (dis_operand_a i)) (get_name_of_reg (dis_operand_b i)))
      else if op \<in> set [OP_XCHGC, OP_MOVFC]
      then snprintf ARGUMENT_BUFFER_SIZE
        (FMT_REG_REG (get_name_of_reg (dis_operand_a i)) (get_name_of_creg (dis_operand_b i)))
      else snprintf ARGUMENT_BUFFER_SIZE MSG_INVALID_ARGS)"

definition decode_word_prefix_ops :: "dis_instruction \<Rightarrow> string" where
  "decode_word_prefix_ops i =
     (let op = dis_opcode i in
      if op = OP_LOADI
      then snprintf ARGUMENT_BUFFER_SIZE
        (FMT_REG_IMM16 (get_name_of_reg16 (dis_destination i)) (dis_imm16 i))
      else if op = OP_LOADID
      then snprintf ARGUMENT_BUFFER_SIZE
        (FMT_REG_REG_IMM12 (get_name_of_reg16 (dis_destination i)) (get_name_of_reg (dis_operand_a i))
          (dis_imm12 i))
      else if op = OP_LOADRD
      then snprintf ARGUMENT_BUFFER_SIZE
        (FMT_REG_REG_REG (get_name_of_reg16 (dis_destination i)) (get_name_of_reg (dis_operand_a i))
          (get_name_of_reg (dis_operand_b i)))
      else if op = OP_MOV
      then snprintf ARGUMENT_BUFFER_SIZE
        (FMT_REG_REG (get_name_of_reg16 (dis_operand_a i)) (get_name_of_reg16 (dis_operand_b i)))
      else if op = OP_SEX
      then snprintf ARGUMENT_BUFFER_SIZE
        (FMT_REG_REG (get_name_of_reg (dis_operand_a i)) (get_name_of_reg16 (dis_operand_b i)))
      else if op = OP_STOREID
      then snprintf ARGUMENT_BUFFER_SIZE
        (FMT_REG_REG_IMM12 (get_name_of_reg (dis_destination i)) (get_name_of_reg16 (dis_operand_a i))
          (dis_imm12 i))
      else if op = OP_STORERD
      then snprintf ARGUMENT_BUFFER_SIZE
        (FMT_REG_REG_REG (get_name_of_reg (dis_destination i)) (get_name_of_reg16 (dis_operand_a i))
          (get_name_of_reg (dis_operand_b i)))
      else snprintf ARGUMENT_BUFFER_SIZE MSG_INVALID_ARGS)"

definition decode_byte_prefix_ops :: "dis_instruction \<Rightarrow> string" where
  "decode_byte_prefix_ops i =
     (let op = dis_opcode i in
      if op = OP_LOADI
      then snprintf ARGUMENT_BUFFER_SIZE
        (FMT_REG_IMM16 (get_name_of_reg8 (dis_destination i)) (dis_imm16 i))
      else if op = OP_LOADID
      then snprintf ARGUMENT_BUFFER_SIZE
        (FMT_REG_REG_IMM12 (get_name_of_reg8 (dis_destination i)) (get_name_of_reg (dis_operand_a i))
          (dis_imm12 i))
      else if op = OP_LOADRD
      then snprintf ARGUMENT_BUFFER_SIZE
        (FMT_REG_REG_REG (get_name_of_reg8 (dis_destination i)) (get_name_of_reg (dis_operand_a i))
          (get_name_of_reg (dis_operand_b i)))
      else if op = OP_MOV
      then snprintf ARGUMENT_BUFFER_SIZE
        (FMT_REG_REG (get_name_of_reg8 (dis_operand_a i)) (get_name_of_reg8 (dis_operand_b i)))
      else if op = OP_SEX
      then snprintf ARGUMENT_BUFFER_SIZE
        (FMT_REG_REG (get_name_of_reg (dis_operand_a i)) (get_name_of_reg8 (dis_operand_b i)))
      else if op = OP_STOREID
      then snprintf ARGUMENT_BUFFER_SIZE
        (FMT_REG_REG_IMM12 (get_name_of_reg (dis_destination i)) (get_name_of_reg8 (dis_operand_a i))
          (dis_imm12 i))
      else if op = OP_STORERD
      then snprintf ARGUMENT_BUFFER_SIZE
        (FMT_REG_REG_REG (get_name_of_reg (dis_destination i)) (get_name_of_reg8 (dis_operand_a i))
          (get_name_of_reg (dis_operand_b i)))
      else snprintf ARGUMENT_BUFFER_SIZE MSG_INVALID_ARGS)"

definition decode_immediate_prefix_ops :: "dis_instruction \<Rightarrow> string" where
  "decode_immediate_prefix_ops i =
     (let op = dis_opcode i in
      if op \<in> set [OP_ADD, OP_AND, OP_DIV, OP_OR, OP_MOD, OP_MUL,
        OP_SAR, OP_SDIV, OP_SHL, OP_SHR, OP_SMUL, OP_SUB, OP_XOR]
      then snprintf ARGUMENT_BUFFER_SIZE
        (FMT_REG_REG_IMM12 (get_name_of_reg (dis_destination i)) (get_name_of_reg (dis_operand_a i))
          (dis_imm12 i))
      else if op = OP_CMP
      then snprintf ARGUMENT_BUFFER_SIZE
        (FMT_REG_IMM12 (get_name_of_reg (dis_operand_a i)) (dis_imm12 i))
      else if op \<in> set [OP_CALL, OP_FAIL, OP_INT, OP_JMP, OP_TEST]
      then snprintf ARGUMENT_BUFFER_SIZE
        (FMT_IMM16 (dis_imm16 i))
      else if op = OP_LOADMA
      then snprintf ARGUMENT_BUFFER_SIZE
        (FMT_REG_IMM16 (get_name_of_reg (dis_destination i)) (dis_imm16 i))
      else if op = OP_STOREMA
      then snprintf ARGUMENT_BUFFER_SIZE
        (FMT_REG_IMM16 (get_name_of_reg (dis_destination i)) (dis_imm16 i))
      else snprintf ARGUMENT_BUFFER_SIZE MSG_INVALID_ARGS)"

text \<open>A prefix that no case names leaves the buffer as the last call left it.\<close>

definition decode_instruction_arguments :: "dis_instruction \<Rightarrow> string \<Rightarrow> string" where
  "decode_instruction_arguments i buffer_reg =
     (if dis_prefix i = PREFIX_DWORD then decode_dword_prefix_ops i
      else if dis_prefix i = PREFIX_WORD then decode_word_prefix_ops i
      else if dis_prefix i = PREFIX_BYTE then decode_byte_prefix_ops i
      else if dis_prefix i = PREFIX_IMM then decode_immediate_prefix_ops i
      else buffer_reg)"

text \<open>The line and the new contents of the argument buffer.\<close>

definition vasmdis_disasm_instruction :: "byte list \<Rightarrow> string \<Rightarrow> string \<times> string" where
  "vasmdis_disasm_instruction ins buffer_reg =
     (let i = vasmdis_bytes_to_instruction ins;
          opcode_str = get_name_of_op (dis_prefix i) (dis_opcode i);
          condition_str = get_name_of_cond (dis_condition i);
          buffer_reg = decode_instruction_arguments i buffer_reg
      in (snprintf INSTRUCTION_BUFFER_SIZE
            (opcode_str @ condition_str @ [CHR 0x09, CHR 0x09] @ buffer_reg), buffer_reg))"

section \<open>The program\<close>

definition vdis_load_img :: "(string \<Rightarrow> byte list option) \<Rightarrow> string \<Rightarrow> stop + (byte list \<times> nat)" where
  "vdis_load_img files path =
     (case files path of
        None \<Rightarrow> Inl (Exit 11)
      | Some bs \<Rightarrow> Inr (bs @ [0], length bs))"

text \<open>
  The loop of \<open>main\<close>: \<open>None\<close> where it does not end, which the 32-bit position allows for a file
  of four gigabytes less one byte or more. The output goes to \<open>out\<close>.
\<close>

partial_function (option) vdis_loop ::
  "byte list \<Rightarrow> nat \<Rightarrow> dword \<Rightarrow> string \<Rightarrow> string \<Rightarrow> (stop + string) option" where
  "vdis_loop filedata sz p buffer_reg out =
     (if unat p < sz then
        if unat p + 4 \<le> length filedata then
          case vasmdis_disasm_instruction (take 4 (drop (unat p) filedata)) buffer_reg of
            (text, buffer_reg) \<Rightarrow> vdis_loop filedata sz (p + 4) buffer_reg (out @ text @ [CHR 0x0A])
        else Some (Inl (Image_oob (length filedata)))
      else Some (Inr out))"

text \<open>\<open>main\<close>: the name of the output file, \<open>stdout\<close> for the standard output, and the text written to it.\<close>

definition vdis_main ::
  "(string \<Rightarrow> byte list option) \<Rightarrow> (string \<Rightarrow> bool) \<Rightarrow> string list \<Rightarrow> (stop + (string \<times> string)) option" where
  "vdis_main files writable argv =
     (if length argv < 3 then Some (Inl (Exit 1))
      else if argv ! 1 = ''--img'' then
        let img_name = argv ! 2;
            output_name =
              (if length argv > 4 \<and> argv ! 3 = ''--outfile'' then argv ! 4 else ''stdout'')
        in (case vdis_load_img files img_name of
              Inl e \<Rightarrow> Some (Inl e)
            | Inr (filedata, sz) \<Rightarrow>
                if output_name \<noteq> ''stdout'' \<and> \<not> writable output_name then Some (Inl (Exit (- 1)))
                else (case vdis_loop filedata sz 0 [] [] of
                        None \<Rightarrow> None
                      | Some (Inl e) \<Rightarrow> Some (Inl e)
                      | Some (Inr out) \<Rightarrow> Some (Inr (output_name, out))))
      else Some (Inl (Exit 1)))"

section \<open>Lengths\<close>

text \<open>No name is longer than the longest of its table, so no line comes near the size of a buffer.\<close>

lemma name_of_length:
  "list_all (\<lambda>(n, s). case s of None \<Rightarrow> True | Some s \<Rightarrow> length s \<le> m) t \<Longrightarrow> 3 \<le> m \<Longrightarrow>
     length (name_of t k) \<le> m"
  by (induction t k rule: name_of.induct) (auto split: option.splits)

lemma name_lengths [simp]:
  "length (get_name_of_op p k) \<le> 7" "length (get_name_of_reg k) \<le> 4" "length (get_name_of_reg16 k) \<le> 4"
  "length (get_name_of_reg8 k) \<le> 4" "length (get_name_of_creg k) \<le> 4"
  unfolding get_name_of_op_def get_name_of_reg_def get_name_of_reg16_def get_name_of_reg8_def get_name_of_creg_def
  by (rule name_of_length; simp add: table_defs numeral_eq_Suc)+

lemma cond_length [simp]: "length (get_name_of_cond c) \<le> 4"
  by (simp add: get_name_of_cond_def)

lemma snprintf_short [simp]: "length s < n \<Longrightarrow> snprintf n s = s"
  by (simp add: snprintf_def)

lemmas formats = FMT_REG_REG_REG_def FMT_REG_REG_def FMT_REG_REG_IMM12_def FMT_REG_def FMT_REG_IMM12_def
  FMT_REG_IMM16_def FMT_IMM16_def FMT_NONE_def MSG_INVALID_ARGS_def COMMA_TAB_def fmt_04x_def

text \<open>The formats keep their text short when the names in them are.\<close>

lemma format_lengths:
  "length a \<le> 4 \<Longrightarrow> length b \<le> 4 \<Longrightarrow> length c \<le> 4 \<Longrightarrow> length (snprintf 256 (FMT_REG_REG_REG a b c)) \<le> 18"
  "length a \<le> 4 \<Longrightarrow> length b \<le> 4 \<Longrightarrow> length (snprintf 256 (FMT_REG_REG a b)) \<le> 18"
  "length a \<le> 4 \<Longrightarrow> length b \<le> 4 \<Longrightarrow> length (snprintf 256 (FMT_REG_REG_IMM12 a b v)) \<le> 18"
  "length a \<le> 4 \<Longrightarrow> length (snprintf 256 (FMT_REG a)) \<le> 18"
  "length a \<le> 4 \<Longrightarrow> length (snprintf 256 (FMT_REG_IMM12 a v)) \<le> 18"
  "length a \<le> 4 \<Longrightarrow> length (snprintf 256 (FMT_REG_IMM16 a v)) \<le> 18"
  "length (snprintf 256 (FMT_IMM16 v)) \<le> 18" "length (snprintf 256 FMT_NONE) \<le> 18"
  "length (snprintf 256 MSG_INVALID_ARGS) \<le> 18"
  by (simp_all add: formats)

lemma if_length: "length s \<le> n \<Longrightarrow> length t \<le> n \<Longrightarrow> length (if b then s else t) \<le> n"
  by simp

lemma ops_lengths:
  "length (decode_dword_prefix_ops i) \<le> 18" "length (decode_word_prefix_ops i) \<le> 18"
  "length (decode_byte_prefix_ops i) \<le> 18" "length (decode_immediate_prefix_ops i) \<le> 18"
  unfolding decode_dword_prefix_ops_def decode_word_prefix_ops_def decode_byte_prefix_ops_def
    decode_immediate_prefix_ops_def Let_def
  by (intro if_length format_lengths name_lengths)+

lemma arguments_length: "dis_prefix i < 4 \<Longrightarrow> length (decode_instruction_arguments i s) \<le> 18"
proof -
  assume "dis_prefix i < 4"
  then have "unat (dis_prefix i) = 0 \<or> unat (dis_prefix i) = 1 \<or> unat (dis_prefix i) = 2 \<or> unat (dis_prefix i) = 3"
    by (auto simp: word_less_nat_alt)
  then show ?thesis
    by (auto simp: decode_instruction_arguments_def ops_lengths word_unat_eq_iff)
qed

lemma dis_prefix_less: "dis_prefix (vasmdis_bytes_to_instruction bs) < 4"
  by (simp add: vasmdis_bytes_to_instruction_def Let_def and_mask_bounds)

section \<open>The image loop\<close>

text \<open>The text of an image: a line for every four bytes; one to three bytes that are left over have none.\<close>

fun dis_text :: "byte list \<Rightarrow> string" where
  "dis_text (b1 # b2 # b3 # b4 # bs) =
     fst (vasmdis_disasm_instruction [b1, b2, b3, b4] []) @ [CHR 0x0A] @ dis_text bs"
| "dis_text bs = []"

lemma arguments_buffer:
  "decode_instruction_arguments (vasmdis_bytes_to_instruction bs) buf =
     decode_instruction_arguments (vasmdis_bytes_to_instruction bs) []"
proof -
  have "unat (dis_prefix (vasmdis_bytes_to_instruction bs)) < 4"
    using dis_prefix_less[of bs] by (simp add: word_less_nat_alt)
  then have "dis_prefix (vasmdis_bytes_to_instruction bs) \<in> {0, 1, 2, 3}"
    by (auto simp: word_unat_eq_iff)
  then show ?thesis by (auto simp: decode_instruction_arguments_def)
qed

lemma disasm_buffer:
  "vasmdis_disasm_instruction bs buf = vasmdis_disasm_instruction bs []"
  by (simp only: vasmdis_disasm_instruction_def Let_def arguments_buffer[of bs buf])

lemma dis_text_chunk:
  assumes "4 \<le> length bs"
  shows "dis_text bs = fst (vasmdis_disasm_instruction (take 4 bs) []) @ [CHR 0x0A] @ dis_text (drop 4 bs)"
  using assms by (cases bs rule: dis_text.cases) simp_all

lemma dis_text_short: "length bs < 4 \<Longrightarrow> dis_text bs = []"
  by (cases bs rule: dis_text.cases) auto

lemma vdis_loop_correct:
  assumes "unat p \<le> length bs + 1" and "4 dvd unat p" and "length bs + 1 < 2 ^ 32"
  shows "vdis_loop (bs @ [0]) (length bs) p buf out =
    Some (if length bs mod 4 \<in> {1, 2} then Inl (Image_oob (length bs + 1))
          else Inr (out @ dis_text (drop (unat p) (bs @ [0]))))"
  using assms
proof (induction "length bs + 3 - unat p" arbitrary: p buf out rule: less_induct)
  case less
  let ?n = "length bs" and ?p = "unat p" and ?d = "bs @ [0]"
  from less.prems(2) obtain k where k: "?p = 4 * k" by (elim dvdE)
  show ?case
  proof (cases "?p < ?n")
    case False
    then have "?n mod 4 \<notin> {1, 2}" using less.prems(1) k by simp presburger
    moreover have "length (drop ?p ?d) < 4" using False by (simp add: not_less)
    then have "dis_text (drop ?p ?d) = []" by (rule dis_text_short)
    ultimately show ?thesis using False by (subst vdis_loop.simps) simp
  next
    case True
    obtain ln buf' where line: "vasmdis_disasm_instruction (take 4 (drop ?p ?d)) buf = (ln, buf')"
      by fastforce
    show ?thesis
    proof (cases "?p + 4 \<le> ?n + 1")
      case False
      then have "?n mod 4 \<in> {1, 2}" using True k by simp presburger
      with True False show ?thesis by (subst vdis_loop.simps) simp
    next
      case room: True
      have p4: "unat (p + 4) = ?p + 4" using room less.prems(3) by (simp add: unat_word_ariths)
      have chunk: "dis_text (drop ?p ?d) = ln @ [CHR 0x0A] @ dis_text (drop (?p + 4) ?d)"
        using dis_text_chunk[of "drop ?p ?d"] room line disasm_buffer[of _ buf] by (simp add: add.commute)
      have "vdis_loop ?d ?n p buf out = vdis_loop ?d ?n (p + 4) buf' (out @ ln @ [CHR 0x0A])"
        using True room line by (subst vdis_loop.simps) simp
      also have "\<dots> = Some (if ?n mod 4 \<in> {1, 2} then Inl (Image_oob (?n + 1))
          else Inr ((out @ ln @ [CHR 0x0A]) @ dis_text (drop (unat (p + 4)) ?d)))"
        by (rule less.hyps) (use True room p4 k less.prems(3) in auto)
      finally show ?thesis using chunk p4 by simp
    qed
  qed
qed

text \<open>
  The position has 32 bits: where four gigabytes lie behind the pointer (the terminating zero counts) it
  comes round to zero and the loop never ends.
\<close>

lemma vdis_loop_no_result:
  assumes "vdis_loop filedata sz p buf out = Some r"
  shows "2 ^ 32 \<le> length filedata \<longrightarrow> length filedata = sz + 1 \<longrightarrow> 4 dvd unat p \<longrightarrow> False"
proof (rule vdis_loop.raw_induct[where
      P = "\<lambda>d n p b t r. 2 ^ 32 \<le> length d \<longrightarrow> length d = n + 1 \<longrightarrow> 4 dvd unat p \<longrightarrow> False",
      OF _ assms], intro impI)
  fix loop :: "byte list \<Rightarrow> nat \<Rightarrow> dword \<Rightarrow> string \<Rightarrow> string \<Rightarrow> (stop + string) option" and d n p b t r
  assume IH: "\<And>d n p b t r. loop d n p b t = Some r \<Longrightarrow>
      2 ^ 32 \<le> length d \<longrightarrow> length d = n + 1 \<longrightarrow> 4 dvd unat p \<longrightarrow> False"
    and body: "(if unat p < n then
        if unat p + 4 \<le> length d then
          case vasmdis_disasm_instruction (take 4 (drop (unat p) d)) b of
            (text, b) \<Rightarrow> loop d n (p + 4) b (t @ text @ [CHR 0x0A])
        else Some (Inl (Image_oob (length d)))
      else Some (Inr t)) = Some r"
    and d: "2 ^ 32 \<le> length d" "length d = n + 1" "4 dvd unat p"
  from d(3) obtain k where k: "unat p = 4 * k" by (elim dvdE)
  have p: "unat p + 4 \<le> 2 ^ 32" using unat_dword_less[of p] unfolding k by simp
  have "4 dvd unat (p + 4)"
    unfolding unat_word_ariths using d(3) by (simp add: dvd_mod_iff)
  moreover obtain ln b' where "vasmdis_disasm_instruction (take 4 (drop (unat p) d)) b = (ln, b')" by fastforce
  moreover have "unat p < n" "unat p + 4 \<le> length d" using p d(1,2) by simp_all
  ultimately show False using body IH d(1,2) by simp
qed

lemma vdis_loop_diverges:
  "2 ^ 32 \<le> length bs + 1 \<Longrightarrow> vdis_loop (bs @ [0]) (length bs) 0 [] [] = None"
  using vdis_loop_no_result[of "bs @ [0]" "length bs" 0 "[]" "[]"]
  by (cases "vdis_loop (bs @ [0]) (length bs) 0 [] []") simp_all

lemma disasm_line_text:
  "let i = vasmdis_bytes_to_instruction bs; args = decode_instruction_arguments i [] in
     vasmdis_disasm_instruction bs buf =
       (get_name_of_op (dis_prefix i) (dis_opcode i) @ get_name_of_cond (dis_condition i) @
        [CHR 0x09, CHR 0x09] @ args, args) \<and>
     length args \<le> 18 \<and> length (fst (vasmdis_disasm_instruction bs buf)) \<le> 31"
proof -
  let ?i = "vasmdis_bytes_to_instruction bs"
  let ?args = "decode_instruction_arguments ?i []"
  let ?line = "get_name_of_op (dis_prefix ?i) (dis_opcode ?i) @ get_name_of_cond (dis_condition ?i) @
    [CHR 0x09, CHR 0x09] @ ?args"
  have args: "length ?args \<le> 18" by (rule arguments_length) (rule dis_prefix_less)
  moreover have "length (get_name_of_op (dis_prefix ?i) (dis_opcode ?i)) \<le> 7"
    "length (get_name_of_cond (dis_condition ?i)) \<le> 4" by (rule name_lengths cond_length)+
  ultimately have line: "length ?line \<le> 31" by (simp only: length_append list.size)
  then have "vasmdis_disasm_instruction bs buf = (?line, ?args)"
    by (simp only: disasm_buffer[of bs buf]) (simp only: vasmdis_disasm_instruction_def Let_def snprintf_short)
  then show ?thesis using args line by (simp only: Let_def fst_conv simp_thms)
qed

lemma dis_fields:
  "dis_opcode (vasmdis_bytes_to_instruction [b1, b2, b3, b4]) = opcode (decode_bytes b1 b2 b3 b4)"
  "dis_prefix (vasmdis_bytes_to_instruction [b1, b2, b3, b4]) = prefix (decode_bytes b1 b2 b3 b4)"
  "dis_condition (vasmdis_bytes_to_instruction [b1, b2, b3, b4]) = condition (decode_bytes b1 b2 b3 b4)"
  "dis_destination (vasmdis_bytes_to_instruction [b1, b2, b3, b4]) = dst (decode_bytes b1 b2 b3 b4)"
  "dis_operand_a (vasmdis_bytes_to_instruction [b1, b2, b3, b4]) = opa (decode_bytes b1 b2 b3 b4)"
  "dis_operand_b (vasmdis_bytes_to_instruction [b1, b2, b3, b4]) = opb (decode_bytes b1 b2 b3 b4)"
  "dis_imm16 (vasmdis_bytes_to_instruction [b1, b2, b3, b4]) = imm16 (decode_bytes b1 b2 b3 b4)"
  "dis_imm12 (vasmdis_bytes_to_instruction [b1, b2, b3, b4]) = imm12 (decode_bytes b1 b2 b3 b4)"
  by (simp_all add: Let_def vasmdis_bytes_to_instruction_def decode_bytes_def WORD_FROM_BYTES_def)

section \<open>Properties\<close>

text \<open>
  C35. The disassembler and the processor take instructions apart in the same way: every field of
  the struct that the disassembler fills from four bytes has the value that the decoder computes.
\<close>

theorem decoders_agree:
  "let d = vasmdis_bytes_to_instruction [b1, b2, b3, b4]; i = decode_bytes b1 b2 b3 b4 in
     dis_opcode d = opcode i \<and> dis_prefix d = prefix i \<and> dis_condition d = condition i \<and>
     dis_destination d = dst i \<and> dis_operand_a d = opa i \<and> dis_operand_b d = opb i \<and>
     dis_imm16 d = imm16 i \<and> dis_imm12 d = imm12 i"
  by (simp add: Let_def dis_fields)

text \<open>
  C36. The two static buffers are large enough for every instruction word: the arguments take at
  most 18 characters and the line at most 31, so no line is cut short, and what an earlier call
  left in the argument buffer never shows in a line.
\<close>

theorem disasm_line:
  "let i = vasmdis_bytes_to_instruction bs; args = decode_instruction_arguments i [] in
     vasmdis_disasm_instruction bs buf =
       (get_name_of_op (dis_prefix i) (dis_opcode i) @ get_name_of_cond (dis_condition i) @
        [CHR 0x09, CHR 0x09] @ args, args) \<and>
     length args \<le> 18 \<and> length (fst (vasmdis_disasm_instruction bs buf)) \<le> 31"
  by (rule disasm_line_text)

text \<open>
  C37. The program ends for every image of less than 2^32 - 1 bytes and prints one line for each instruction
  word, in order. When one or two bytes are left over it reads past the loaded data; three left-over bytes
  are completed by the zero byte that the loader appends. For an image of 2^32 - 1 bytes or more, which with
  that zero byte is four gigabytes, the 32-bit position comes round to zero and the program never ends.
\<close>

theorem vdis_main_correct:
  assumes "files path = Some bs"
  shows "vdis_main files writable [prog, ''--img'', path] =
    (if length bs < 2 ^ 32 - 1 then
       Some (if length bs mod 4 \<in> {1, 2} then Inl (Image_oob (length bs + 1))
             else Inr (''stdout'', dis_text (bs @ [0])))
     else None)"
proof (cases "length bs < 2 ^ 32 - 1")
  case True
  then have "length bs + 1 < 2 ^ 32" by simp
  then show ?thesis
    using True assms vdis_loop_correct[of 0 bs "[]" "[]"] by (simp add: vdis_main_def vdis_load_img_def Let_def)
next
  case False
  then have "vdis_loop (bs @ [0]) (length bs) 0 [] [] = None" by (intro vdis_loop_diverges) simp
  then show ?thesis using False assms by (simp add: vdis_main_def vdis_load_img_def Let_def)
qed

theorem vdis_main_correct_witness:
  "vdis_main (\<lambda>path. Some [0x2C, 0x01, 0x23, 0x00]) (\<lambda>path. True) [''vdis'', ''--img'', ''a.img''] =
     Some (Inr (''stdout'', dis_text [0x2C, 0x01, 0x23, 0x00, 0]))"
  using vdis_main_correct[of "\<lambda>path. Some [0x2C, 0x01, 0x23, 0x00]" "''a.img''" "[0x2C, 0x01, 0x23, 0x00]" "\<lambda>path. True" "''vdis''"]
  by simp

end
