(* ===== verification/Toolchain.thy ===== *)
theory Toolchain
  imports Emulator Assembler Disasm
begin

text \<open>
  The programs together: what the assembler emits, run on the processor, loaded by the emulator and
  printed by the disassembler.
\<close>

unbundle bit_operations_syntax

section \<open>Code in memory\<close>

definition code_at :: "emulator_context \<Rightarrow> dword \<Rightarrow> byte list \<Rightarrow> bool" where
  "code_at s a bs \<longleftrightarrow> unat a + length bs \<le> unat (msize s) \<and>
     (\<forall>k < length bs. mem_at s (a + of_nat k) = bs ! k)"

lemma code_at_appendD:
  assumes "code_at s a (xs @ ys)"
  shows "code_at s a xs" and "code_at s (a + of_nat (length xs)) ys"
proof -
  have len: "unat a + length xs + length ys \<le> unat (msize s)" using assms by (simp add: code_at_def)
  then have "unat (a + of_nat (length xs)) = unat a + length xs"
    using unat_dword_less[of "msize s"]
    by (simp add: unat_word_ariths unsigned_of_nat take_bit_nat_eq_self)
  moreover have "mem_at s (a + of_nat (length xs) + of_nat k) = ys ! k" if "k < length ys" for k
    using assms that unfolding code_at_def
    by (elim conjE allE[of _ "length xs + k"]) (simp add: nth_append add.assoc)
  ultimately show "code_at s (a + of_nat (length xs)) ys"
    using len by (simp add: code_at_def)
  show "code_at s a xs" using assms by (auto simp: code_at_def nth_append split: if_splits)
qed

lemma code_at_ins:
  assumes "code_at s a [b1, b2, b3, b4]"
  shows "fits 4 a s" and "ins_at s a = decode_bytes b1 b2 b3 b4"
proof -
  have "mem_at s (a + of_nat k) = [b1, b2, b3, b4] ! k" if "k < 4" for k
    using assms that by (simp add: code_at_def)
  from this[of 0] this[of 1] this[of 2] this[of 3]
  show "ins_at s a = decode_bytes b1 b2 b3 b4" by (simp add: ins_at_def)
  show "fits 4 a s" using assms by (simp add: code_at_def fits_def msize_def)
qed

lemma code_at_memory:
  "memory_context t = memory_context s \<Longrightarrow> code_at t a bs = code_at s a bs"
  by (simp add: code_at_def msize_def mem_at_def)

section \<open>Steps\<close>

text \<open>Whether an instruction with condition \<open>c\<close> takes effect.\<close>

definition takes :: "byte \<Rightarrow> machine \<Rightarrow> bool" where
  "takes c m \<longleftrightarrow> c = COND_ALWAYS \<or> cond_holds c (reg_of (ectx m) CPU_REG_FLGS)"

text \<open>The pointer is at \<open>p\<close>, the registers hold \<open>R\<close>, and nothing else that a program sees changed.\<close>

definition arrives :: "machine \<Rightarrow> dword \<Rightarrow> (byte \<Rightarrow> dword) \<Rightarrow> machine \<Rightarrow> bool" where
  "arrives m p R m' \<longleftrightarrow> wf_machine m' \<and> memory_context (ectx m') = memory_context (ectx m) \<and>
     creg_of (ectx m') = creg_of (ectx m) \<and> ports m' = ports m \<and> latch m' = latch m \<and>
     get_pos (ectx m') = p \<and> (\<forall>q < 16. reg_of (ectx m') q = R q)"

text \<open>Straight-line code: the pointer moved on by \<open>k\<close>.\<close>

definition moved :: "machine \<Rightarrow> nat \<Rightarrow> (byte \<Rightarrow> dword) \<Rightarrow> machine \<Rightarrow> bool" where
  "moved m k R m' \<longleftrightarrow> arrives m (get_pos (ectx m) + of_nat k) R m'"

lemma moved_trans:
  "moved m k R m1 \<Longrightarrow> moved m1 l S m2 \<Longrightarrow> (\<And>q. q < 16 \<Longrightarrow> S q = T q) \<Longrightarrow> moved m (k + l) T m2"
  by (simp add: moved_def arrives_def)

lemma moved_refl: "wf_machine m \<Longrightarrow> moved m 0 (reg_of (ectx m)) m"
  by (simp add: moved_def arrives_def)

lemma moved_regs: "moved m k R m' \<Longrightarrow> q < 16 \<Longrightarrow> reg_of (ectx m') q = R q"
  by (simp add: moved_def arrives_def)

lemma moved_takes:
  assumes "moved m k R m'" and "R CPU_REG_FLGS = reg_of (ectx m) CPU_REG_FLGS"
  shows "takes c m' = takes c m"
proof -
  have "reg_of (ectx m') CPU_REG_FLGS = reg_of (ectx m) CPU_REG_FLGS"
    using moved_regs[OF assms(1), of CPU_REG_FLGS] assms(2) by simp
  then show ?thesis by (simp only: takes_def)
qed

lemma moved_code:
  assumes "moved m k R m'" and "code_at (ectx m) (get_pos (ectx m)) (xs @ ys)" and "length xs = k"
  shows "code_at (ectx m') (get_pos (ectx m')) ys"
  using code_at_appendD(2)[OF assms(2)] code_at_memory[of "ectx m'" "ectx m"] assms(1,3) by (simp add: moved_def arrives_def)

text \<open>A step that acts on the emulator context by the function \<open>f\<close>.\<close>

lemma step_ectx:
  assumes "wf_machine m" and "code_at (ectx m) (get_pos (ectx m)) [b1, b2, b3, b4]"
    and "i = decode_bytes b1 b2 b3 b4" and "takes (condition i) m"
    and "opcode i \<noteq> OP_STOP" and "opcode i \<noteq> OP_FAIL"
    and "cpu_dispatch i (fetched m) = on_ectx f (fetched m)" and "f (ectx (fetched m)) = Inr s'"
  shows "cpu_step m ((fetched m)\<lparr>ectx := s'\<rparr>)"
proof (rule cpu_stepI[OF assms(1) code_at_ins(1)[OF assms(2)]])
  have i: "next_ins m = i" using code_at_ins(2)[OF assms(2)] assms(3) by (simp add: next_ins_def)
  show "runs m" using assms(4) by (simp add: runs_def takes_def i)
  show "opcode (next_ins m) \<noteq> OP_FAIL" "opcode (next_ins m) \<noteq> OP_STOP" using assms(5,6) i by simp_all
  show "cpu_dispatch (next_ins m) (fetched m) = Inr ((fetched m)\<lparr>ectx := s'\<rparr>)"
    by (simp add: i assms(7) on_ectx_norm[of f "fetched m" s', OF assms(8)])
qed

lemma arrives_step:
  assumes "cpu_step m ((fetched m)\<lparr>ectx := s'\<rparr>)" and "wf_machine m"
    and "memory_context s' = memory_context (ectx m)" and "creg_of s' = creg_of (ectx m)"
    and "get_pos s' = p" and "\<And>q. q < 16 \<Longrightarrow> reg_of s' q = R q"
  shows "\<exists>m'. cpu_step m m' \<and> arrives m p R m'"
proof -
  have "wf_machine ((fetched m)\<lparr>ectx := s'\<rparr>)"
    using reaches_wf[OF reaches_Suc[OF assms(1) reaches_0] assms(2)] by simp
  then show ?thesis
    using assms by (intro exI[of _ "(fetched m)\<lparr>ectx := s'\<rparr>"]) (simp add: arrives_def)
qed

lemma moved_step:
  assumes "cpu_step m ((fetched m)\<lparr>ectx := s'\<rparr>)" and "wf_machine m"
    and "memory_context s' = memory_context (ectx m)" and "creg_of s' = creg_of (ectx m)"
    and "get_pos s' = get_pos (ectx m) + 4" and "\<And>q. q < 16 \<Longrightarrow> reg_of s' q = R q"
  shows "\<exists>m'. cpu_step m m' \<and> moved m 4 R m'"
  using arrives_step[OF assms] by (simp add: moved_def)

lemma arrives_trans:
  "moved m k R m1 \<Longrightarrow> arrives m1 p S m2 \<Longrightarrow> (\<And>q. q < 16 \<Longrightarrow> S q = T q) \<Longrightarrow> arrives m p T m2"
  by (simp add: moved_def arrives_def)

lemma skip_step:
  assumes "wf_machine m" and "code_at (ectx m) (get_pos (ectx m)) [b1, b2, b3, b4]"
    and "\<not> takes (drop_bit 4 b2) m"
  shows "\<exists>m'. cpu_step m m' \<and> moved m 4 (reg_of (ectx m)) m'"
proof -
  have "next_ins m = decode_bytes b1 b2 b3 b4"
    using code_at_ins(2)[OF assms(2)] by (simp add: next_ins_def)
  then have "\<not> runs m" using assms(3) by (simp add: runs_def takes_def)
  from cpu_step_skip[OF assms(1) code_at_ins(1)[OF assms(2)] this] show ?thesis
    using assms(1) by (intro exI[of _ "fetched m"]) (simp add: moved_def arrives_def)
qed

lemma code_fields:
  assumes "p < 4" and "c < 16" and "q < 64" and "d < 16" and "a < 16" and "b < 16"
  shows "condition (decode_bytes (push_bit 6 p OR q) (push_bit 4 c OR d) b3 b4) = c"
    "opcode (decode_bytes (push_bit 6 p OR q) (push_bit 4 c OR d) b3 b4) = q"
    "prefix (decode_bytes (push_bit 6 p OR q) (push_bit 4 c OR d) b3 b4) = p"
    "dst (decode_bytes (push_bit 6 p OR q) (push_bit 4 c OR d) b3 b4) = d"
    "opa (decode_bytes b1 b2 (push_bit 4 a OR b) b4) = a" "opb (decode_bytes b1 b2 (push_bit 4 a OR b) b4) = b"
  using assms by (simp_all only: joined)

lemma dispatch:
  "opcode i = OP_LOADI \<Longrightarrow> cpu_dispatch i m = on_ectx (ins_loadi i) m"
  "opcode i = OP_XCHG \<Longrightarrow> cpu_dispatch i m = on_ectx (ins_xchg i) m"
  "opcode i = OP_JMP \<Longrightarrow> cpu_dispatch i m = on_ectx (ins_jmp i) m"
  "opcode i = OP_CALL \<Longrightarrow> cpu_dispatch i m = on_ectx (ins_call i) m"
  "opcode i = OP_STOREMA \<Longrightarrow> cpu_dispatch i m = on_ectx (ins_storema i) m"
  "opcode i = OP_LOADMA \<Longrightarrow> cpu_dispatch i m = on_ectx (ins_loadma i) m"
  by (simp_all add: cpu_dispatch_def)

lemma loadi_step:
  assumes "wf_machine m" and "code_at (ectx m) (get_pos (ectx m)) (code_iv (1, c, OP_LOADI, d, v))"
    and "c < 16" and "d < 16" and "takes c m"
  shows "\<exists>m'. cpu_step m m' \<and> moved m 4 ((reg_of (ectx m))(d div 2 :=
    set_field 16 (unat (d mod 2) * 16) (ucast v) (reg_of (ectx m) (d div 2)))) m'"
proof -
  define i where "i = decode_bytes (push_bit 6 1 OR OP_LOADI) (push_bit 4 c OR d) (ucast v) (ucast (drop_bit 8 v))"
  let ?s = "upd_word_reg d v (ectx (fetched m))"
  have f: "condition i = c" "opcode i = OP_LOADI" "prefix i = PREFIX_WORD" "dst i = d" "imm16 i = v"
    unfolding i_def using code_fields[of 1 c OP_LOADI d 0 0] assms(3,4) imm16_join by simp_all
  have wf: "wf (ectx m)" using assms(1) by (simp add: wf_machine_def)
  have d: "d < 32" "d div 2 < 16" using assms(4) div_bounds(2)[of d] by (simp_all add: word_less_nat_alt)
  have "ins_loadi i (ectx (fetched m)) = Inr ?s"
    using wf d by (simp add: ins_loadi_def f cpu_set_word_reg_norm)
  then have "cpu_step m ((fetched m)\<lparr>ectx := ?s\<rparr>)"
    using assms(2,5) f by (intro step_ectx[OF assms(1) assms(2)[unfolded code_eqs] i_def _ _ _ dispatch(1)]) simp_all
  from this assms(1) show ?thesis
    by (rule moved_step) (use wf d in \<open>simp_all add: upd_word_reg_def ectx_simps fun_eq_iff\<close>)
qed

lemma xchg_step:
  assumes "wf_machine m" and "code_at (ectx m) (get_pos (ectx m)) (code_ii (0, c, OP_XCHG, 0, a, b))"
    and "c < 16" and "a < 16" and "b < 16" and "takes c m"
  shows "\<exists>m'. cpu_step m m' \<and> moved m 4 ((reg_of (ectx m))(a := reg_of (ectx m) b, b := reg_of (ectx m) a)) m'"
proof -
  define i where "i = decode_bytes (push_bit 6 0 OR OP_XCHG) (push_bit 4 c OR 0) (push_bit 4 a OR b) 0"
  let ?s = "upd_reg b (reg_of (ectx m) a) (upd_reg a (reg_of (ectx m) b) (ectx (fetched m)))"
  have f: "condition i = c" "opcode i = OP_XCHG" "opa i = a" "opb i = b"
    unfolding i_def using code_fields[of 0 c OP_XCHG 0 a b] assms(3-5) by simp_all
  have wf: "wf (ectx m)" using assms(1) by (simp add: wf_machine_def)
  have "ins_xchg i (ectx (fetched m)) = Inr ?s"
    using wf assms(4,5) by (simp add: ins_xchg_def f get_reg_norm set_reg_norm)
  then have "cpu_step m ((fetched m)\<lparr>ectx := ?s\<rparr>)"
    using assms(6) f by (intro step_ectx[OF assms(1) assms(2)[unfolded code_eqs] i_def _ _ _ dispatch(2)]) simp_all
  from this assms(1) show ?thesis
    by (rule moved_step) (use wf assms(4,5) in \<open>simp_all add: ectx_simps fun_eq_iff\<close>)
qed

lemma jmp_step:
  assumes "wf_machine m" and "code_at (ectx m) (get_pos (ectx m)) (code_ii (0, c, OP_JMP, d, 0, 0))"
    and "c < 16" and "d < 16" and "takes c m"
  shows "\<exists>m'. cpu_step m m' \<and> arrives m (reg_of (ectx m) d) (reg_of (ectx m)) m'"
proof -
  define i where "i = decode_bytes (push_bit 6 0 OR OP_JMP) (push_bit 4 c OR d) (push_bit 4 0 OR 0) 0"
  have f: "condition i = c" "opcode i = OP_JMP" "prefix i = PREFIX_DWORD" "dst i = d" "wf_ins i"
    unfolding i_def using code_fields[of 0 c OP_JMP d 0 0] assms(3,4) by simp_all
  have wf: "wf (ectx m)" using assms(1) by (simp add: wf_machine_def)
  have "ins_jmp i (ectx (fetched m)) = Inr (set_pos (reg_of (ectx m) d) (ectx (fetched m)))"
    using ins_jmp_norm[of "ectx (fetched m)" i] wf f by simp
  then have "cpu_step m ((fetched m)\<lparr>ectx := set_pos (reg_of (ectx m) d) (ectx (fetched m))\<rparr>)"
    using assms(5) f by (intro step_ectx[OF assms(1) assms(2)[unfolded code_eqs] i_def _ _ _ dispatch(3)]) simp_all
  from this assms(1) show ?thesis by (rule arrives_step) (simp_all add: ectx_simps fun_eq_iff)
qed

lemma call_step:
  assumes "wf_machine m" and "code_at (ectx m) (get_pos (ectx m)) (code_ii (0, c, OP_CALL, d, 0, 0))"
    and "c < 16" and "d < 16" and "takes c m" and "d \<noteq> CPU_REG_RC"
  shows "\<exists>m'. cpu_step m m' \<and>
    arrives m (reg_of (ectx m) d) ((reg_of (ectx m))(CPU_REG_RC := get_pos (ectx m) + 4)) m'"
proof -
  define i where "i = decode_bytes (push_bit 6 0 OR OP_CALL) (push_bit 4 c OR d) (push_bit 4 0 OR 0) 0"
  let ?s = "set_pos (reg_of (ectx m) d) (upd_reg CPU_REG_RC (get_pos (ectx m) + 4) (ectx (fetched m)))"
  have f: "condition i = c" "opcode i = OP_CALL" "prefix i = PREFIX_DWORD" "dst i = d" "wf_ins i"
    unfolding i_def using code_fields[of 0 c OP_CALL d 0 0] assms(3,4) by simp_all
  have wf: "wf (ectx m)" using assms(1) by (simp add: wf_machine_def)
  have "ins_call i (ectx (fetched m)) = Inr ?s"
    using ins_call_norm[of "ectx (fetched m)" i] wf f assms(1,6) by simp
  then have "cpu_step m ((fetched m)\<lparr>ectx := ?s\<rparr>)"
    using assms(5) f by (intro step_ectx[OF assms(1) assms(2)[unfolded code_eqs] i_def _ _ _ dispatch(4)]) simp_all
  from this assms(1) show ?thesis by (rule arrives_step) (use wf in \<open>simp_all add: ectx_simps fun_eq_iff\<close>)
qed

section \<open>Loading a dword\<close>

lemma halves:
  fixes r :: byte
  assumes "r < 8"
  shows "r * 2 < 16" "r * 2 + 1 < 16" "(r * 2) div 2 = r" "(r * 2 + 1) div 2 = r"
    "(r * 2) mod 2 = 0" "(r * 2 + 1) mod 2 = 1"
  using assms by (simp_all add: word_less_nat_alt word_unat_eq_iff unat_div unat_mod unat_word_ariths mod_Suc)

lemma set_halves:
  "set_field 16 16 (ucast (ucast (drop_bit 16 v) :: word16)) (set_field 16 0 (ucast (ucast v :: word16)) x) = v"
proof (rule bit_word_eqI)
  fix n assume "n < LENGTH(32)"
  then show "bit (set_field 16 16 (ucast (ucast (drop_bit 16 v) :: word16))
      (set_field 16 0 (ucast (ucast v :: word16)) x)) n = bit v n"
    using bit_set_field[of 16 16 "ucast (ucast (drop_bit 16 v) :: word16)" "set_field 16 0 (ucast (ucast v :: word16)) x" n]
      bit_set_field[of 0 16 "ucast (ucast v :: word16)" x n]
    by (cases "n < 16") (auto simp: bit_simps)
qed

lemma loadi_pair_steps:
  assumes "wf_machine m" and "code_at (ectx m) (get_pos (ectx m)) (loadi_pair c (r * 2) v)"
    and "c < 16" and "r < 8" and "takes c m"
  shows "\<exists>m'. reaches 2 m m' \<and> moved m 8 ((reg_of (ectx m))(r := v)) m'"
proof -
  let ?lo = "code_iv (1, c, OP_LOADI, r * 2, ucast v)" and ?hi = "code_iv (1, c, OP_LOADI, r * 2 + 1, ucast (drop_bit 16 v))"
  note h = halves[OF assms(4)]
  have code: "code_at (ectx m) (get_pos (ectx m)) (?lo @ ?hi)" using assms(2) by (simp add: loadi_pair_def)
  obtain m1 where m1: "cpu_step m m1" "moved m 4 ((reg_of (ectx m))(r :=
      set_field 16 0 (ucast (ucast v :: word16)) (reg_of (ectx m) r))) m1"
    using loadi_step[OF assms(1) code_at_appendD(1)[OF code] assms(3) h(1) assms(5)] h(3,5) by auto
  have "wf_machine m1" using m1(2) by (simp add: moved_def arrives_def)
  moreover have "code_at (ectx m1) (get_pos (ectx m1)) ?hi"
    using moved_code[OF m1(2) code] by (simp add: code_iv_def)
  moreover have "takes c m1" using moved_takes[OF m1(2), of c] assms(4,5) by (cases "r = 15") simp_all
  ultimately obtain m2 where m2: "cpu_step m1 m2" "moved m1 4 ((reg_of (ectx m1))(r :=
      set_field 16 16 (ucast (ucast (drop_bit 16 v) :: word16)) (reg_of (ectx m1) r))) m2"
    using loadi_step[of m1 c "r * 2 + 1" "ucast (drop_bit 16 v)"] assms(3) h by auto
  have "moved m (4 + 4) ((reg_of (ectx m))(r := v)) m2"
    using assms(4) moved_regs[OF m1(2)] by (intro moved_trans[OF m1(2) m2(2)]) (auto simp: set_halves)
  moreover have "reaches 2 m m2"
    using reaches_Suc[OF m1(1) reaches_Suc[OF m2(1) reaches_0]] by (simp add: numeral_2_eq_2)
  ultimately show ?thesis by auto
qed

text \<open>Instructions whose condition does not hold are passed over.\<close>

lemma skip_code:
  assumes "wf_machine m" and "\<forall>w \<in> set ws. \<exists>b1 b2 b3 b4. w = [b1, b2, b3, b4] \<and> drop_bit 4 b2 = c"
    and "code_at (ectx m) (get_pos (ectx m)) (concat ws)" and "\<not> takes c m"
  shows "\<exists>m'. reaches (length ws) m m' \<and> moved m (4 * length ws) (reg_of (ectx m)) m'"
  using assms
proof (induction ws arbitrary: m)
  case Nil
  then show ?case using moved_refl reaches_0 by auto
next
  case (Cons w ws)
  obtain b1 b2 b3 b4 where w: "w = [b1, b2, b3, b4]" "drop_bit 4 b2 = c" using Cons.prems(2) by auto
  have code: "code_at (ectx m) (get_pos (ectx m)) (w @ concat ws)" using Cons.prems(3) by simp
  obtain m1 where m1: "cpu_step m m1" "moved m 4 (reg_of (ectx m)) m1"
    using skip_step[OF Cons.prems(1) code_at_appendD(1)[OF code, unfolded w]] w(2) Cons.prems(4) by auto
  have "wf_machine m1" using m1(2) by (simp add: moved_def arrives_def)
  moreover have "code_at (ectx m1) (get_pos (ectx m1)) (concat ws)"
    using moved_code[OF m1(2) code] w(1) by simp
  moreover have "\<not> takes c m1" using moved_takes[OF m1(2) refl] Cons.prems(4) by simp
  ultimately obtain m2 where m2: "reaches (length ws) m1 m2" "moved m1 (4 * length ws) (reg_of (ectx m1)) m2"
    using Cons.IH[of m1] Cons.prems(2) by auto
  have "moved m (4 + 4 * length ws) (reg_of (ectx m)) m2"
    using m1(2) m2(2) by (rule moved_trans) (rule moved_regs[OF m1(2)])
  then show ?case using reaches_Suc[OF m1(1) m2(1)] by auto
qed

text \<open>The same code with an exchange before and after it.\<close>

lemma swapped_pair_steps:
  assumes "wf_machine m" and "c < 16" and "7 < n" and "n < 16" and "takes c m"
    and "n \<noteq> CPU_REG_FLGS \<or> c = COND_ALWAYS"
    and "code_at (ectx m) (get_pos (ectx m))
      (code_ii (0, c, OP_XCHG, 0, 7, n) @ loadi_pair c 14 v @ code_ii (0, c, OP_XCHG, 0, 7, n))"
  shows "\<exists>m'. reaches 4 m m' \<and> moved m 16 ((reg_of (ectx m))(n := v)) m'"
proof -
  let ?x = "code_ii (0, c, OP_XCHG, 0, 7, n)" and ?R = "reg_of (ectx m)"
  have l: "length ?x = 4" by (simp add: code_ii_def)
  have n: "n \<noteq> 7" using assms(3) by auto
  obtain m1 where m1: "cpu_step m m1" "moved m 4 (?R(7 := ?R n, n := ?R 7)) m1"
    using xchg_step[OF assms(1) code_at_appendD(1)[OF assms(7)] assms(2) _ assms(4,5)] by auto
  have t1: "takes c m1"
    using moved_takes[OF m1(2), of c] assms(5,6) by (cases "c = COND_ALWAYS") (auto simp: takes_def)
  have w1: "wf_machine m1" using m1(2) by (simp add: moved_def arrives_def)
  have c1: "code_at (ectx m1) (get_pos (ectx m1)) (loadi_pair c (7 * 2) v @ ?x)"
    using moved_code[OF m1(2) assms(7)] l by simp
  obtain m2 where m2: "reaches 2 m1 m2" "moved m1 8 ((reg_of (ectx m1))(7 := v)) m2"
    using loadi_pair_steps[OF w1 code_at_appendD(1)[OF c1] assms(2) _ t1] by auto
  have t2: "takes c m2" using moved_takes[OF m2(2), of c] t1 by simp
  have w2: "wf_machine m2" using m2(2) by (simp add: moved_def arrives_def)
  have c2: "code_at (ectx m2) (get_pos (ectx m2)) ?x"
    using moved_code[OF m2(2) c1] by simp
  obtain m3 where m3: "cpu_step m2 m3" "moved m2 4 ((reg_of (ectx m2))(7 := reg_of (ectx m2) n, n := reg_of (ectx m2) 7)) m3"
    using xchg_step[OF w2 c2 assms(2) _ assms(4) t2] by auto
  have "moved m (4 + 8) (?R(7 := v, n := ?R 7)) m2"
    using n moved_regs[OF m1(2)] by (intro moved_trans[OF m1(2) m2(2)]) auto
  from moved_trans[OF this m3(2), of "?R(n := v)"] have "moved m 16 (?R(n := v)) m3"
    using n assms(4) moved_regs[OF m2(2)] moved_regs[OF m1(2)] by auto
  moreover have "reaches (Suc 2 + Suc 0) m m3"
    by (rule reaches_trans[OF reaches_Suc[OF m1(1) m2(1)] reaches_Suc[OF m3(1) reaches_0]])
  ultimately show ?thesis by (auto simp: eval_nat_numeral)
qed

text \<open>After the pair that resolves a reference, the code behind it still takes effect.\<close>

lemma pair_then:
  assumes "wf_machine m" and "code_at (ectx m) (get_pos (ectx m)) (loadi_pair c (n * 2) a @ w)"
    and "c < 16" and "n < 8" and "takes c m"
  shows "\<exists>m1. reaches 2 m m1 \<and> moved m 8 ((reg_of (ectx m))(n := a)) m1 \<and> wf_machine m1 \<and> takes c m1 \<and>
    code_at (ectx m1) (get_pos (ectx m1)) w \<and> reg_of (ectx m1) n = a"
proof -
  have n: "n < 16" "n \<noteq> CPU_REG_FLGS" using assms(4) by (auto simp: word_less_nat_alt)
  obtain m1 where m1: "reaches 2 m m1" "moved m 8 ((reg_of (ectx m))(n := a)) m1"
    using loadi_pair_steps[OF assms(1) code_at_appendD(1)[OF assms(2)] assms(3-5)] by blast
  moreover have "takes c m1" using moved_takes[OF m1(2), of c] n(2) assms(5) by simp
  ultimately show ?thesis
    using moved_code[OF m1(2) assms(2)] moved_regs[OF m1(2) n(1)] reaches_wf[OF m1(1) assms(1)] by auto
qed

lemma reaches_3: "reaches 2 m m1 \<Longrightarrow> cpu_step m1 m2 \<Longrightarrow> reaches 3 m m2"
  using reaches_trans[of 2 m m1 "Suc 0" m2] reaches_Suc[OF _ reaches_0] by (simp add: eval_nat_numeral)

text \<open>The jump and the call that follow such a pair.\<close>

abbreviation go_code :: "byte \<Rightarrow> byte \<Rightarrow> byte \<Rightarrow> byte list" where
  "go_code c q n \<equiv> code_ii (0, c, q, n, 0, 0)"

lemma pair_jmp:
  assumes "wf_machine m" and "code_at (ectx m) (get_pos (ectx m)) (loadi_pair c (n * 2) a @ go_code c OP_JMP n)"
    and "c < 16" and "n < 8" and "takes c m"
  shows "\<exists>m'. reaches 3 m m' \<and> arrives m a ((reg_of (ectx m))(n := a)) m'"
proof -
  have n: "n < 16" using assms(4) by (auto simp: word_less_nat_alt)
  obtain m1 where m1: "reaches 2 m m1" "moved m 8 ((reg_of (ectx m))(n := a)) m1" "wf_machine m1" "takes c m1"
    "code_at (ectx m1) (get_pos (ectx m1)) (go_code c OP_JMP n)" "reg_of (ectx m1) n = a"
    using pair_then[OF assms] by blast
  obtain m2 where "cpu_step m1 m2" "arrives m1 a (reg_of (ectx m1)) m2"
    using jmp_step[OF m1(3,5) assms(3) n m1(4)] m1(6) by auto
  then show ?thesis using reaches_3[OF m1(1)] arrives_trans[OF m1(2)] moved_regs[OF m1(2)] by blast
qed

lemma pair_call:
  assumes "wf_machine m" and "code_at (ectx m) (get_pos (ectx m)) (loadi_pair c (n * 2) a @ go_code c OP_CALL n)"
    and "c < 16" and "n < 8" and "takes c m"
  shows "\<exists>m'. reaches 3 m m' \<and>
    arrives m a ((reg_of (ectx m))(n := a, CPU_REG_RC := get_pos (ectx m) + 12)) m'"
proof -
  let ?R = "(reg_of (ectx m))(n := a)"
  have n: "n < 16" "n \<noteq> CPU_REG_RC" using assms(4) by (auto simp: word_less_nat_alt)
  obtain m1 where m1: "reaches 2 m m1" "moved m 8 ?R m1" "wf_machine m1" "takes c m1"
    "code_at (ectx m1) (get_pos (ectx m1)) (go_code c OP_CALL n)" "reg_of (ectx m1) n = a"
    using pair_then[OF assms] by blast
  have "get_pos (ectx m1) + 4 = get_pos (ectx m) + 12" using m1(2) by (simp add: moved_def arrives_def)
  then obtain m2 where m2: "cpu_step m1 m2"
    "arrives m1 a ((reg_of (ectx m1))(CPU_REG_RC := get_pos (ectx m) + 12)) m2"
    using call_step[OF m1(3,5) assms(3) n(1) m1(4) n(2)] unfolding m1(6) by metis
  have "arrives m a (?R(CPU_REG_RC := get_pos (ectx m) + 12)) m2"
    by (rule arrives_trans[OF m1(2) m2(2)]) (simp only: fun_upd_apply moved_regs[OF m1(2)])
  then show ?thesis using reaches_3[OF m1(1) m2(1)] by blast
qed

lemma ref_links:
  assumes "get_reg_for_name r \<le> 7" and "L name = Some a"
  shows "link L (pseudo_chunks (Loadadr c r name)) = loadi_pair (cond_code c) (get_reg_for_name r * 2) a"
    "link L (pseudo_chunks (Ldjmp c r name)) = loadi_pair (cond_code c) (get_reg_for_name r * 2) a @
      go_code (cond_code c) OP_JMP (get_reg_for_name r)"
    "link L (pseudo_chunks (Ldcall c r name)) = loadi_pair (cond_code c) (get_reg_for_name r * 2) a @
      go_code (cond_code c) OP_CALL (get_reg_for_name r)"
  using assms by (auto simp: ref_chunks_def not_less)

section \<open>Labels in the loaded image\<close>

lemma place_append:
  "\<forall>d. Org d \<notin> set xs \<Longrightarrow> place p d L (xs @ ys) = place (p + size_of xs) d (place p d L xs) ys"
  by (induction p d L xs rule: place.induct) (auto simp: add.assoc)

lemma place_keeps: "accepted S cs \<Longrightarrow> n \<in> S \<Longrightarrow> place p d L cs n = L n"
  by (induction p d L cs arbitrary: S rule: place.induct) auto

lemma accepted_suffix: "accepted S (xs @ ys) \<Longrightarrow> \<exists>T. accepted T ys"
  by (induction S xs rule: accepted.induct) auto

lemma label_address:
  assumes "accepted S (xs @ Lab n # ys)" and "\<forall>d. Org d \<notin> set xs"
  shows "place p d L (xs @ Lab n # ys) n = Some (of_nat (p + size_of xs) + d)"
proof -
  obtain T where "accepted (insert n T) ys" using accepted_suffix[OF assms(1)] by auto
  from place_keeps[OF this] show ?thesis by (simp add: place_append[OF assms(2)])
qed

lemma link_append: "link L (xs @ ys) = link L xs @ link L ys"
  by (induction L xs rule: link.induct) auto

lemma prog_chunks_append:
  "prog_chunks p (es @ fs) = prog_chunks p es @ prog_chunks (p + size_of (prog_chunks p es)) fs"
  by (induction p es rule: prog_chunks.induct) (auto simp: add.assoc)

lemma Org_chunks: "Org d \<in> set (chunks p e) \<Longrightarrow> e = Directive (Offset d)"
proof -
  have b: "Org d \<notin> set (bytes_chunks bs)" for bs by (induction bs rule: bytes_chunks.induct) auto
  have c: "Org d \<notin> set (check12 i [Code bs])" for i bs by (simp add: check12_def)
  have "Org d \<notin> set (fmt_chunks f)" for f by (cases f) (simp_all add: c)
  moreover have "Org d \<notin> set (data_chunks f)" for f by (cases f) (simp_all add: c)
  moreover have "Org d \<notin> set (pseudo_chunks f)" for f by (cases f) (simp_all add: Let_def ref_chunks_def)
  moreover have "Org d \<in> set (directive_chunks p f) \<Longrightarrow> f = Offset d" for f
    by (cases f) (auto simp: b split: if_splits)
  ultimately show "Org d \<in> set (chunks p e) \<Longrightarrow> e = Directive (Offset d)" by (cases e) auto
qed

lemma Org_prog_chunks: "Org d \<in> set (prog_chunks p es) \<Longrightarrow> Directive (Offset d) \<in> set es"
  by (induction p es rule: prog_chunks.induct) (auto dest: Org_chunks)

text \<open>The bytes of an image stand at its load address.\<close>

lemma loaded_code:
  assumes "files path = Some img" and "length img \<le> 4194304 - 4096"
  shows "\<exists>m. emu_load_img files path (init_machine jr jc) = Inr m \<and> wf_machine m \<and>
    get_pos (ectx m) = 4096 \<and> code_at (ectx m) 4096 img"
proof -
  obtain s where s: "emu_load_img files path (init_machine jr jc) = Inr ((init_machine jr jc)\<lparr>ectx := set_pos 4096 s\<rparr>)"
    "cpu_context s = cpu_context (init_ectx jr jc)" "msize s = 4194304"
    and cell: "\<forall>a < 4194304. mem_at s a = (if unat (a - 4096) < length img then img ! unat (a - 4096) else 0)"
    using load_img_fits[of files path img jr jc, OF assms] by blast
  have "mem_at s (4096 + of_nat k) = img ! k" if "k < length img" for k
  proof -
    have u: "unat (of_nat k :: dword) = k" using that assms(2) by (simp add: unat_of_nat_dword)
    then have "unat (4096 + of_nat k :: dword) = 4096 + k" using that assms(2) by (simp add: unat_word_ariths)
    then have "(4096 + of_nat k :: dword) < 4194304" using that assms(2) by (simp add: word_less_nat_alt)
    then show ?thesis using cell that u by simp
  qed
  then have "code_at s 4096 img" using s(3) assms(2) by (simp add: code_at_def)
  then have "code_at (set_pos 4096 s) 4096 img"
    using code_at_memory[of "set_pos 4096 s" s 4096 img] by (simp add: set_pos_def)
  then show ?thesis using s(1) loaded_wf[OF s(2)] by (simp add: pos_upd)
qed

section \<open>Properties\<close>

text \<open>
  C17. The \<open>LOAD32\<close> macro works on every register, although \<open>LOADI\<close> reaches only the first eight: run
  on the processor, the code the assembler emits for it puts the value into the named register and
  changes no other register, no memory and no flag, or passes over everything when its condition
  does not hold. (With the flags register itself and a condition, the macro is not covered: its first
  exchange replaces the flags that the rest of it tests.)
\<close>

theorem load32_runs:
  assumes "wf_machine m" and "n = get_reg_for_name r" and "n \<noteq> CPU_REG_FLGS \<or> c = None"
    and "bs = link L (pseudo_chunks (Load32 c r v))" and "code_at (ectx m) (get_pos (ectx m)) bs"
  shows "\<exists>k m'. reaches k m m' \<and> moved m (length bs)
    (if takes (cond_code c) m then (reg_of (ectx m))(n := v) else reg_of (ectx m)) m'"
proof -
  let ?c = "cond_code c" and ?x = "code_ii (0, cond_code c, OP_XCHG, 0, 7, n)"
  define q where "q = (if n > 7 then 14 else n * 2)"
  define ws where "ws = (if n > 7 then [?x] else []) @ [code_iv (1, ?c, OP_LOADI, q, ucast v),
    code_iv (1, ?c, OP_LOADI, q + 1, ucast (drop_bit 16 v))] @ (if n > 7 then [?x] else [])"
  have bs: "bs = concat ws" by (simp add: assms(2,4) ws_def q_def Let_def)
  have n: "n < 16" by (simp add: assms(2))
  have c: "n \<noteq> CPU_REG_FLGS \<or> ?c = COND_ALWAYS" using assms(3) by (auto simp: cond_code_def)
  have len: "length bs = 4 * length ws" by (simp add: bs ws_def code_eqs)
  show ?thesis
  proof (cases "takes ?c m")
    case False
    have "drop_bit 4 (push_bit 4 ?c OR d) = ?c" if "d < 16" for d
      using that by (simp only: join_nibbles cond_code_less)
    moreover have "q < 16" "q + 1 < 16"
      using halves[of n] by (auto simp: q_def not_less word_le_nat_alt word_less_nat_alt)
    ultimately have "\<forall>w \<in> set ws. \<exists>b1 b2 b3 b4. w = [b1, b2, b3, b4] \<and> drop_bit 4 b2 = ?c"
      using join_nibbles(3)[OF cond_code_less[of c]] by (simp add: ws_def code_eqs del: drop_bit_or)
    from skip_code[OF assms(1) this] False assms(5) len show ?thesis by (auto simp: bs)
  next
    case True
    show ?thesis
    proof (cases "n > 7")
      case high: True
      then have "bs = ?x @ loadi_pair ?c 14 v @ ?x" by (simp add: bs ws_def q_def loadi_pair_def)
      with swapped_pair_steps[OF assms(1) cond_code_less high n True c, of v] assms(5) len high True
      show ?thesis by (auto simp: ws_def)
    next
      case False
      then have "bs = loadi_pair ?c (n * 2) v" "n < 8"
        by (simp_all add: bs ws_def q_def loadi_pair_def word_less_nat_alt)
      with loadi_pair_steps[OF assms(1) _ cond_code_less _ True, of n v] assms(5) True
      show ?thesis by auto
    qed
  qed
qed

text \<open>A machine for worked examples: 64 bytes of memory that hold some code, the pointer at its start.\<close>

definition code_machine :: "byte list \<Rightarrow> machine" where
  "code_machine bs = pio_init (pio_statics ((sample_ectx 64)\<lparr>memory_context :=
     (memory_context (sample_ectx 64))\<lparr>memory := (\<lambda>a. if unat a < length bs then bs ! unat a else 0)\<rparr>\<rparr>))"

lemma code_machine_simps [simp]:
  "wf_machine (code_machine bs)" "get_pos (ectx (code_machine bs)) = 0" "msize (ectx (code_machine bs)) = 64"
  "length bs \<le> 64 \<Longrightarrow> code_at (ectx (code_machine bs)) 0 bs"
  "q < 16 \<Longrightarrow> reg_of (ectx (code_machine bs)) q = 0"
proof -
  have e: "ectx (code_machine bs) = (sample_ectx 64)\<lparr>memory_context :=
     (memory_context (sample_ectx 64))\<lparr>memory := (\<lambda>a. if unat a < length bs then bs ! unat a else 0)\<rparr>\<rparr>"
    by (simp add: code_machine_def pio_init_def pio_statics_def)
  have c: "cpu_context (ectx (code_machine bs)) = cpu_context (sample_ectx 64)" by (simp add: e)
  have "wf (ectx (code_machine bs))" using sample_ectx_simps(1)[of 64] by (simp add: wf_def c)
  then show "wf_machine (code_machine bs)"
    by (simp add: wf_machine_def) (simp add: code_machine_def)
  show "get_pos (ectx (code_machine bs)) = 0" "msize (ectx (code_machine bs)) = 64"
    by (simp_all add: e get_pos_def msize_def sample_ectx_def)
  show "reg_of (ectx (code_machine bs)) q = 0" if "q < 16"
    using sample_ectx_simps(6)[OF that, of 64] by (simp add: reg_of_def c)
  show "code_at (ectx (code_machine bs)) 0 bs" if "length bs \<le> 64"
  proof -
    have "unat (of_nat k :: dword) = k" if "k < length bs" for k
      using that \<open>length bs \<le> 64\<close> by (intro unat_of_nat_dword) simp
    then show ?thesis using that by (simp add: code_at_def mem_at_def msize_def e sample_ectx_def)
  qed
qed

theorem load32_runs_witness:
  "\<exists>k m'. reaches k (code_machine (link Map.empty (pseudo_chunks (Load32 None ''SP'' 0x12345678)))) m' \<and>
     get_pos (ectx m') = 16 \<and> reg_of (ectx m') 14 = 0x12345678 \<and> reg_of (ectx m') 7 = 0"
proof -
  define bs where "bs = link Map.empty (pseudo_chunks (Load32 None ''SP'' 0x12345678))"
  let ?m = "code_machine bs"
  have r: "14 = get_reg_for_name ''SP''" by (simp add: get_reg_for_name_def reg32lkupbuf_def)
  have len: "length bs = 16" by (simp add: bs_def r[symmetric] Let_def code_eqs loadi_pair_def)
  obtain k m' where k: "reaches k ?m m'" and m': "moved ?m 16 ((reg_of (ectx ?m))(14 := 0x12345678)) m'"
    using load32_runs[OF code_machine_simps(1) r _ bs_def, of bs] len
    by (auto simp: takes_def cond_code_def)
  have "get_pos (ectx m') = 16" using m' by (simp add: moved_def arrives_def)
  then show ?thesis
    unfolding bs_def[symmetric] using k moved_regs[OF m', of 14] moved_regs[OF m', of 7] by auto
qed

text \<open>
  C13. References work on the processor: with a register that the assembler admits (the first eight)
  a condition that holds and a label at address \<open>a\<close>, the resolved code of \<open>LOADADR\<close> leaves \<open>a\<close> in the register, that of
  \<open>LDJMP\<close> continues at \<open>a\<close>, and that of \<open>LDCALL\<close> continues at \<open>a\<close> with the address behind the macro in
  \<open>RC\<close>; no other register and no memory changes.
\<close>

theorem reference_runs:
  assumes "wf_machine m" and "n = get_reg_for_name r" and "n \<le> 7" and "L name = Some a"
    and "takes (cond_code c) m" and "R = (reg_of (ectx m))(n := a)"
  shows "(code_at (ectx m) (get_pos (ectx m)) (link L (pseudo_chunks (Loadadr c r name))) \<longrightarrow>
      (\<exists>m'. reaches 2 m m' \<and> moved m 8 R m')) \<and>
    (code_at (ectx m) (get_pos (ectx m)) (link L (pseudo_chunks (Ldjmp c r name))) \<longrightarrow>
      (\<exists>m'. reaches 3 m m' \<and> arrives m a R m')) \<and>
    (code_at (ectx m) (get_pos (ectx m)) (link L (pseudo_chunks (Ldcall c r name))) \<longrightarrow>
      (\<exists>m'. reaches 3 m m' \<and> arrives m a (R(CPU_REG_RC := get_pos (ectx m) + 12)) m'))"
proof -
  have n: "n < 8" using assms(3) by (auto simp: word_le_nat_alt word_less_nat_alt)
  have links: "link L (pseudo_chunks (Loadadr c r name)) = loadi_pair (cond_code c) (n * 2) a"
    "link L (pseudo_chunks (Ldjmp c r name)) = loadi_pair (cond_code c) (n * 2) a @ go_code (cond_code c) OP_JMP n"
    "link L (pseudo_chunks (Ldcall c r name)) = loadi_pair (cond_code c) (n * 2) a @ go_code (cond_code c) OP_CALL n"
    using ref_links assms(2-4) by simp_all
  show ?thesis
    unfolding links assms(6)
    using loadi_pair_steps[OF assms(1) _ cond_code_less n assms(5), of a]
      pair_jmp[OF assms(1) _ cond_code_less n assms(5), of a] pair_call[OF assms(1) _ cond_code_less n assms(5), of a]
    by blast
qed

theorem reference_runs_witness:
  "\<exists>m'. reaches 3 (code_machine (link [''_L'' \<mapsto> 0x20] (pseudo_chunks (Ldcall None ''R1'' ''_L'')))) m' \<and>
     get_pos (ectx m') = 0x20 \<and> reg_of (ectx m') 12 = 12 \<and> reg_of (ectx m') 1 = 0x20"
proof -
  define bs where "bs = link [''_L'' \<mapsto> 0x20] (pseudo_chunks (Ldcall None ''R1'' ''_L''))"
  let ?m = "code_machine bs"
  have r: "1 = get_reg_for_name ''R1''" by (simp add: get_reg_for_name_def reg32lkupbuf_def)
  have "length bs = 12" by (simp add: bs_def r[symmetric] ref_chunks_def code_eqs)
  then have code: "code_at (ectx ?m) (get_pos (ectx ?m)) bs" by simp
  have t: "takes (cond_code None) ?m" by (simp add: takes_def cond_code_def)
  obtain m' where "reaches 3 ?m m'" and m': "arrives ?m 0x20 (((reg_of (ectx ?m))(1 := 0x20))(12 := 12)) m'"
    using reference_runs[OF code_machine_simps(1) r _ _ t refl, of "[''_L'' \<mapsto> 0x20]" "''_L''" "0x20"] code
    unfolding bs_def by auto
  then show ?thesis unfolding bs_def[symmetric] by (auto simp: arrives_def)
qed

text \<open>
  C8. From source to a running processor: a program that begins with a jump to a label, assembled
  with the default origin and loaded by the emulator, is at that label after three instructions,
  with the code of the statements behind the label in front of it. So the origin that the assembler
  assumes and the address that the loader uses agree, and the run of the emulator is the run from
  there.
\<close>

theorem assembled_program_boots:
  assumes "\<And>n. heap n" and "\<forall>n x. ok n x"
    and "es = Pseudo (Ldjmp None r n) # es1 @ Directive (Label n) # es2"
    and "\<forall>d. Directive (Offset d) \<notin> set es" and "fits_all 0 (prog_chunks 0 es)"
    and "vasm_main heap None es = Inr out" and "length out \<le> 4194304 - 4096"
    and "files path = Some (map the out)" and "q = 12 + size_of (prog_chunks 12 es1)"
  shows "\<exists>m m'. emu_load_img files path (init_machine jr jc) = Inr m \<and> reaches 3 m m' \<and>
    main ok jr jc files [prog, path] = cpu_loop False m' 0 \<and> get_pos (ectx m') = 4096 + of_nat q \<and>
    code_at (ectx m') (4096 + of_nat q)
      (link (place 0 4096 Map.empty (prog_chunks 0 es)) (prog_chunks q es2))"
proof -
  let ?cs = "prog_chunks 0 es" and ?a = "4096 + of_nat q :: dword" and ?g = "get_reg_for_name r"
  define L where "L = place 0 4096 Map.empty ?cs"
  have acc: "accepted {} ?cs" and out: "out = map Some (link L ?cs)"
    using vasm_main_links[OF assms(1,5)] assms(6) by (auto simp: L_def Let_def split: if_splits)
  have r: "?g \<le> 7" using acc assms(3) by (auto simp: ref_chunks_def not_less split: if_splits)
  define xs where "xs = pseudo_chunks (Ldjmp None r n) @ prog_chunks 12 es1"
  have sz: "size_of (pseudo_chunks (Ldjmp None r n)) = 12"
    using r by (auto simp: ref_chunks_def code_ii_def not_less)
  then have cs: "?cs = xs @ Lab n # prog_chunks q es2" and "size_of xs = q"
    by (simp_all add: assms(3,9) xs_def prog_chunks_append)
  moreover have "\<forall>d. Org d \<notin> set xs" using assms(4) cs Org_prog_chunks[of _ 0 es] by auto
  ultimately have label: "L n = Some ?a"
    using label_address[of "{}" xs n "prog_chunks q es2" 0 4096 Map.empty] acc by (simp add: L_def add.commute)
  obtain m where m: "emu_load_img files path (init_machine jr jc) = Inr m" "wf_machine m"
    "get_pos (ectx m) = 4096" "code_at (ectx m) 4096 (link L ?cs)"
    using loaded_code[of files path "map the out" jr jc] assms(7,8) out by (auto simp: comp_def)
  have code: "link L ?cs = link L xs @ link L (prog_chunks q es2)" by (simp add: cs link_append)
  have len: "length (link L xs) = q" by (simp add: length_link \<open>size_of xs = q\<close>)
  have "code_at (ectx m) (get_pos (ectx m)) (loadi_pair (cond_code None) (?g * 2) ?a @ go_code (cond_code None) OP_JMP ?g)"
    using code_at_appendD(1)[of "ectx m" 4096 "link L (pseudo_chunks (Ldjmp None r n))"] m(3,4)
    unfolding code xs_def link_append append_assoc by (simp only: ref_links(2)[of r L n, OF r label])
  moreover have "?g < 8" using r by (auto simp: word_le_nat_alt word_less_nat_alt)
  ultimately obtain m' where m': "reaches 3 m m'" "arrives m ?a ((reg_of (ectx m))(?g := ?a)) m'"
    using pair_jmp[OF m(2) _ cond_code_less, of None ?g ?a] by (auto simp: takes_def cond_code_def)
  have "code_at (ectx m') ?a (link L (prog_chunks q es2))"
    using code_at_appendD(2)[of "ectx m" 4096 "link L xs" "link L (prog_chunks q es2)"] m(4) m'(2)
      code_at_memory[of "ectx m'" "ectx m"] by (simp add: code len arrives_def)
  moreover have "main ok jr jc files [prog, path] = cpu_loop False m' 0"
    using cpu_loop_reaches[OF m'(1)] m(1) by (simp add: main_def emu_init_ok[OF assms(2)] cpu_execute_def)
  ultimately show ?thesis
    using m(1) m' by (auto simp: L_def arrives_def)
qed

theorem assembled_program_boots_witness:
  "\<exists>m m'. emu_load_img (\<lambda>_. Some [0x46, 0x02, 0x10, 0x10, 0x46, 0x03, 0x00, 0x00, 0x0B, 0x01, 0x00, 0x00,
       0x2A, 0x00, 0x00, 0x00, 0x00, 0x00, 0x00, 0x00]) ''x'' (init_machine (\<lambda>_. 0) (\<lambda>_. 0)) = Inr m \<and>
     reaches 3 m m' \<and> get_pos (ectx m') = 0x1010 \<and> code_at (ectx m') 0x1010 [0x00, 0x00, 0x00, 0x00]"
proof -
  let ?es1 = "[Directive (Byte 0x2A), Directive (Align 4 0)]" and ?es2 = "[Fmt (Fmt_I ''STOP'' None)]"
  let ?es = "Pseudo (Ldjmp None ''R1'' ''_L'') # ?es1 @ Directive (Label ''_L'') # ?es2"
  define bs :: "byte list" where "bs = [0x46, 0x02, 0x10, 0x10, 0x46, 0x03, 0x00, 0x00, 0x0B, 0x01, 0x00, 0x00,
    0x2A, 0x00, 0x00, 0x00, 0x00, 0x00, 0x00, 0x00]"
  have three: "replicate 3 x = [x, x, x]" for x :: chunk by (simp add: numeral_3_eq_3)
  have cs: "prog_chunks 0 ?es = [Ref 1 0 ''_L'', Code [0x0B, 0x01, 0x00, 0x00], Code [0x2A], Code [0], Code [0],
    Code [0], Lab ''_L'', Code [0, 0, 0, 0]]"
    by (simp add: ref_chunks_def get_reg_for_name_def reg32lkupbuf_def cond_code_def code_ii_def code_i_def
        padding_def three get_op_for_name_def oplkupbuf_def)
  have q: "12 + size_of (prog_chunks 12 ?es1) = 16" by (simp add: padding_def three)
  have code: "link L (prog_chunks 16 ?es2) = [0, 0, 0, 0]" for L
    by (simp add: cond_code_def code_i_def get_op_for_name_def oplkupbuf_def)
  have fits: "fits_all 0 (prog_chunks 0 ?es)" unfolding cs by simp
  have vasm: "vasm_main (\<lambda>n. True) None ?es = Inr (map Some bs)"
    using vasm_main_links[of "\<lambda>n. True", OF TrueI fits]
    unfolding cs by (simp add: loadi_pair_def code_iv_def bs_def)
  have origin: "\<forall>d. Directive (Offset d) \<notin> set ?es" by simp
  have img: "length (map Some bs) \<le> 4194304 - 4096" "Some bs = Some (map the (map Some bs))"
    by (simp_all add: bs_def)
  note boots = assembled_program_boots[of "\<lambda>n. True" "\<lambda>n x. True", OF TrueI _ refl origin fits vasm img(1) img(2) q[symmetric]]
  have "(of_nat 16 :: dword) = 16" by simp
  with boots[of "''x''" "\<lambda>_. 0" "\<lambda>_. 0" "[]"] show ?thesis unfolding code bs_def[symmetric] by auto
qed

end
