(* ===== verification/Assembler_Inv.thy ===== *)
theory Assembler_Inv
  imports Assembler "HOL-Library.Sublist"
begin

text \<open>
  What every statement keeps of the state of the assembler, with no condition on the layout: the
  position may be moved by \<^verbatim>\<open>.at\<close>, instructions may cross the blocks by which the buffer grows, and
  the buffer may be of fixed size. The invariant makes the tracked size the size of the heap block,
  so that the final \<^verbatim>\<open>fwrite\<close> of \<^verbatim>\<open>src/assembler/vasm.y\<close> never reads beyond it.
\<close>

section \<open>The invariant\<close>

text \<open>The allocator refuses four gigabytes, so a size never wraps around.\<close>

definition emit_inv :: "emit_context \<Rightarrow> bool" where
  "emit_inv ctx \<longleftrightarrow> wf_emit ctx \<and> (buf_len_fixed ctx = 0 \<longrightarrow> 512 dvd unat (buf_size ctx)) \<and>
     \<not> heap_serves ctx (2 ^ 32)"

definition extends :: "emit_context \<Rightarrow> emit_context \<Rightarrow> bool" where
  "extends ctx ctx' \<longleftrightarrow> emit_inv ctx' \<and> labels ctx \<subseteq>\<^sub>m labels ctx' \<and>
     prefix (labelrefs ctx) (labelrefs ctx') \<and> highest_pos ctx \<le> highest_pos ctx' \<and>
     buf_size ctx \<le> buf_size ctx' \<and> heap_serves ctx' = heap_serves ctx \<and>
     buf_len_fixed ctx' = buf_len_fixed ctx \<and> (buf_len_fixed ctx \<noteq> 0 \<longrightarrow> buf_size ctx' = buf_size ctx)"

lemma extends_inv: "extends ctx ctx' \<Longrightarrow> emit_inv ctx'"
  by (simp add: extends_def)

lemma extends_refl: "emit_inv ctx \<Longrightarrow> extends ctx ctx"
  by (simp add: extends_def)

lemma extends_trans: "extends ctx ctx1 \<Longrightarrow> extends ctx1 ctx2 \<Longrightarrow> extends ctx ctx2"
  unfolding extends_def by (auto intro: map_le_trans)

text \<open>A contract: an operation that, where it goes on, extends the state.\<close>

locale extending =
  fixes f :: "'x \<Rightarrow> emit_context \<Rightarrow> stop + emit_context" and admits :: "'x \<Rightarrow> bool"
  assumes step_extends: "admits x \<Longrightarrow> emit_inv ctx \<Longrightarrow> f x ctx = Inr ctx' \<Longrightarrow> extends ctx ctx'"
begin

lemma then_extends:
  assumes "admits x" and "emit_inv ctx" and "ubind (f x ctx) g = Inr ctx'"
    and "\<And>ctx1. emit_inv ctx1 \<Longrightarrow> g ctx1 = Inr ctx' \<Longrightarrow> extends ctx1 ctx'"
  shows "extends ctx ctx'"
proof -
  obtain ctx1 where "f x ctx = Inr ctx1" and g: "g ctx1 = Inr ctx'" using assms(3) by (auto simp: ubind_eq_Inr)
  from step_extends[OF assms(1,2) this(1)] have e: "extends ctx ctx1" .
  from extends_trans[OF e assms(4)[OF extends_inv[OF e] g]] show ?thesis .
qed

lemma seq_extends:
  "list_all admits xs \<Longrightarrow> emit_inv ctx \<Longrightarrow> emit_seq f xs ctx = Inr ctx' \<Longrightarrow> extends ctx ctx'"
proof (induction xs arbitrary: ctx)
  case (Cons x xs)
  from Cons.prems have x: "admits x" "ubind (f x ctx) (emit_seq f xs) = Inr ctx'" "list_all admits xs" by simp_all
  show ?case by (rule then_extends[OF x(1) Cons.prems(2) x(2) Cons.IH[OF x(3)]])
qed (simp add: extends_refl)

end

section \<open>The buffer\<close>

text \<open>The space that the guard makes: the bytes that are stored next lie within the tracked size.\<close>

lemma pred_less: "\<not> s \<le> x - 1 \<Longrightarrow> x \<le> s" for x s :: dword
  by (cases "x = 0") (simp_all add: not_le word_le_nat_alt word_less_nat_alt unat_minus_one)

lemma handle_extends:
  assumes "emit_inv ctx" and "handle_exceeding_buffer ctx n = Inr ctx'" and "0 < n" and "n \<le> 512"
  shows "extends ctx ctx' \<and> epos ctx' = epos ctx \<and> epos ctx' + n \<le> buf_size ctx' \<and>
    labels ctx' = labels ctx \<and> labelrefs ctx' = labelrefs ctx"
proof (cases "epos ctx + n - 1 \<ge> buf_size ctx")
  case False
  have "ctx' = ctx" using assms(2) False by (simp add: handle_exceeding_buffer_def)
  then show ?thesis using extends_refl[OF assms(1)] pred_less[OF False] by simp
next
  case True
  let ?p = "unat (epos ctx)" and ?sz = "unat (buf_size ctx)" and ?k = "grow_target ctx"
  have len: "length (realloc_buf ?k (buf ctx)) = ?k" by (simp add: realloc_buf_def)
  have dyn: "buf_len_fixed ctx = 0" and fits: "?p + 512 \<le> ?k" and heap: "heap_serves ctx ?k"
    and ctx': "ctx' = ctx\<lparr>buf := take ?p (realloc_buf ?k (buf ctx)) @ replicate 512 (Some 0) @
        drop (?p + 512) (realloc_buf ?k (buf ctx)), buf_size := buf_size ctx + 512\<rparr>"
    using assms(2) True len
    by (auto simp: handle_exceeding_buffer_def yyerror_def memset_buf_def grow_target_def split: if_splits)
  obtain j where j: "?sz = 512 * j" using assms(1) dyn by (auto simp: emit_inv_def)
  have high: "unat (highest_pos ctx) \<le> ?sz"
    using assms(1) by (simp add: emit_inv_def wf_emit_def word_le_nat_alt)
  have "\<not> ?p + 512 \<le> ?sz"
  proof
    assume "?p + 512 \<le> ?sz"
    then have "room (unat n) ctx" using assms(4) by (simp add: room_def word_le_nat_alt)
    then have "ctx' = ctx" using handle_room[OF _ assms(3)] assms(2) by simp
    then have "buf_size ctx' = buf_size ctx" by simp
    then show False by (simp add: ctx')
  qed
  moreover have "unat (highest_pos ctx) div 512 \<le> j" using high j by simp
  ultimately have k: "?k = ?sz + 512" using fits j by (simp add: grow_target_def)
  have "?sz < 512 * 2 ^ 23" using unat_dword_less[of "buf_size ctx"] by simp
  then have "j < 2 ^ 23" using j by linarith
  moreover have "?k \<noteq> 2 ^ 32" using heap assms(1) by (auto simp: emit_inv_def)
  ultimately have "?sz + 512 < 2 ^ 32" using k j by simp
  then have sz: "unat (buf_size ctx + 512) = ?sz + 512" by (simp add: unat_word_ariths)
  have p: "?p \<le> ?sz" using fits k by simp
  have "unat n \<le> 512" using assms(4) by (simp add: word_le_nat_alt)
  then have "unat (epos ctx + n) = ?p + unat n" using p \<open>?sz + 512 < 2 ^ 32\<close> by (simp add: unat_word_ariths)
  then have "epos ctx' + n \<le> buf_size ctx'" using p \<open>unat n \<le> 512\<close> by (simp add: ctx' word_le_nat_alt sz)
  moreover have "emit_inv ctx'"
    using assms(1) dyn len k sz p high
    by (simp add: emit_inv_def wf_emit_def ctx' word_le_nat_alt)
  ultimately show ?thesis
    using sz dyn by (simp add: extends_def ctx' word_le_nat_alt)
qed

text \<open>A run of bytes.\<close>

definition same_tables :: "emit_context \<Rightarrow> emit_context \<Rightarrow> bool" where
  "same_tables ctx ctx' \<longleftrightarrow> length (buf ctx') = length (buf ctx) \<and> buf_size ctx' = buf_size ctx \<and>
     highest_pos ctx' = highest_pos ctx \<and> labels ctx' = labels ctx \<and> labelrefs ctx' = labelrefs ctx \<and>
     heap_serves ctx' = heap_serves ctx \<and> buf_len_fixed ctx' = buf_len_fixed ctx"

lemma put_bytes_frame:
  "put_bytes bs ctx = Inr ctx' \<Longrightarrow> same_tables ctx ctx' \<and> epos ctx' = epos ctx + of_nat (length bs)"
proof (induction bs arbitrary: ctx)
  case (Cons b bs)
  then obtain ctx1 where c: "put_byte b ctx = Inr ctx1" "put_bytes bs ctx1 = Inr ctx'" by (auto simp: ubind_eq_Inr)
  from c(1) have "same_tables ctx ctx1" "epos ctx1 = epos ctx + 1"
    by (auto simp: put_byte_def same_tables_def split: if_splits)
  with Cons.IH[OF c(2)] show ?case by (simp add: same_tables_def add.assoc)
qed (simp add: same_tables_def)

lemma emit_inv_at: "emit_inv ctx \<Longrightarrow> extends ctx (ctx\<lparr>epos := p\<rparr>)" "emit_inv ctx \<Longrightarrow> extends ctx (ctx\<lparr>eoffset := d\<rparr>)"
  by (simp_all add: emit_inv_def wf_emit_def extends_def)

lemma set_highest_extends:
  assumes "emit_inv ctx" and "same_tables ctx ctx2" and "epos ctx2 \<le> buf_size ctx"
  shows "extends ctx (set_highest_position ctx2)"
  using assms by (auto simp: extends_def same_tables_def emit_inv_def wf_emit_def)

lemma emit_run_extends:
  assumes "bs \<noteq> [] \<and> length bs \<le> 512" and "emit_inv ctx" and "emit_run bs ctx = Inr ctx'"
  shows "extends ctx ctx'"
proof -
  have n: "unat (of_nat (length bs) :: dword) = length bs" using assms(1) by (intro unat_of_nat_dword) simp
  have len: "0 < (of_nat (length bs) :: dword)" "(of_nat (length bs) :: dword) \<le> 512"
    using n assms(1) by (simp_all add: word_less_nat_alt word_le_nat_alt)
  obtain ctx1 ctx2 where c: "handle_exceeding_buffer ctx (of_nat (length bs)) = Inr ctx1" "put_bytes bs ctx1 = Inr ctx2"
    "ctx' = set_highest_position ctx2"
    using assms(3) by (auto simp: emit_run_def ubind_eq_Inr)
  note h = handle_extends[OF assms(2) c(1) len]
  then have "extends ctx1 ctx'"
    using put_bytes_frame[OF c(2)] extends_inv[of ctx ctx1] unfolding c(3) by (intro set_highest_extends) auto
  with h show ?thesis using extends_trans by blast
qed

lemma emit_label_ref_extends:
  assumes "emit_inv ctx" and "emit_label_ref n r c ctx = Inr ctx'"
  shows "extends ctx ctx'"
proof -
  let ?ctx = "ctx\<lparr>labelrefs := labelrefs ctx @ [\<lparr>ref_pos = epos ctx, ref_reg = r, ref_name = n, ref_cond = c\<rparr>]\<rparr>"
  have new: "extends ctx ?ctx" using assms(1) by (simp add: emit_inv_def wf_emit_def extends_def)
  obtain ctx1 where c: "handle_exceeding_buffer ?ctx 8 = Inr ctx1"
    "ctx' = set_highest_position (ctx1\<lparr>epos := epos ctx1 + 8\<rparr>)"
    using assms(2) by (auto simp: emit_label_ref_def yyerror_def Let_def ubind_eq_Inr split: if_splits)
  note h = handle_extends[OF extends_inv[OF new] c(1)]
  then have "extends ctx1 ctx'"
    using extends_inv[of ?ctx ctx1] unfolding c(2) by (intro set_highest_extends) (auto simp: same_tables_def)
  moreover have "extends ?ctx ctx1" using h by simp
  ultimately show ?thesis using new extends_trans by blast
qed

interpretation run: extending emit_run "\<lambda>bs. bs \<noteq> [] \<and> length bs \<le> 512"
  by unfold_locales (rule emit_run_extends)

section \<open>Statements\<close>

text \<open>The runs of bytes of a chunk are short: no instruction is longer than four bytes.\<close>

fun short :: "chunk \<Rightarrow> bool" where
  "short (Code bs) \<longleftrightarrow> bs \<noteq> [] \<and> length bs \<le> 512"
| "short _ \<longleftrightarrow> True"

interpretation chunk: extending emit_chunk short
proof
  fix c ctx ctx' assume c: "short c" "emit_inv ctx" "emit_chunk c ctx = Inr ctx'"
  show "extends ctx ctx'"
  proof (cases c)
    case (Lab n)
    with c show ?thesis
      by (auto simp: emit_label_def yyerror_def extends_def emit_inv_def wf_emit_def map_le_def split: if_splits)
  qed (use c in \<open>auto simp: yyerror_def intro: emit_run_extends emit_label_ref_extends emit_inv_at\<close>)
qed

lemma code_four [simp]:
  "length (code_i x) = 4" "length (code_ii y) = 4" "length (code_iii z) = 4" "length (code_iv w) = 4"
  by (cases x; cases y; cases z; cases w; simp add: code_i_def code_ii_def code_iii_def code_iv_def)+

lemma code_some [simp]: "code_i x \<noteq> []" "code_ii y \<noteq> []" "code_iii z \<noteq> []" "code_iv w \<noteq> []"
  by (cases x; cases y; cases z; cases w; simp add: code_i_def code_ii_def code_iii_def code_iv_def)+

lemma chunks_short:
  "list_all short (fmt_chunks f)" "list_all short (data_chunks d)" "list_all short (pseudo_chunks p)"
  "(\<nexists>n fill. e = Align n fill) \<Longrightarrow> list_all short (directive_chunks k e)"
proof -
  have c: "list_all short (check12 i [Code (code_iii z)])" for i z by (simp add: check12_def)
  have b: "list_all short (bytes_chunks bs)" for bs by (induction bs rule: bytes_chunks.induct) auto
  show "list_all short (fmt_chunks f)" by (cases f) (simp_all add: c)
  show "list_all short (data_chunks d)" by (cases d) (simp_all add: c)
  show "list_all short (pseudo_chunks p)" by (cases p) (simp_all add: Let_def ref_chunks_def)
  show "list_all short (directive_chunks k e)" if "\<nexists>n fill. e = Align n fill"
    using that by (cases e) (simp_all add: b)
qed

lemma align_extends: "align_loop n fill ctx = Inr ctx' \<Longrightarrow> emit_inv ctx \<Longrightarrow> extends ctx ctx'"
proof (induction n fill ctx rule: align_loop.induct)
  case (1 n fill ctx)
  have n: "n \<noteq> 0" using 1(2) by (subst (asm) align_loop.simps) (simp split: if_splits)
  show ?case
  proof (cases "epos ctx mod ucast n = 0")
    case True
    then show ?thesis using 1(2,3) n by (subst (asm) align_loop.simps) (simp add: extends_refl)
  next
    case False
    then have "ubind (emit_run [ucast fill] ctx) (align_loop n fill) = Inr ctx'"
      using 1(2) n by (subst (asm) align_loop.simps) (simp add: emit_byte_run)
    then obtain ctx1 where c: "emit_run [ucast fill] ctx = Inr ctx1" "align_loop n fill ctx1 = Inr ctx'"
      by (auto simp: ubind_eq_Inr)
    have e: "extends ctx ctx1" using 1(3) c(1) by (rule emit_run_extends[rotated]) simp
    have "extends ctx1 ctx'"
      by (rule 1(1)[OF n False _ c(2) extends_inv[OF e]]) (simp add: emit_byte_run c(1))
    with e show ?thesis by (rule extends_trans)
  qed
qed

interpretation stmt: extending action "\<lambda>e. True"
proof
  fix e ctx ctx' assume inv: "emit_inv ctx" and act: "action e ctx = Inr ctx'"
  show "extends ctx ctx'"
  proof (cases "\<exists>n fill. e = Directive (Align n fill)")
    case True
    then show ?thesis using act inv by (auto intro: align_extends)
  next
    case False
    then have "emit_seq emit_chunk (chunks (unat (epos ctx)) e) ctx = Inr ctx'"
      using action_refines[of e ctx] act by auto
    moreover have "list_all short (chunks k e)" for k using False by (cases e) (auto simp: chunks_short)
    ultimately show ?thesis using chunk.seq_extends inv by blast
  qed
qed

section \<open>The second pass\<close>

lemma code_iv_run: "code_iv x \<noteq> [] \<and> length (code_iv x) \<le> 512"
  by simp

lemma resolve_extends: "resolve_refs rs ctx = Inr ctx' \<Longrightarrow> emit_inv ctx \<Longrightarrow> extends ctx ctx'"
proof (induction rs arbitrary: ctx)
  case (Cons lr rs)
  let ?at = "ctx\<lparr>epos := ref_pos lr\<rparr>"
  obtain v where "ubind (emit_loadi_pair (ref_cond lr) (ref_reg lr * 2) v ?at) (resolve_refs rs) = Inr ctx'"
    using Cons.prems(1) by (auto simp: ubind_eq_Inr)
  then have "extends ?at ctx'"
    unfolding loadi_pair_run ubind_assoc
    using Cons extends_inv[OF emit_inv_at(1)[OF Cons.prems(2)]]
    by (elim run.then_extends[OF code_iv_run, rotated]) (auto elim: run.then_extends[OF code_iv_run, rotated])
  with emit_inv_at(1)[OF Cons.prems(2)] show ?case by (rule extends_trans)
qed (simp add: extends_refl)

lemma write_in_range: "emit_inv ctx \<Longrightarrow> write_file ctx = Inr (image ctx)"
  by (simp add: emit_inv_def wf_emit_def write_file_def image_def word_le_nat_alt)

section \<open>Properties\<close>

text \<open>
  C14. The invariant of the assembler, with an allocator that refuses a block of four gigabytes and whatever
  the statements are (\<open>.at\<close> and instructions across block boundaries included): the fresh context has it, every statement and the resolution of the
  references keep it, so the tracked size is that of the heap block and the highest position lies
  within it. Labels once defined keep their addresses, references are only added at the end, the
  highest position and the size never shrink, a fixed buffer keeps its size, and the bytes that are
  written to the output file all lie in the buffer.
\<close>

theorem assembler_invariant:
  assumes "\<not> heap (2 ^ 32)" and "emit_create_context heap sz fx = Some ctx0" and "fx \<noteq> 0 \<or> sz = 512"
    and "emit_seq action es (ctx0\<lparr>eoffset := 4096\<rparr>) = Inr ctx1"
  shows "emit_inv ctx0 \<and> extends ctx0 ctx1 \<and>
    (\<forall>es' ctx2. emit_seq action es' ctx1 = Inr ctx2 \<longrightarrow> extends ctx1 ctx2) \<and>
    (\<forall>ctx2. label_resolution ctx1 = Inr ctx2 \<longrightarrow>
       extends ctx1 ctx2 \<and> write_file ctx2 = Inr (take (unat (highest_pos ctx2)) (buf ctx2)))"
proof -
  have new: "emit_inv ctx0"
    using assms(1-3) by (auto simp: emit_create_context_def emit_inv_def wf_emit_def split: if_splits)
  note at = emit_inv_at(2)[OF new, of 4096]
  have seq: "extends ctx ctx'" if "emit_inv ctx" "emit_seq action es' ctx = Inr ctx'" for es' ctx ctx'
    using stmt.seq_extends[of es'] that by (simp add: list_all_iff)
  have old: "extends ctx0 ctx1" using at seq[OF extends_inv[OF at] assms(4)] by (rule extends_trans)
  have res: "extends ctx1 ctx2 \<and> write_file ctx2 = Inr (take (unat (highest_pos ctx2)) (buf ctx2))"
    if "label_resolution ctx1 = Inr ctx2" for ctx2
    using resolve_extends[of "labelrefs ctx1" ctx1 ctx2] that extends_inv[OF old] write_in_range[of ctx2] extends_inv
    by (auto simp: label_resolution_def image_def)
  show ?thesis using new old seq[OF extends_inv[OF old]] res by blast
qed

theorem assembler_invariant_witness:
  "\<exists>ctx0 ctx1. emit_create_context (\<lambda>n. n < 4294967296) 8 1 = Some ctx0 \<and>
     emit_seq action [Directive (At 4), Directive (Label ''_L''), Directive (Byte 7)] (ctx0\<lparr>eoffset := 4096\<rparr>) = Inr ctx1 \<and>
     extends ctx0 ctx1 \<and> highest_pos ctx1 = 5 \<and> labels ctx1 ''_L'' = Some 4100"
proof -
  let ?heap = "\<lambda>n. n < (4294967296 :: nat)"
  let ?es = "[Directive (At 4), Directive (Label ''_L''), Directive (Byte 7)]"
  define ctx0 where "ctx0 = \<lparr>buf = replicate 8 (Some 0), buf_len_fixed = 1, epos = 0, highest_pos = 0,
    eoffset = 0, buf_size = 8, labels = Map.empty, labelrefs = [], heap_serves = ?heap\<rparr>"
  define ctx1 where "ctx1 = ctx0\<lparr>buf := (replicate 8 (Some 0))[4 := Some 7], epos := 5, highest_pos := 5,
    eoffset := 4096, labels := [''_L'' \<mapsto> 4100]\<rparr>"
  have c0: "emit_create_context ?heap 8 1 = Some ctx0" by (simp add: emit_create_context_def ctx0_def)
  have c1: "emit_seq action ?es (ctx0\<lparr>eoffset := 4096\<rparr>) = Inr ctx1"
    by (simp add: ctx1_def ctx0_def emit_label_def emit_byte_def handle_exceeding_buffer_def put_byte_def
        set_highest_position_def)
  have "extends ctx0 ctx1" using assembler_invariant[OF _ c0 _ c1] by simp
  moreover have "highest_pos ctx1 = 5" "labels ctx1 ''_L'' = Some 4100" by (simp_all add: ctx1_def)
  ultimately show ?thesis using c0 c1 by blast
qed

end
