(* ===== verification/Lexer.thy ===== *)
theory Lexer
  imports Assembler
begin

text \<open>
  The lexer of the assembler, \<^verbatim>\<open>src/assembler/vasm.l\<close>: its patterns, the conversions of its actions and
  the scanner that flex makes of them, which matches the longest text and, among the rules that
  match it, takes the first. The Makefile builds it with \<^verbatim>\<open>--case-insensitive\<close>, so a letter of a
  pattern matches in both cases. A pattern is a function that gives the length of its longest match
  at the start of a text, zero where it does not match.
\<close>

section \<open>Tokens\<close>

datatype op_class =
    OP_FMT_I | OP_FMT_II | OP_FMT_IV | OP_FMT_V | OP_FMT_VI | OP_FMT_VIC | OP_FMT_VIII
  | OP_S_CMPXCHG | OP_S_LOADI | OP_S_LOADID | OP_S_LOADRD | OP_S_MOV | OP_S_STOREID | OP_S_STORERD
  | OP_S_SEX | OP_S_XCHGC | OP_S_STOREAS | OP_S_LOADAS
  | OP_PSEUDO_LOADADR | OP_PSEUDO_LDCALL | OP_PSEUDO_LDJMP | OP_PSEUDO_PUSH | OP_PSEUDO_POP | OP_PSEUDO_LOAD32

datatype token =
    T_INT word16 | T_INT32 dword | IDENT string
  | REG32 string | REG16 string | REG8 string | CREG string
  | OP op_class string | CONDITION string | COMMA | T_ENDL | T_SPACE | GARBAGE
  | DIRECTIVE_ALIGN | DIRECTIVE_LABEL | DIRECTIVE_OFFSET | DIRECTIVE_BYTE | DIRECTIVE_WORD
  | DIRECTIVE_DWORD | DIRECTIVE_AT | DIRECTIVE_BYTES | DIRECTIVE_END

section \<open>Conversions\<close>

definition toupper :: "char \<Rightarrow> char" where
  "toupper c = (if c \<in> set ''abcdefghijklmnopqrstuvwxyz'' then char_of (of_char c - 32 :: nat) else c)"

definition upper :: "string \<Rightarrow> string" where
  "upper s = map toupper s"

definition is_digit :: "char \<Rightarrow> bool" where
  "is_digit c \<longleftrightarrow> c \<in> set ''0123456789''"

definition is_hex :: "char \<Rightarrow> bool" where
  "is_hex c \<longleftrightarrow> toupper c \<in> set ''0123456789ABCDEF''"

definition digit_value :: "char \<Rightarrow> nat" where
  "digit_value c = length (takeWhile (\<lambda>d. d \<noteq> toupper c) ''0123456789ABCDEF'')"

definition number_value :: "nat \<Rightarrow> string \<Rightarrow> nat" where
  "number_value base ds = foldl (\<lambda>n c. base * n + digit_value c) 0 ds"

text \<open>
  \<open>g_ascii_strtoull\<close> with base 0 on a text that begins with 0x, and \<open>g_ascii_strtoll\<close> with base 10 on
  minus signs and digits: only one sign is read, and without a digit behind it the result is zero.
  Their clamping to 64 bits leaves every value that the callers accept.
\<close>

definition strtoull :: "string \<Rightarrow> nat" where
  "strtoull s = number_value 16 (drop 2 s)"

definition strtoll :: "string \<Rightarrow> int" where
  "strtoll s =
     (case s of
        [] \<Rightarrow> 0
      | c # ds \<Rightarrow>
          if c = CHR ''-'' then (if ds \<noteq> [] \<and> is_digit (hd ds) then - int (number_value 10 ds) else 0)
          else int (number_value 10 s))"

definition hexToDec32 :: "string \<Rightarrow> stop + dword" where
  "hexToDec32 s = (if strtoull s > 0xFFFFFFFF then Inl (Exit 1) else Inr (of_nat (strtoull s)))"

definition hexToDec :: "string \<Rightarrow> stop + word16" where
  "hexToDec s = (if strtoull s > 0xFFFF then Inl (Exit 1) else Inr (of_nat (strtoull s)))"

definition to32BitInt :: "string \<Rightarrow> stop + dword" where
  "to32BitInt s =
     (if strtoll s > 2147483647 \<or> strtoll s < - 2147483648 then Inl (Exit 1) else Inr (of_int (strtoll s)))"

definition to16BitInt :: "string \<Rightarrow> stop + word16" where
  "to16BitInt s =
     (if strtoll s > 32767 \<or> strtoll s < - 32768 then Inl (Exit 1) else Inr (of_int (strtoll s)))"

text \<open>The names of a range are looked up as they are written, not in upper case.\<close>

definition reg_range_to16bit_int :: "string \<Rightarrow> word16" where
  "reg_range_to16bit_int s =
     (let start_reg = takeWhile (\<lambda>c. c \<noteq> CHR '':'') s;
          end_reg = drop (length start_reg + 1) s
      in push_bit 4 (ucast (get_reg_for_name start_reg)) OR ucast (get_reg_for_name end_reg))"

definition remove32BitEscapeSign :: "string \<Rightarrow> string" where
  "remove32BitEscapeSign s = (if s \<noteq> [] \<and> hd s = CHR ''@'' then tl s else s)"

section \<open>Names\<close>

definition REG32_names :: "string list" where
  "REG32_names = [''R0'', ''R1'', ''R2'', ''R3'', ''R4'', ''R5'', ''R6'', ''R7'', ''R8'', ''R9'',
     ''RA'', ''RB'', ''RC'', ''BP'', ''SP'', ''FLGS'']"

definition REG16_names :: "string list" where
  "REG16_names = [''R0L'', ''R0H'', ''R1L'', ''R1H'', ''R2L'', ''R2H'', ''R3L'', ''R3H'',
     ''R4L'', ''R4H'', ''R5L'', ''R5H'', ''R6L'', ''R6H'', ''R7L'', ''R7H'']"

definition REG8_names :: "string list" where
  "REG8_names = [''R0LL'', ''R0LH'', ''R0HL'', ''R0HH'', ''R1LL'', ''R1LH'', ''R1HL'', ''R1HH'',
     ''R2LL'', ''R2LH'', ''R2HL'', ''R2HH'', ''R3LL'', ''R3LH'', ''R3HL'', ''R3HH'']"

definition CREG_names :: "string list" where
  "CREG_names = [''MR1'', ''MR2'', ''MR3'', ''MR4'', ''CR1'', ''CR2'', ''SSP'', ''ST1'', ''ST2'', ''ST3'', ''ST4'']"

definition op_names :: "(op_class \<times> string list) list" where
  "op_names = [
     (OP_FMT_I, [''IRET'', ''STOP'']),
     (OP_FMT_II, [''ADD'', ''AND'', ''DIV'', ''OR'', ''MOD'', ''MUL'', ''SAR'', ''SDIV'', ''SHL'', ''SHR'',
        ''SMUL'', ''SUB'', ''XOR'']),
     (OP_FMT_IV, [''LOADMA'', ''STOREMA'']),
     (OP_FMT_V, [''CALL'', ''JMP'', ''TEST'']),
     (OP_FMT_VI, [''CMP'', ''IN'', ''NOT'', ''OUT'', ''XCHG'']),
     (OP_FMT_VIC, [''MOVTC'', ''MOVFC'']),
     (OP_FMT_VIII, [''FAIL'', ''INT'']),
     (OP_S_CMPXCHG, [''CMPXCHG'']), (OP_S_LOADI, [''LOADI'']), (OP_S_LOADID, [''LOADID'']),
     (OP_S_LOADRD, [''LOADRD'']), (OP_S_MOV, [''MOV'']), (OP_S_STOREID, [''STOREID'']),
     (OP_S_STORERD, [''STORERD'']), (OP_S_SEX, [''SEX'']), (OP_S_XCHGC, [''XCHGC'']),
     (OP_S_STOREAS, [''STOREAS'']), (OP_S_LOADAS, [''LOADAS'']),
     (OP_PSEUDO_LOADADR, [''LOADADR'']), (OP_PSEUDO_LDCALL, [''LDCALL'']), (OP_PSEUDO_LDJMP, [''LDJMP'']),
     (OP_PSEUDO_PUSH, [''PUSH'']), (OP_PSEUDO_POP, [''POP'']), (OP_PSEUDO_LOAD32, [''LOAD32''])]"

definition CONDITION_names :: "string list" where
  "CONDITION_names = [''NZNC'', ''NZNS'', ''IZ'', ''NZ'', ''IS'', ''NS'', ''IO'', ''NO'', ''IP'', ''NP'',
     ''IZIS'', ''IZIC'', ''IC'', ''NC'', ''NF'']"

section \<open>Patterns\<close>

text \<open>A word, one of several words, and the characters at the start that satisfy a condition.\<close>

definition kw :: "string \<Rightarrow> string \<Rightarrow> nat" where
  "kw w s = (if map toupper (take (length w) s) = w then length w else 0)"

definition alts :: "string list \<Rightarrow> string \<Rightarrow> nat" where
  "alts ws s = foldr (\<lambda>w. max (kw w s)) ws 0"

definition span :: "(char \<Rightarrow> bool) \<Rightarrow> string \<Rightarrow> nat" where
  "span p s = length (takeWhile p s)"

text \<open>One pattern after another, each with a longest match of its own; both have to match.\<close>

definition followed :: "(string \<Rightarrow> nat) \<Rightarrow> (string \<Rightarrow> nat) \<Rightarrow> string \<Rightarrow> nat" where
  "followed f g s = (if f s = 0 \<or> g (drop (f s) s) = 0 then 0 else f s + g (drop (f s) s))"

abbreviation TAB :: char where "TAB \<equiv> CHR 0x09"
abbreviation NL :: char where "NL \<equiv> CHR 0x0A"

definition blank :: "char \<Rightarrow> bool" where
  "blank c \<longleftrightarrow> c = TAB \<or> c = CHR '' ''"

definition p_endl :: "string \<Rightarrow> nat" where
  "p_endl s = max (kw [NL] s) (kw [CHR 0x0D, NL] s)"

definition p_hex :: "string \<Rightarrow> nat" where
  "p_hex = followed (kw ''0X'') (span is_hex)"

definition p_hex32 :: "string \<Rightarrow> nat" where
  "p_hex32 s = max (if kw ''0X'' s = 2 \<and> span is_hex (drop 2 s) \<ge> 8 then 10 else 0) (followed (kw ''@'') p_hex s)"

definition p_dec :: "string \<Rightarrow> nat" where
  "p_dec s = (let m = span (\<lambda>c. c = CHR ''-'') s; n = span is_digit (drop m s) in if n = 0 then 0 else m + n)"

definition p_range :: "string \<Rightarrow> nat" where
  "p_range = followed (alts REG32_names) (followed (kw '':'') (alts REG32_names))"

definition p_comma :: "string \<Rightarrow> nat" where
  "p_comma s =
     (let m = span (\<lambda>c. blank c \<or> c = NL) s in
      if kw '','' (drop m s) = 0 then 0 else m + 1 + span (\<lambda>c. blank c \<or> c = NL) (drop (m + 1) s))"

definition p_comment :: "string \<Rightarrow> nat" where
  "p_comment s =
     (let n = span (\<lambda>c. c \<noteq> NL) s in if kw '';'' s = 1 \<and> n < length s then n + 1 else 0)"

definition is_ident :: "char \<Rightarrow> bool" where
  "is_ident c \<longleftrightarrow> toupper c \<in> set ''ABCDEFGHIJKLMNOPQRSTUVWXYZ_''"

definition p_ident :: "string \<Rightarrow> nat" where
  "p_ident s =
     (let m = followed (kw ''_'') (span is_ident) s in
      if m = 0 then 0 else m + span (\<lambda>c. is_ident c \<or> is_digit c) (drop m s))"

definition p_any :: "string \<Rightarrow> nat" where
  "p_any s = (if s \<noteq> [] \<and> hd s \<noteq> NL then 1 else 0)"

section \<open>Rules\<close>

text \<open>What the action of a rule does with the text it matched.\<close>

datatype lexeme = Token token | Comment | Reject stop

definition number :: "('w \<Rightarrow> token) \<Rightarrow> stop + 'w \<Rightarrow> lexeme" where
  "number f r = (case r of Inl e \<Rightarrow> Reject e | Inr w \<Rightarrow> Token (f w))"

definition always :: "token \<Rightarrow> string \<Rightarrow> lexeme" where
  "always t yytext = Token t"

definition name_action :: "(string \<Rightarrow> token) \<Rightarrow> string \<Rightarrow> lexeme" where
  "name_action t yytext = Token (t (upper yytext))"

definition int_action :: "(string \<Rightarrow> stop + word16) \<Rightarrow> string \<Rightarrow> lexeme" where
  "int_action f yytext = number T_INT (f yytext)"

definition int32_action :: "(string \<Rightarrow> stop + dword) \<Rightarrow> string \<Rightarrow> lexeme" where
  "int32_action f yytext = number T_INT32 (f (remove32BitEscapeSign yytext))"

definition range_action :: "string \<Rightarrow> lexeme" where
  "range_action yytext = Token (T_INT (reg_range_to16bit_int yytext))"

definition skip_action :: "string \<Rightarrow> lexeme" where
  "skip_action yytext = Comment"

lemmas action_defs = always_def name_action_def int_action_def int32_action_def range_action_def skip_action_def

definition word_rule :: "string list \<Rightarrow> (string \<Rightarrow> token) \<Rightarrow> (string \<Rightarrow> nat) \<times> (string \<Rightarrow> lexeme)" where
  "word_rule ws t = (alts ws, name_action t)"

definition directive_rule :: "string \<Rightarrow> token \<Rightarrow> (string \<Rightarrow> nat) \<times> (string \<Rightarrow> lexeme)" where
  "directive_rule w t = (followed (kw w) (span blank), always t)"

definition rules :: "((string \<Rightarrow> nat) \<times> (string \<Rightarrow> lexeme)) list" where
  "rules =
     [(p_endl, always T_ENDL),
      (span blank, always T_SPACE),
      (p_hex32, int32_action hexToDec32),
      (p_hex, int_action hexToDec),
      (p_dec, int_action to16BitInt),
      (p_range, range_action),
      (followed (kw ''@'') p_dec, int32_action to32BitInt),
      (p_comma, always COMMA),
      word_rule CREG_names CREG, word_rule REG8_names REG8, word_rule REG16_names REG16,
      word_rule REG32_names REG32] @
     map (\<lambda>(k, ws). word_rule ws (OP k)) op_names @
     [directive_rule ''.ALIGN'' DIRECTIVE_ALIGN, directive_rule ''.LABEL'' DIRECTIVE_LABEL,
      directive_rule ''.OFFSET'' DIRECTIVE_OFFSET, directive_rule ''.BYTE'' DIRECTIVE_BYTE,
      directive_rule ''.WORD'' DIRECTIVE_WORD, directive_rule ''.DWORD'' DIRECTIVE_DWORD,
      directive_rule ''.AT'' DIRECTIVE_AT,
      (kw ''.BYTES'', always DIRECTIVE_BYTES), (kw ''.END'', always DIRECTIVE_END),
      word_rule CONDITION_names CONDITION,
      (p_comment, skip_action),
      (p_ident, name_action IDENT),
      (p_any, always GARBAGE)]"

section \<open>The scanner\<close>

definition longest :: "((string \<Rightarrow> nat) \<times> 'a) list \<Rightarrow> string \<Rightarrow> nat" where
  "longest rs s = foldr (\<lambda>(f, a). max (f s)) rs 0"

text \<open>The length of the match and the action of its rule.\<close>

definition scan :: "string \<Rightarrow> nat \<times> (string \<Rightarrow> lexeme)" where
  "scan s = (let n = longest rules s in (n, snd (hd (filter (\<lambda>(f, a). f s = n) rules))))"

lemma longest_Cons [simp]: "longest ((f, a) # rs) s = max (f s) (longest rs s)"
  by (simp add: longest_def)

lemma longest_append [simp]: "longest (rs @ rs') s = max (longest rs s) (longest rs' s)"
  by (induction rs) (auto simp: longest_def max.assoc)

lemma longest_Nil [simp]: "longest [] s = 0"
  by (simp add: longest_def)

lemma longest_ge: "(f, a) \<in> set rs \<Longrightarrow> f s \<le> longest rs s"
  by (induction rs) (auto simp: longest_def le_max_iff_disj)

lemma longest_rules_pos:
  assumes "s \<noteq> []"
  shows "0 < longest rules s"
proof -
  have "(p_endl, always T_ENDL) \<in> set rules" "(p_any, always GARBAGE) \<in> set rules"
    by (simp_all only: rules_def set_append set_simps Un_iff insert_iff refl simp_thms)
  from longest_ge[OF this(1), of s] longest_ge[OF this(2), of s] have "max (p_endl s) (p_any s) \<le> longest rules s"
    by simp
  moreover have "0 < max (p_endl s) (p_any s)"
  proof (cases "hd s = NL")
    case True
    then have "kw [NL] s = 1" using assms by (cases s) (simp_all add: kw_def toupper_def)
    then show ?thesis by (simp add: p_endl_def less_max_iff_disj)
  next
    case False
    then show ?thesis using assms by (simp add: p_any_def less_max_iff_disj)
  qed
  ultimately show ?thesis by (auto simp: less_max_iff_disj)
qed

text \<open>
  The tokens of a text, in order. An action that exits ends the list with the exit.
\<close>

function lex :: "string \<Rightarrow> (stop + token) list" where
  "lex s =
     (if s = [] then []
      else
        let (n, act) = scan s in
        case act (take n s) of
          Token t \<Rightarrow> Inr t # lex (drop n s)
        | Comment \<Rightarrow> lex (drop n s)
        | Reject e \<Rightarrow> [Inl e])"
  by pat_completeness auto
termination
  by (relation "measure length") (auto simp: scan_def Let_def longest_rules_pos)

declare lex.simps [simp del]

section \<open>Scanning words\<close>

text \<open>A rule that matches more than any rule with another action is the one that is taken.\<close>

lemma longest_le: "(\<forall>(f, a) \<in> set rs. f s \<le> n) \<Longrightarrow> longest rs s \<le> n"
  by (induction rs) (auto simp: longest_def)

lemma scan_unique:
  assumes "(f, a) \<in> set rules" and "\<And>g b. (g, b) \<in> set rules \<Longrightarrow> g s < f s \<or> g s = f s \<and> b = a"
  shows "scan s = (f s, a)"
proof -
  let ?hit = "filter (\<lambda>(g, b). g s = f s) rules"
  have "\<forall>(g, b) \<in> set rules. g s \<le> f s" using assms(2) by fastforce
  then have n: "longest rules s = f s"
    using longest_ge[OF assms(1)] longest_le[of rules s "f s"] by (simp add: le_antisym)
  have "(f, a) \<in> set ?hit" using assms(1) by simp
  then have "?hit \<noteq> []" by (metis empty_iff empty_set)
  then have "hd ?hit \<in> set ?hit" by (rule hd_in_set)
  moreover have "snd x = a" if "x \<in> set ?hit" for x using that assms(2)[of "fst x" "snd x"] by auto
  ultimately show ?thesis by (simp add: scan_def Let_def n)
qed

text \<open>The rules for words, with the classes they make tokens of, and the other rules.\<close>

definition word_classes :: "(string list \<times> (string \<Rightarrow> token)) list" where
  "word_classes = [(CREG_names, CREG), (REG8_names, REG8), (REG16_names, REG16), (REG32_names, REG32),
     (CONDITION_names, CONDITION)] @ map (\<lambda>(k, ws). (ws, OP k)) op_names"

definition lex_words :: "string list" where
  "lex_words = concat (map fst word_classes)"

definition other_rules :: "((string \<Rightarrow> nat) \<times> (string \<Rightarrow> lexeme)) list" where
  "other_rules =
     [(p_endl, always T_ENDL),
      (span blank, always T_SPACE),
      (p_hex32, int32_action hexToDec32),
      (p_hex, int_action hexToDec),
      (p_dec, int_action to16BitInt),
      (p_range, range_action),
      (followed (kw ''@'') p_dec, int32_action to32BitInt),
      (p_comma, always COMMA),
      directive_rule ''.ALIGN'' DIRECTIVE_ALIGN, directive_rule ''.LABEL'' DIRECTIVE_LABEL,
      directive_rule ''.OFFSET'' DIRECTIVE_OFFSET, directive_rule ''.BYTE'' DIRECTIVE_BYTE,
      directive_rule ''.WORD'' DIRECTIVE_WORD, directive_rule ''.DWORD'' DIRECTIVE_DWORD,
      directive_rule ''.AT'' DIRECTIVE_AT,
      (kw ''.BYTES'', always DIRECTIVE_BYTES), (kw ''.END'', always DIRECTIVE_END),
      (p_comment, skip_action),
      (p_ident, name_action IDENT),
      (p_any, always GARBAGE)]"

lemma rules_set: "set rules = (\<lambda>(ws, t). word_rule ws t) ` set word_classes \<union> set other_rules"
proof -
  have ops: "set (map (\<lambda>(k, ws). word_rule ws (OP k)) op_names) =
    (\<lambda>(ws, t). word_rule ws t) ` set (map (\<lambda>(k, ws). (ws, OP k)) op_names)"
    by (simp add: image_image case_prod_unfold)
  show ?thesis
    unfolding rules_def word_classes_def other_rules_def set_append set_simps image_Un image_insert image_empty ops prod.case
    by blast
qed

lemmas name_defs = CREG_names_def REG8_names_def REG16_names_def REG32_names_def op_names_def CONDITION_names_def

definition letter :: "char \<Rightarrow> bool" where
  "letter c \<longleftrightarrow> c \<in> set ''ABCDEFGHIJKLMNOPQRSTUVWXYZ''"

text \<open>Closed facts on the words.\<close>

lemma lex_words_distinct: "distinct lex_words"
  by (simp add: lex_words_def word_classes_def name_defs)

lemma lex_words_shape:
  "list_all (\<lambda>w. 1 < length w \<and> letter (hd w) \<and> list_all (\<lambda>c. letter c \<or> is_digit c) w) lex_words"
  by (simp add: lex_words_def word_classes_def name_defs letter_def is_digit_def)

text \<open>The text after a word: a character that neither continues the word nor begins another part of it.\<close>

definition stops :: "string \<Rightarrow> char \<Rightarrow> bool" where
  "stops w c \<longleftrightarrow> toupper c = c \<and> c \<noteq> CHR '':'' \<and> list_all (\<lambda>p. take (Suc (length w)) p \<noteq> w @ [c]) lex_words"

lemma toupper_id: "letter c \<or> is_digit c \<Longrightarrow> toupper c = c"
  by (auto simp: letter_def is_digit_def toupper_def)

lemma kw_cut:
  assumes "map toupper w = w" and "w \<noteq> []" and "toupper c = c" and "take (Suc (length w)) p \<noteq> w @ [c]"
  shows "kw p (w @ c # rest) \<le> length w" and "kw p (w @ c # rest) = length w \<longleftrightarrow> p = w"
proof -
  have "kw p (w @ c # rest) \<le> length w \<and> (kw p (w @ c # rest) = length w \<longleftrightarrow> p = w)"
  proof (cases "length p \<le> length w")
    case True
    have "map toupper (take (length p) w) = take (length p) w" using assms(1) by (metis take_map)
    then show ?thesis using True assms(2) by (auto simp: kw_def)
  next
    case False
    have "map toupper (take (length p) (w @ c # rest)) \<noteq> p"
    proof
      assume "map toupper (take (length p) (w @ c # rest)) = p"
      then have "take (Suc (length w)) p = map toupper (take (Suc (length w)) (take (length p) (w @ c # rest)))"
        by (metis take_map)
      also have "\<dots> = w @ [c]" using False assms(1,3) by (simp add: min_def)
      finally show False using assms(4) by simp
    qed
    then show ?thesis using False assms(2) by (auto simp: kw_def)
  qed
  then show "kw p (w @ c # rest) \<le> length w" "kw p (w @ c # rest) = length w \<longleftrightarrow> p = w" by simp_all
qed

lemma alts_simps [simp]: "alts [] s = 0" "alts (w # ws) s = max (kw w s) (alts ws s)"
  by (simp_all add: alts_def)

lemma word_shape:
  assumes "w \<in> set lex_words"
  shows "w \<noteq> []" "letter (hd w)" "1 < length w" "map toupper w = w" "CHR '':'' \<notin> set w"
proof -
  have w: "1 < length w \<and> letter (hd w) \<and> list_all (\<lambda>c. letter c \<or> is_digit c) w"
    using lex_words_shape assms by (simp add: list_all_iff)
  then show "w \<noteq> []" "letter (hd w)" "1 < length w" by auto
  show "map toupper w = w" using w toupper_id by (simp add: list_all_iff map_idI)
  have "\<not> (letter CHR '':'' \<or> is_digit CHR '':'')" by (simp add: letter_def is_digit_def)
  then show "CHR '':'' \<notin> set w" using w by (auto simp: list_all_iff)
qed

lemma alts_cut:
  assumes "w \<in> set lex_words" and "stops w c" and "set ws \<subseteq> set lex_words"
  shows "alts ws (w @ c # rest) \<le> length w \<and> (alts ws (w @ c # rest) = length w \<longleftrightarrow> w \<in> set ws)"
  using assms(3)
proof (induction ws)
  case Nil
  then show ?case using word_shape(1)[OF assms(1)] by simp
next
  case (Cons p ws)
  then have "take (Suc (length w)) p \<noteq> w @ [c]" using assms(2) by (simp add: stops_def list_all_iff)
  note k = kw_cut[OF word_shape(4,1)[OF assms(1)] _ this, of rest]
  have "toupper c = c" using assms(2) by (simp add: stops_def)
  then show ?case using Cons k by (auto simp: max_def)
qed

text \<open>What the other patterns match at a letter.\<close>

lemma kw_first: "p \<noteq> [] \<Longrightarrow> toupper a \<noteq> hd p \<Longrightarrow> kw p (a # s) = 0"
  by (cases p) (auto simp: kw_def)

lemma span_first: "span f (a # s) = (if f a then Suc (span f s) else 0)"
  by (simp add: span_def)

lemma followed_first: "f s = 0 \<Longrightarrow> followed f g s = 0"
  by (simp add: followed_def)

lemma letter_not:
  assumes "letter a"
  shows "toupper a = a" "\<not> blank a" "a \<noteq> NL" "\<not> is_digit a"
    "a \<notin> {CHR 0x0D, CHR ''0'', CHR ''@'', CHR ''-'', CHR '':'', CHR '','', CHR '';'', CHR ''_'', CHR ''.''}"
  using assms by (auto simp: letter_def blank_def is_digit_def toupper_def)

lemma class_unique:
  "distinct (concat (map fst cs)) \<Longrightarrow> (ws, t) \<in> set cs \<Longrightarrow> (ws', t') \<in> set cs \<Longrightarrow> w \<in> set ws \<Longrightarrow> w \<in> set ws' \<Longrightarrow>
     ws' = ws \<and> t' = t"
  by (induction cs) (auto simp: disjoint_iff, (force+))

lemma no_range:
  assumes "w \<in> set lex_words" and "stops w c"
  shows "p_range (w @ c # rest) = 0"
proof -
  let ?s = "w @ c # rest" and ?n = "alts REG32_names (w @ c # rest)"
  have "set REG32_names \<subseteq> set lex_words" by (auto simp: lex_words_def word_classes_def)
  then have n: "?n \<le> length w" using alts_cut[OF assms] by blast
  have colon: "kw '':'' (drop ?n ?s) = 0"
  proof (cases "?n = length w")
    case True
    then show ?thesis using assms(2) by (simp add: kw_first stops_def)
  next
    case False
    then have "?n < length w" using n by simp
    then have d: "drop ?n ?s = w ! ?n # drop (Suc ?n) w @ c # rest" by (simp add: Cons_nth_drop_Suc)
    have "toupper (w ! ?n) = w ! ?n" using word_shape(4)[OF assms(1)] \<open>?n < length w\<close> by (metis nth_map)
    moreover have "w ! ?n \<noteq> CHR '':''" using word_shape(5)[OF assms(1)] \<open>?n < length w\<close> nth_mem by metis
    ultimately show ?thesis unfolding d by (intro kw_first) simp_all
  qed
  then have "followed (kw '':'') (alts REG32_names) (drop ?n ?s) = 0" by (simp add: followed_def)
  then show ?thesis unfolding p_range_def by (subst followed_def) simp
qed

text \<open>A word is one token, whatever follows the character that ends it.\<close>

lemma toupper_code [code]:
  "toupper (Char b0 b1 b2 b3 b4 b5 b6 b7) =
     (if \<not> b7 \<and> b6 \<and> b5 \<and> (b0 \<or> b1 \<or> b2 \<or> b3 \<or> b4) \<and> \<not> (b4 \<and> b3 \<and> (b2 \<or> b1 \<and> b0))
      then Char b0 b1 b2 b3 b4 False b6 b7 else Char b0 b1 b2 b3 b4 b5 b6 b7)"
  by (cases b0; cases b1; cases b2; cases b3; cases b4; cases b5; cases b6; cases b7;
      simp add: toupper_def char_of_def bit_simps)

text \<open>A pattern matches in both cases.\<close>

lemma toupper_idem [simp]: "toupper (toupper c) = toupper c"
  by (cases c) (simp add: toupper_code)

lemma alts_map_toupper [simp]: "alts ws (map toupper s) = alts ws s"
proof -
  have "kw w (map toupper s) = kw w s" for w by (simp add: kw_def take_map comp_def)
  then show ?thesis by (induction ws) simp_all
qed

lemma p_range_map_toupper [simp]: "p_range (map toupper s) = p_range s"
proof -
  have "kw w (map toupper s) = kw w s" for w s by (simp add: kw_def take_map comp_def)
  then show ?thesis by (simp add: p_range_def followed_def drop_map)
qed

lemma at_letter_ci:
  assumes "letter (toupper a)" and "(f, b) \<in> set other_rules"
  shows "f = p_range \<or> f (a # s) \<le> 1"
proof -
  have "list_all (\<lambda>x. \<not> letter (toupper x)) ([NL, CHR 0x0D, CHR ''@'', CHR ''-'', CHR '':'', CHR '','', CHR '';'', CHR ''_'', CHR ''.'',
    CHR '' '', TAB] @ ''0123456789'')" by code_simp
  then have no: "a \<notin> {NL, CHR 0x0D, CHR ''0'', CHR ''@'', CHR ''-'', CHR '':'', CHR '','', CHR '';'', CHR ''_'', CHR ''.'', CHR '' '', TAB}"
    "\<not> is_digit a"
    using assms(1) unfolding list_all_iff is_digit_def by auto
  have up: "toupper a \<notin> {NL, CHR 0x0D, CHR ''0'', CHR ''@'', CHR ''-'', CHR '':'', CHR '','', CHR '';'', CHR ''_'', CHR ''.'', CHR '' '', TAB}"
    using letter_not[OF assms(1)] by (auto simp: blank_def)
  have "\<not> blank a" using no(1) by (simp add: blank_def)
  with no up assms(2) show ?thesis
    by (auto simp: other_rules_def p_endl_def p_hex_def p_hex32_def p_dec_def p_comma_def p_comment_def p_ident_def p_any_def directive_rule_def followed_first kw_first span_first)
qed

lemma scan_word_ci:
  assumes "(ws, t) \<in> set word_classes" and "w \<in> set ws" and "stops w c" and "map toupper v = w"
  shows "scan (v @ c # rest) = (length w, name_action t)"
proof -
  let ?s = "v @ c # rest" and ?u = "w @ c # map toupper rest"
  have w: "w \<in> set lex_words" using assms(1,2) by (force simp: lex_words_def)
  have up: "map toupper ?s = ?u" using assms(3,4) by (simp add: stops_def)
  have same: "alts ws' ?s = alts ws' ?u" "p_range ?s = p_range ?u" for ws'
    using alts_map_toupper[of ws' ?s] p_range_map_toupper[of ?s] by (simp_all only: up)
  have sub: "set ws' \<subseteq> set lex_words" if "(ws', t') \<in> set word_classes" for ws' t'
    using that by (force simp: lex_words_def)
  have alts: "alts ws ?s = length w" using alts_cut[OF w assms(3) sub[OF assms(1)]] assms(2) by (simp add: same)
  obtain a u where u: "v = a # u" "letter (toupper a)" using word_shape(1,2)[OF w] assms(4) by (cases v) auto
  have "g ?s < length w \<or> g ?s = length w \<and> b = name_action t" if rule: "(g, b) \<in> set rules" for g b
  proof (cases "(g, b) \<in> set other_rules")
    case True
    then have "g ?s \<le> 1"
      using no_range[OF w assms(3), of "map toupper rest"] at_letter_ci[OF u(2) True, of "u @ c # rest"] same(2) u(1) by auto
    then show ?thesis using word_shape(3)[OF w] by simp
  next
    case False
    then obtain ws' t' where c: "(ws', t') \<in> set word_classes" "(g, b) = word_rule ws' t'"
      using rule unfolding rules_set by auto
    then show ?thesis
      using alts_cut[OF w assms(3) sub[OF c(1)]] class_unique[OF _ assms(1) c(1) assms(2)] lex_words_distinct same(1)
      by (auto simp: word_rule_def lex_words_def le_less)
  qed
  moreover have "(alts ws, name_action t) \<in> set rules"
    unfolding rules_set using assms(1) by (force simp: word_rule_def)
  ultimately show ?thesis using scan_unique[of "alts ws" _ ?s] alts by auto
qed

lemma scan_word:
  assumes "(ws, t) \<in> set word_classes" and "w \<in> set ws" and "stops w c"
  shows "scan (w @ c # rest) = (length w, name_action t)"
proof -
  have "w \<in> set lex_words" using assms(1,2) by (force simp: lex_words_def)
  from scan_word_ci[OF assms word_shape(4)[OF this]] show ?thesis .
qed

section \<open>Scanning separators and numbers\<close>

lemma kw_Cons: "kw (p # ps) (a # s) = (if toupper a = p \<and> map toupper (take (length ps) s) = ps then Suc (length ps) else 0)"
  by (simp add: kw_def)

lemma kw_Nil: "kw (p # ps) [] = 0"
  by (simp add: kw_def)

lemma alts_other:
  assumes "\<not> letter (toupper a)" and "set ws \<subseteq> set lex_words"
  shows "alts ws (a # s) = 0"
  using assms(2)
proof (induction ws)
  case (Cons w ws)
  then have "w \<noteq> []" "letter (hd w)" using word_shape(1,2)[of w] by auto
  then show ?case using Cons assms(1) by (cases w) (auto simp: kw_Cons)
qed simp

lemma scan_other:
  assumes "\<not> letter (toupper a)" and "(f, b) \<in> set other_rules" and "0 < f (a # s)"
    and "\<forall>(g, b') \<in> set other_rules. g (a # s) < f (a # s) \<or> g (a # s) = f (a # s) \<and> b' = b"
  shows "scan (a # s) = (f (a # s), b)"
proof (rule scan_unique)
  show "(f, b) \<in> set rules" using assms(2) by (simp add: rules_set)
  fix g b' assume "(g, b') \<in> set rules"
  then consider "(g, b') \<in> set other_rules" | ws t where "(ws, t) \<in> set word_classes" "g = alts ws"
    unfolding rules_set by (auto simp: word_rule_def)
  then show "g (a # s) < f (a # s) \<or> g (a # s) = f (a # s) \<and> b' = b"
  proof cases
    case 2
    then have "set ws \<subseteq> set lex_words" by (force simp: lex_words_def)
    then show ?thesis using alts_other[OF assms(1)] assms(3) 2(2) by simp
  qed (use assms(4) in auto)
qed

lemma REG32_words: "set REG32_names \<subseteq> set lex_words"
  by (auto simp: lex_words_def word_classes_def)

lemma p_range_other: "\<not> letter (toupper a) \<Longrightarrow> p_range (a # s) = 0"
  by (simp add: p_range_def followed_first alts_other REG32_words)

text \<open>The characters between the words.\<close>

lemma seps [simp]:
  "toupper TAB = TAB" "toupper NL = NL" "toupper CHR '','' = CHR '',''" "toupper CHR ''0'' = CHR ''0''"
  "toupper CHR ''x'' = CHR ''X''"
  "\<not> letter TAB" "\<not> letter NL" "\<not> letter CHR '',''" "\<not> letter CHR ''0''"
  "blank TAB" "\<not> blank NL" "\<not> blank CHR '',''" "\<not> blank CHR ''0''"
  "\<not> is_digit TAB" "\<not> is_digit NL" "\<not> is_digit CHR '',''" "is_digit CHR ''0''" "\<not> is_digit CHR ''x''"
  "\<not> is_hex TAB" "\<not> is_hex NL" "\<not> is_hex CHR '',''" "\<not> is_hex CHR ''x''"
  by (simp_all add: toupper_def letter_def blank_def is_digit_def is_hex_def char_of_eq_iff)

lemmas pattern_defs = p_endl_def p_hex_def p_hex32_def p_dec_def p_comma_def p_comment_def p_ident_def p_any_def
  directive_rule_def followed_def kw_Cons kw_Nil span_first p_range_other

text \<open>What may follow a separator: an operand, or the next line.\<close>

definition operand :: "char \<Rightarrow> bool" where
  "operand c \<longleftrightarrow> letter c \<or> c = CHR ''0''"

definition calm :: "string \<Rightarrow> bool" where
  "calm s \<longleftrightarrow> s = [] \<or> letter (hd s)"

lemma operand_not: "operand c \<Longrightarrow> \<not> blank c \<and> c \<noteq> NL \<and> toupper c \<noteq> CHR '',''"
  using letter_not[of c] by (auto simp: operand_def)

lemma scan_tabs: "operand c \<Longrightarrow> scan (TAB # TAB # c # rest) = (2, always T_SPACE)"
  using operand_not[of c] scan_other[of TAB "span blank" "always T_SPACE" "TAB # c # rest"]
  by (simp add: other_rules_def pattern_defs)

lemma scan_tabs_endl: "calm rest \<Longrightarrow> scan (TAB # TAB # NL # rest) = (2, always T_SPACE)"
  using scan_other[of TAB "span blank" "always T_SPACE" "TAB # NL # rest"] letter_not[of "hd rest"]
  by (cases rest) (auto simp: other_rules_def pattern_defs calm_def span_def)

lemma scan_endl: "calm rest \<Longrightarrow> scan (NL # rest) = (1, always T_ENDL)"
  using scan_other[of NL p_endl "always T_ENDL" rest] letter_not[of "hd rest"]
  by (cases rest) (auto simp: other_rules_def pattern_defs calm_def span_def)

lemma scan_comma: "operand c \<Longrightarrow> scan (CHR '','' # TAB # c # rest) = (2, always COMMA)"
  using operand_not[of c] scan_other[of "CHR '',''" p_comma "always COMMA" "TAB # c # rest"]
  by (simp add: other_rules_def pattern_defs)

lemma scan_hex:
  assumes "length ds = 4" and "list_all is_hex ds" and "\<not> is_hex c"
  shows "scan (''0x'' @ ds @ c # rest) = (6, int_action hexToDec)"
proof -
  have "span is_hex (ds @ c # rest) = 4"
    using assms by (simp add: span_def takeWhile_append list_all_iff)
  then show ?thesis
    using scan_other[of "CHR ''0''" p_hex "int_action hexToDec" "CHR ''x'' # ds @ c # rest"]
    by (simp add: other_rules_def pattern_defs span_def)
qed

section \<open>Tokens of a text\<close>

lemma lex_Nil [simp]: "lex [] = []"
  by (simp add: lex.simps)

lemma lex_token:
  assumes "scan s = (n, a)" and "s \<noteq> []" and "a (take n s) = Token t"
  shows "lex s = Inr t # lex (drop n s)"
  using assms by (subst lex.simps) simp

lemma lex_word_ci:
  assumes "(ws, t) \<in> set word_classes" and "upper v \<in> set ws" and "stops (upper v) c"
  shows "lex (v @ c # rest) = Inr (t (upper v)) # lex (c # rest)"
proof -
  have "length (upper v) = length v" "v @ c # rest \<noteq> []" by (simp_all add: upper_def)
  then show ?thesis
    using lex_token[OF scan_word_ci[OF assms, of v rest]] by (simp add: name_action_def upper_def)
qed

lemma lex_word:
  assumes "(ws, t) \<in> set word_classes" and "w \<in> set ws" and "stops w c"
  shows "lex (w @ c # rest) = Inr (t w) # lex (c # rest)"
proof -
  have "w \<in> set lex_words" using assms(1,2) by (force simp: lex_words_def)
  then have "upper w = w" using word_shape(4) by (simp add: upper_def)
  then show ?thesis using lex_token[OF scan_word[OF assms]] by (simp add: name_action_def)
qed

lemma lex_tabs: "operand c \<Longrightarrow> lex (TAB # TAB # c # rest) = Inr T_SPACE # lex (c # rest)"
  using lex_token[OF scan_tabs] by (simp add: always_def)

lemma lex_tabs_endl: "calm rest \<Longrightarrow> lex (TAB # TAB # NL # rest) = Inr T_SPACE # lex (NL # rest)"
  using lex_token[OF scan_tabs_endl] by (simp add: always_def)

lemma lex_endl: "calm rest \<Longrightarrow> lex (NL # rest) = Inr T_ENDL # lex rest"
  using lex_token[OF scan_endl] by (simp add: always_def)

lemma lex_comma: "operand c \<Longrightarrow> lex (CHR '','' # TAB # c # rest) = Inr COMMA # lex (c # rest)"
  using lex_token[OF scan_comma] by (simp add: always_def)

lemma lex_hex:
  assumes "length ds = 4" and "list_all is_hex ds" and "\<not> is_hex c" and "hexToDec (''0x'' @ ds) = Inr v"
  shows "lex (''0x'' @ ds @ c # rest) = Inr (T_INT v) # lex (c # rest)"
  using lex_token[OF scan_hex[OF assms(1-3)]] assms(1,4) by (simp add: int_action_def number_def)

text \<open>What ends a word.\<close>

lemma stops_char:
  assumes "toupper c = c" and "c \<noteq> CHR '':''" and "\<not> letter c" and "\<not> is_digit c"
  shows "stops w c"
proof -
  have "take (Suc (length w)) p \<noteq> w @ [c]" if "p \<in> set lex_words" for p
  proof
    assume "take (Suc (length w)) p = w @ [c]"
    then have "c \<in> set p" by (metis in_set_conv_decomp in_set_takeD)
    then have "letter c \<or> is_digit c" using lex_words_shape that by (auto simp: list_all_iff)
    then show False using assms(3,4) by blast
  qed
  then show ?thesis using assms(1,2) by (auto simp: stops_def list_all_iff)
qed

lemma stops_sep: "c \<in> {TAB, NL, CHR '',''} \<Longrightarrow> stops w c"
  by (rule stops_char) (auto simp: toupper_def letter_def is_digit_def)

text \<open>A condition can follow every mnemonic: no word goes on behind a mnemonic like a condition.\<close>

lemma ops_stop:
  "list_all (\<lambda>(k, ws). list_all (\<lambda>w. stops w CHR ''I'' \<and> stops w CHR ''N'') ws) op_names"
  by code_simp

lemma cond_first: "list_all (\<lambda>w. hd w = CHR ''I'' \<or> hd w = CHR ''N'') CONDITION_names"
  by (simp add: CONDITION_names_def)

text \<open>
  The names of a register range are looked up as they are written, so in lower case, where a single
  register is read like in upper case, a range is the value of \<open>R0\<close> to \<open>R0\<close>.
\<close>

lemma range_case:
  "reg_range_to16bit_int ''R1:R3'' = 0x13" "p_range ''r1:r3'' = 5" "reg_range_to16bit_int ''r1:r3'' = 0"
  by code_simp+

end
