(* ===== verification/Parser.thy ===== *)
theory Parser
  imports Lexer
begin

text \<open>
  The grammar of the assembler, \<^verbatim>\<open>src/assembler/vasm.y\<close>, as the parser that follows it token by token.
  Every rule begins with a token of its own and goes on with at most one choice at each point, so the
  parser that bison makes reads the tokens in this order and reduces a statement, and runs its action,
  before it reads on. A token that no rule admits is a syntax error, which ends the program as any
  \<open>yyerror\<close> does; a token that the lexer rejects ends it with the lexer's status.
\<close>

type_synonym stream = "(stop + token) list"

section \<open>Reading tokens\<close>

fun next_token :: "stream \<Rightarrow> stop + (token option \<times> stream)" where
  "next_token [] = Inr (None, [])"
| "next_token (Inl e # ts) = Inl e"
| "next_token (Inr t # ts) = Inr (Some t, ts)"

definition syntax_error :: "stop + 'a" where
  "syntax_error = Inl (Exit (- 1))"

text \<open>A token that has to be one of the kind that \<open>f\<close> selects.\<close>

definition expect :: "(token \<Rightarrow> 'a option) \<Rightarrow> stream \<Rightarrow> stop + ('a \<times> stream)" where
  "expect f ts =
     ubind (next_token ts) (\<lambda>(t, ts).
     case t of
       None \<Rightarrow> syntax_error
     | Some t \<Rightarrow> (case f t of None \<Rightarrow> syntax_error | Some a \<Rightarrow> Inr (a, ts)))"

fun sel_space :: "token \<Rightarrow> unit option" where
  "sel_space T_SPACE = Some ()" | "sel_space _ = None"

fun sel_comma :: "token \<Rightarrow> unit option" where
  "sel_comma COMMA = Some ()" | "sel_comma _ = None"

fun sel_int :: "token \<Rightarrow> word16 option" where
  "sel_int (T_INT i) = Some i" | "sel_int _ = None"

fun sel_int32 :: "token \<Rightarrow> dword option" where
  "sel_int32 (T_INT32 i) = Some i" | "sel_int32 _ = None"

fun sel_ident :: "token \<Rightarrow> string option" where
  "sel_ident (IDENT s) = Some s" | "sel_ident _ = None"

fun sel_reg32 :: "token \<Rightarrow> string option" where
  "sel_reg32 (REG32 r) = Some r" | "sel_reg32 _ = None"

fun sel_creg :: "token \<Rightarrow> string option" where
  "sel_creg (CREG r) = Some r" | "sel_creg _ = None"

text \<open>The choices that the rules leave.\<close>

fun sel_reg :: "token \<Rightarrow> (reg_class \<times> string) option" where
  "sel_reg (REG32 r) = Some (Reg32, r)"
| "sel_reg (REG16 r) = Some (Reg16, r)"
| "sel_reg (REG8 r) = Some (Reg8, r)"
| "sel_reg _ = None"

definition sel_small_reg :: "token \<Rightarrow> (reg_class \<times> string) option" where
  "sel_small_reg t = (case sel_reg t of Some (k, r) \<Rightarrow> (if k = Reg32 then None else Some (k, r)) | None \<Rightarrow> None)"

definition sel_class :: "reg_class \<Rightarrow> token \<Rightarrow> string option" where
  "sel_class k t = (case sel_reg t of Some (k', r) \<Rightarrow> (if k' = k then Some r else None) | None \<Rightarrow> None)"

fun sel_reg32_int :: "token \<Rightarrow> (string + word16) option" where
  "sel_reg32_int (REG32 r) = Some (Inl r)"
| "sel_reg32_int (T_INT i) = Some (Inr i)"
| "sel_reg32_int _ = None"

fun sel_creg_reg32 :: "token \<Rightarrow> (string + string) option" where
  "sel_creg_reg32 (CREG r) = Some (Inl r)"
| "sel_creg_reg32 (REG32 r) = Some (Inr r)"
| "sel_creg_reg32 _ = None"

text \<open>A further operand, behind a comma.\<close>

definition comma :: "(token \<Rightarrow> 'a option) \<Rightarrow> stream \<Rightarrow> stop + ('a \<times> stream)" where
  "comma f ts = ubind (expect sel_comma ts) (\<lambda>(_, ts). expect f ts)"

text \<open>The condition behind a mnemonic, if there is one.\<close>

definition opt_condition :: "stream \<Rightarrow> stop + (string option \<times> stream)" where
  "opt_condition ts =
     ubind (next_token ts) (\<lambda>(t, rest).
     case t of Some (CONDITION c) \<Rightarrow> Inr (Some c, rest) | _ \<Rightarrow> Inr (None, ts))"

section \<open>Statements\<close>

text \<open>Two and three operands that the action \<open>f\<close> makes a statement of.\<close>

definition operands2 ::
  "(token \<Rightarrow> 'a option) \<Rightarrow> (token \<Rightarrow> 'b option) \<Rightarrow> ('a \<Rightarrow> 'b \<Rightarrow> exp) \<Rightarrow> stream \<Rightarrow> stop + (exp \<times> stream)" where
  "operands2 p q f ts =
     ubind (expect p ts) (\<lambda>(a, ts). ubind (comma q ts) (\<lambda>(b, ts). Inr (f a b, ts)))"

definition operands3 ::
  "(token \<Rightarrow> 'a option) \<Rightarrow> (token \<Rightarrow> 'b option) \<Rightarrow> (token \<Rightarrow> 'c option) \<Rightarrow> ('a \<Rightarrow> 'b \<Rightarrow> 'c \<Rightarrow> exp) \<Rightarrow>
   stream \<Rightarrow> stop + (exp \<times> stream)" where
  "operands3 p q r f ts =
     ubind (expect p ts) (\<lambda>(a, ts). ubind (comma q ts) (\<lambda>(b, ts). ubind (comma r ts) (\<lambda>(c, ts). Inr (f a b c, ts))))"

fun parse_operands :: "op_class \<Rightarrow> string \<Rightarrow> string option \<Rightarrow> stream \<Rightarrow> stop + (exp \<times> stream)" where
  "parse_operands OP_FMT_I op c ts = Inr (Fmt (Fmt_I op c), ts)"
| "parse_operands OP_FMT_II op c ts =
     operands3 sel_reg32 sel_reg32 sel_reg32_int (\<lambda>d a x.
       Fmt (case x of Inl b \<Rightarrow> Fmt_II op c d a b | Inr i \<Rightarrow> Fmt_II_imm op c d a i)) ts"
| "parse_operands OP_FMT_IV op c ts = operands2 sel_reg32 sel_int (\<lambda>d i. Fmt (Fmt_IV op c d i)) ts"
| "parse_operands OP_FMT_V op c ts =
     ubind (expect sel_reg32_int ts) (\<lambda>(x, ts).
     Inr (Fmt (case x of Inl d \<Rightarrow> Fmt_V op c d | Inr i \<Rightarrow> Fmt_V_imm op c i), ts))"
| "parse_operands OP_FMT_VI op c ts =
     operands2 sel_reg32 sel_reg32_int (\<lambda>a x.
       Fmt (case x of Inl b \<Rightarrow> Fmt_VI op c a b | Inr i \<Rightarrow> Fmt_VI_imm op c a i)) ts"
| "parse_operands OP_FMT_VIC op c ts =
     ubind (expect sel_creg_reg32 ts) (\<lambda>(x, ts).
     case x of
       Inl a \<Rightarrow> ubind (comma sel_reg32 ts) (\<lambda>(b, ts). Inr (Fmt (Fmt_VIC_creg_reg op c a b), ts))
     | Inr a \<Rightarrow> ubind (comma sel_creg ts) (\<lambda>(b, ts). Inr (Fmt (Fmt_VIC_reg_creg op c a b), ts)))"
| "parse_operands OP_FMT_VIII op c ts = ubind (expect sel_int ts) (\<lambda>(i, ts). Inr (Fmt (Fmt_VIII op c i), ts))"
| "parse_operands OP_S_CMPXCHG op c ts =
     operands3 sel_reg32 sel_reg32 sel_reg32 (\<lambda>d a b. Data (Cmpxchg c d a b)) ts"
| "parse_operands OP_S_LOADI op c ts =
     operands2 sel_small_reg sel_int (\<lambda>(k, d) i. Data (if k = Reg8 then Loadi8 c d i else Loadi16 c d i)) ts"
| "parse_operands OP_S_LOADID op c ts =
     operands3 sel_reg sel_reg32 sel_int (\<lambda>(k, d) a i. Data (Loadid k c d a i)) ts"
| "parse_operands OP_S_LOADRD op c ts =
     operands3 sel_reg sel_reg32 sel_reg32 (\<lambda>(k, d) a b. Data (Loadrd k c d a b)) ts"
| "parse_operands OP_S_MOV op c ts =
     ubind (expect sel_reg ts) (\<lambda>((k, a), ts).
     ubind (comma (sel_class k) ts) (\<lambda>(b, ts). Inr (Data (Mov k op c a b), ts)))"
| "parse_operands OP_S_SEX op c ts =
     operands2 sel_reg32 sel_small_reg (\<lambda>a (k, b). Data (if k = Reg8 then Sex8 c a b else Sex16 c a b)) ts"
| "parse_operands OP_S_STOREID op c ts =
     operands3 sel_reg32 sel_reg sel_int (\<lambda>d (k, a) i. Data (Storeid k c d a i)) ts"
| "parse_operands OP_S_STORERD op c ts =
     operands3 sel_reg32 sel_reg sel_reg32 (\<lambda>d (k, a) b. Data (Storerd k c d a b)) ts"
| "parse_operands OP_S_XCHGC op c ts = operands2 sel_reg32 sel_creg (\<lambda>a b. Data (Xchgc c a b)) ts"
| "parse_operands OP_S_STOREAS op c ts = ubind (expect sel_reg32 ts) (\<lambda>(d, ts). Inr (Data (Storeas d), ts))"
| "parse_operands OP_S_LOADAS op c ts = ubind (expect sel_reg32 ts) (\<lambda>(d, ts). Inr (Data (Loadas d), ts))"
| "parse_operands OP_PSEUDO_LOADADR op c ts = operands2 sel_reg32 sel_ident (\<lambda>r n. Pseudo (Loadadr c r n)) ts"
| "parse_operands OP_PSEUDO_LDCALL op c ts = operands2 sel_reg32 sel_ident (\<lambda>r n. Pseudo (Ldcall c r n)) ts"
| "parse_operands OP_PSEUDO_LDJMP op c ts = operands2 sel_reg32 sel_ident (\<lambda>r n. Pseudo (Ldjmp c r n)) ts"
| "parse_operands OP_PSEUDO_PUSH op c ts = ubind (expect sel_reg32 ts) (\<lambda>(r, ts). Inr (Pseudo (Push c r), ts))"
| "parse_operands OP_PSEUDO_POP op c ts = ubind (expect sel_reg32 ts) (\<lambda>(r, ts). Inr (Pseudo (Pop c r), ts))"
| "parse_operands OP_PSEUDO_LOAD32 op c ts = operands2 sel_reg32 sel_int32 (\<lambda>r v. Pseudo (Load32 c r v)) ts"

text \<open>An instruction: \<open>STOREAS\<close> and \<open>LOADAS\<close> admit no condition, \<open>OP_FMT_I\<close> has no operands.\<close>

definition parse_instruction :: "op_class \<Rightarrow> string \<Rightarrow> stream \<Rightarrow> stop + (exp \<times> stream)" where
  "parse_instruction k op ts =
     ubind (if k \<in> {OP_S_STOREAS, OP_S_LOADAS} then Inr (None, ts) else opt_condition ts) (\<lambda>(c, ts).
     if k = OP_FMT_I then parse_operands k op c ts
     else ubind (expect sel_space ts) (\<lambda>(_, ts). parse_operands k op c ts))"

text \<open>Every statement but \<open>.bytes\<close>.\<close>

definition parse_exp :: "stream \<Rightarrow> stop + (exp \<times> stream)" where
  "parse_exp ts =
     ubind (next_token ts) (\<lambda>(t, ts).
     case t of
       Some T_ENDL \<Rightarrow> Inr (ENDL, ts)
     | Some T_SPACE \<Rightarrow> Inr (SPACE, ts)
     | Some (OP k op) \<Rightarrow> parse_instruction k op ts
     | Some DIRECTIVE_ALIGN \<Rightarrow>
         ubind (expect sel_int ts) (\<lambda>(n, ts). ubind (expect sel_space ts) (\<lambda>(_, ts).
         ubind (expect sel_int ts) (\<lambda>(fill, ts). Inr (Directive (Align n fill), ts))))
     | Some DIRECTIVE_LABEL \<Rightarrow> ubind (expect sel_ident ts) (\<lambda>(n, ts). Inr (Directive (Label n), ts))
     | Some DIRECTIVE_OFFSET \<Rightarrow> ubind (expect sel_int32 ts) (\<lambda>(d, ts). Inr (Directive (Offset d), ts))
     | Some DIRECTIVE_BYTE \<Rightarrow> ubind (expect sel_int ts) (\<lambda>(i, ts). Inr (Directive (Byte i), ts))
     | Some DIRECTIVE_WORD \<Rightarrow> ubind (expect sel_int ts) (\<lambda>(i, ts). Inr (Directive (Word i), ts))
     | Some DIRECTIVE_DWORD \<Rightarrow> ubind (expect sel_int32 ts) (\<lambda>(d, ts). Inr (Directive (Dword d), ts))
     | Some DIRECTIVE_AT \<Rightarrow> ubind (expect sel_int32 ts) (\<lambda>(d, ts). Inr (Directive (At d), ts))
     | _ \<Rightarrow> syntax_error)"

text \<open>
  The list of \<open>.bytes\<close>, whose bytes are emitted one by one as they are read: at least one element,
  then \<open>.end\<close>.
\<close>

fun parse_bytes :: "bool \<Rightarrow> stream \<Rightarrow> emit_context \<Rightarrow> stop + (emit_context \<times> stream)" where
  "parse_bytes first [] ctx = syntax_error"
| "parse_bytes first (Inl e # ts) ctx = Inl e"
| "parse_bytes first (Inr t # ts) ctx =
     (case t of
        T_ENDL \<Rightarrow> parse_bytes False ts ctx
      | T_SPACE \<Rightarrow> parse_bytes False ts ctx
      | T_INT i \<Rightarrow> ubind (bytes_action [Byte_INT i] ctx) (parse_bytes False ts)
      | DIRECTIVE_END \<Rightarrow> (if first then syntax_error else Inr (ctx, ts))
      | _ \<Rightarrow> syntax_error)"

section \<open>Programs\<close>

lemma next_token_shorter: "next_token ts = Inr (Some t, ts') \<Longrightarrow> length ts' < length ts"
  by (cases ts rule: next_token.cases) auto

lemma expect_shorter: "expect f ts = Inr (a, ts') \<Longrightarrow> length ts' < length ts"
  by (cases ts rule: next_token.cases) (auto simp: expect_def syntax_error_def split: option.splits)

lemma comma_shorter: "comma f ts = Inr (a, ts') \<Longrightarrow> length ts' < length ts"
  by (auto simp: comma_def ubind_eq_Inr dest!: expect_shorter)

lemma operands_shorter:
  "operands2 p q f2 ts = Inr (e, ts') \<Longrightarrow> length ts' < length ts"
  "operands3 p q r f3 ts = Inr (e, ts') \<Longrightarrow> length ts' < length ts"
  by (auto simp: operands2_def operands3_def ubind_eq_Inr dest!: expect_shorter comma_shorter)

lemma parse_operands_shorter:
  assumes "parse_operands k op c ts = Inr (e, ts')"
  shows "length ts' \<le> length ts"
proof (cases k)
  case OP_FMT_V
  then show ?thesis using assms by (auto simp: ubind_eq_Inr dest!: expect_shorter)
next
  case OP_FMT_VIC
  then obtain x ts1 where x: "expect sel_creg_reg32 ts = Inr (x, ts1)"
    "(case x of
       Inl a \<Rightarrow> ubind (comma sel_reg32 ts1) (\<lambda>(b, ts). Inr (Fmt (Fmt_VIC_creg_reg op c a b), ts))
     | Inr a \<Rightarrow> ubind (comma sel_creg ts1) (\<lambda>(b, ts). Inr (Fmt (Fmt_VIC_reg_creg op c a b), ts))) = Inr (e, ts')"
    using assms by (auto simp: ubind_eq_Inr)
  then show ?thesis
    using expect_shorter[OF x(1)] by (cases x) (auto simp: ubind_eq_Inr dest!: comma_shorter)
qed (use assms in \<open>auto simp: ubind_eq_Inr dest!: expect_shorter comma_shorter operands_shorter\<close>)

lemma opt_condition_shorter: "opt_condition ts = Inr (c, ts') \<Longrightarrow> length ts' \<le> length ts"
  by (cases ts rule: next_token.cases) (auto simp: opt_condition_def split: token.splits)

lemma parse_instruction_shorter: "parse_instruction k op ts = Inr (e, ts') \<Longrightarrow> length ts' \<le> length ts"
  by (force simp: parse_instruction_def ubind_eq_Inr
      dest: expect_shorter opt_condition_shorter parse_operands_shorter split: if_split_asm)

lemma parse_exp_shorter: "parse_exp ts = Inr (e, ts') \<Longrightarrow> length ts' < length ts"
  by (cases ts rule: next_token.cases)
    (auto simp: parse_exp_def syntax_error_def ubind_eq_Inr split: token.split_asm
      dest!: expect_shorter parse_instruction_shorter)

lemma parse_bytes_shorter: "parse_bytes first ts ctx = Inr (ctx', ts') \<Longrightarrow> length ts' < length ts"
  by (induction first ts ctx rule: parse_bytes.induct)
    (auto simp: syntax_error_def ubind_eq_Inr split: token.split_asm if_split_asm intro: less_SucI)

text \<open>\<open>exps\<close>: statement after statement up to the end of the input, each one's action before the next is read.\<close>

function parse_exps :: "stream \<Rightarrow> emit_context \<Rightarrow> stop + emit_context" where
  "parse_exps ts ctx =
     (case ts of
        [] \<Rightarrow> Inr ctx
      | t # rest \<Rightarrow>
          if t = Inr DIRECTIVE_BYTES then ubind (parse_bytes True rest ctx) (\<lambda>(ctx, ts). parse_exps ts ctx)
          else ubind (parse_exp ts) (\<lambda>(e, ts). ubind (action e ctx) (parse_exps ts)))"
  by pat_completeness auto
termination
  by (relation "measure (\<lambda>(ts, ctx). length ts)") (auto dest!: parse_exp_shorter parse_bytes_shorter)

declare parse_exps.simps [simp del]

text \<open>There has to be a first statement.\<close>

definition yyparse :: "stream \<Rightarrow> emit_context \<Rightarrow> stop + emit_context" where
  "yyparse ts ctx = (if ts = [] then yyerror ctx else parse_exps ts ctx)"

text \<open>\<open>main\<close> on the text of its input file.\<close>

definition vasm :: "(nat \<Rightarrow> bool) \<Rightarrow> int option \<Rightarrow> string \<Rightarrow> stop + byte option list" where
  "vasm heap fixed yyin =
     (let (buffer_size, fixed_size) =
        (case fixed of None \<Rightarrow> (of_nat DYNAMIC_BUFFER_SIZE, 0) | Some n \<Rightarrow> (of_int n, 1)) in
      case emit_create_context heap buffer_size fixed_size of
        None \<Rightarrow> Inl Null_deref
      | Some ctx \<Rightarrow>
          ubind (yyparse (lex yyin) (ctx\<lparr>eoffset := 4096\<rparr>)) (\<lambda>ctx.
          ubind (label_resolution ctx) write_file))"

end
