(* ===== verification/Grammar.thy ===== *)
theory Grammar
  imports Parser
begin

text \<open>
  The grammar of \<^verbatim>\<open>src/assembler/vasm.y\<close> as a relation between statements and the tokens that derive
  them, one rule for each alternative, and the proof that the parser accepts exactly what the
  grammar derives.
\<close>

section \<open>The rules\<close>

definition cond_tokens :: "string option \<Rightarrow> token list" where
  "cond_tokens c = (case c of None \<Rightarrow> [] | Some c \<Rightarrow> [CONDITION c])"

lemma cond_tokens_simps [simp]: "cond_tokens None = []" "cond_tokens (Some c) = [CONDITION c]"
  by (simp_all add: cond_tokens_def)

fun reg_token :: "reg_class \<Rightarrow> string \<Rightarrow> token" where
  "reg_token Reg32 r = REG32 r"
| "reg_token Reg16 r = REG16 r"
| "reg_token Reg8 r = REG8 r"

fun byte_token :: "byte_exp \<Rightarrow> token" where
  "byte_token Byte_ENDL = T_ENDL"
| "byte_token Byte_SPACE = T_SPACE"
| "byte_token (Byte_INT i) = T_INT i"

text \<open>The alternatives of \<open>exp\<close>; the two forms of a rule, with and without a condition, are one rule here.\<close>

inductive exp_rule :: "exp \<Rightarrow> token list \<Rightarrow> bool" where
  rule_endl: "exp_rule ENDL [T_ENDL]"
| rule_space: "exp_rule SPACE [T_SPACE]"
| rule_fmt_i: "exp_rule (Fmt (Fmt_I op c)) (OP OP_FMT_I op # cond_tokens c)"
| rule_fmt_ii: "exp_rule (Fmt (Fmt_II op c d a b)) (OP OP_FMT_II op # cond_tokens c @ [T_SPACE, REG32 d, COMMA, REG32 a, COMMA, REG32 b])"
| rule_fmt_ii_imm: "exp_rule (Fmt (Fmt_II_imm op c d a i)) (OP OP_FMT_II op # cond_tokens c @ [T_SPACE, REG32 d, COMMA, REG32 a, COMMA, T_INT i])"
| rule_fmt_iv: "exp_rule (Fmt (Fmt_IV op c d i)) (OP OP_FMT_IV op # cond_tokens c @ [T_SPACE, REG32 d, COMMA, T_INT i])"
| rule_fmt_v: "exp_rule (Fmt (Fmt_V op c d)) (OP OP_FMT_V op # cond_tokens c @ [T_SPACE, REG32 d])"
| rule_fmt_vi: "exp_rule (Fmt (Fmt_VI op c a b)) (OP OP_FMT_VI op # cond_tokens c @ [T_SPACE, REG32 a, COMMA, REG32 b])"
| rule_fmt_vic_creg_reg: "exp_rule (Fmt (Fmt_VIC_creg_reg op c a b)) (OP OP_FMT_VIC op # cond_tokens c @ [T_SPACE, CREG a, COMMA, REG32 b])"
| rule_fmt_vic_reg_creg: "exp_rule (Fmt (Fmt_VIC_reg_creg op c a b)) (OP OP_FMT_VIC op # cond_tokens c @ [T_SPACE, REG32 a, COMMA, CREG b])"
| rule_fmt_vi_imm: "exp_rule (Fmt (Fmt_VI_imm op c a i)) (OP OP_FMT_VI op # cond_tokens c @ [T_SPACE, REG32 a, COMMA, T_INT i])"
| rule_fmt_v_imm: "exp_rule (Fmt (Fmt_V_imm op c i)) (OP OP_FMT_V op # cond_tokens c @ [T_SPACE, T_INT i])"
| rule_fmt_viii: "exp_rule (Fmt (Fmt_VIII op c i)) (OP OP_FMT_VIII op # cond_tokens c @ [T_SPACE, T_INT i])"
| rule_cmpxchg: "exp_rule (Data (Cmpxchg c d a b)) (OP OP_S_CMPXCHG op # cond_tokens c @ [T_SPACE, REG32 d, COMMA, REG32 a, COMMA, REG32 b])"
| rule_loadi8: "exp_rule (Data (Loadi8 c d i)) (OP OP_S_LOADI op # cond_tokens c @ [T_SPACE, REG8 d, COMMA, T_INT i])"
| rule_loadi16: "exp_rule (Data (Loadi16 c d i)) (OP OP_S_LOADI op # cond_tokens c @ [T_SPACE, REG16 d, COMMA, T_INT i])"
| rule_loadid: "exp_rule (Data (Loadid k c d a i)) (OP OP_S_LOADID op # cond_tokens c @ [T_SPACE, reg_token k d, COMMA, REG32 a, COMMA, T_INT i])"
| rule_loadrd: "exp_rule (Data (Loadrd k c d a b)) (OP OP_S_LOADRD op # cond_tokens c @ [T_SPACE, reg_token k d, COMMA, REG32 a, COMMA, REG32 b])"
| rule_mov: "exp_rule (Data (Mov k op c a b)) (OP OP_S_MOV op # cond_tokens c @ [T_SPACE, reg_token k a, COMMA, reg_token k b])"
| rule_sex8: "exp_rule (Data (Sex8 c a b)) (OP OP_S_SEX op # cond_tokens c @ [T_SPACE, REG32 a, COMMA, REG8 b])"
| rule_sex16: "exp_rule (Data (Sex16 c a b)) (OP OP_S_SEX op # cond_tokens c @ [T_SPACE, REG32 a, COMMA, REG16 b])"
| rule_storeid: "exp_rule (Data (Storeid k c d a i)) (OP OP_S_STOREID op # cond_tokens c @ [T_SPACE, REG32 d, COMMA, reg_token k a, COMMA, T_INT i])"
| rule_storerd: "exp_rule (Data (Storerd k c d a b)) (OP OP_S_STORERD op # cond_tokens c @ [T_SPACE, REG32 d, COMMA, reg_token k a, COMMA, REG32 b])"
| rule_xchgc: "exp_rule (Data (Xchgc c a b)) (OP OP_S_XCHGC op # cond_tokens c @ [T_SPACE, REG32 a, COMMA, CREG b])"
| rule_storeas: "exp_rule (Data (Storeas d)) (OP OP_S_STOREAS op # [T_SPACE, REG32 d])"
| rule_loadas: "exp_rule (Data (Loadas d)) (OP OP_S_LOADAS op # [T_SPACE, REG32 d])"
| rule_loadadr: "exp_rule (Pseudo (Loadadr c r n)) (OP OP_PSEUDO_LOADADR op # cond_tokens c @ [T_SPACE, REG32 r, COMMA, IDENT n])"
| rule_ldcall: "exp_rule (Pseudo (Ldcall c r n)) (OP OP_PSEUDO_LDCALL op # cond_tokens c @ [T_SPACE, REG32 r, COMMA, IDENT n])"
| rule_ldjmp: "exp_rule (Pseudo (Ldjmp c r n)) (OP OP_PSEUDO_LDJMP op # cond_tokens c @ [T_SPACE, REG32 r, COMMA, IDENT n])"
| rule_push: "exp_rule (Pseudo (Push c r)) (OP OP_PSEUDO_PUSH op # cond_tokens c @ [T_SPACE, REG32 r])"
| rule_pop: "exp_rule (Pseudo (Pop c r)) (OP OP_PSEUDO_POP op # cond_tokens c @ [T_SPACE, REG32 r])"
| rule_load32: "exp_rule (Pseudo (Load32 c r v)) (OP OP_PSEUDO_LOAD32 op # cond_tokens c @ [T_SPACE, REG32 r, COMMA, T_INT32 v])"
| rule_align: "exp_rule (Directive (Align n fill)) [DIRECTIVE_ALIGN, T_INT n, T_SPACE, T_INT fill]"
| rule_label: "exp_rule (Directive (Label n)) [DIRECTIVE_LABEL, IDENT n]"
| rule_offset: "exp_rule (Directive (Offset d)) [DIRECTIVE_OFFSET, T_INT32 d]"
| rule_byte: "exp_rule (Directive (Byte i)) [DIRECTIVE_BYTE, T_INT i]"
| rule_word: "exp_rule (Directive (Word i)) [DIRECTIVE_WORD, T_INT i]"
| rule_dword: "exp_rule (Directive (Dword d)) [DIRECTIVE_DWORD, T_INT32 d]"
| rule_at: "exp_rule (Directive (At d)) [DIRECTIVE_AT, T_INT32 d]"
| rule_bytes: "bs \<noteq> [] \<Longrightarrow> exp_rule (Directive (Bytes bs)) (DIRECTIVE_BYTES # map byte_token bs @ [DIRECTIVE_END])"

text \<open>A program, \<open>exps\<close>, is left recursive.\<close>

inductive exps_rule :: "exp list \<Rightarrow> token list \<Rightarrow> bool" where
  exps_one: "exp_rule e us \<Longrightarrow> exps_rule [e] us"
| exps_snoc: "exps_rule es us \<Longrightarrow> exp_rule e vs \<Longrightarrow> exps_rule (es @ [e]) (us @ vs)"

section \<open>Reading the tokens of a rule\<close>

lemma expect_token [simp]: "expect f (Inr t # ts) = (case f t of None \<Rightarrow> syntax_error | Some a \<Rightarrow> Inr (a, ts))"
  by (simp add: expect_def)

lemma opt_condition_tokens:
  "opt_condition (map Inr (cond_tokens c) @ Inr T_SPACE # ts) = Inr (c, Inr T_SPACE # ts)"
  by (cases c) (simp_all add: opt_condition_def cond_tokens_def)

lemma reg_tokens [simp]:
  "sel_reg (reg_token k r) = Some (k, r)" "sel_class k (reg_token k r) = Some r"
  by (cases k; simp add: sel_class_def)+

text \<open>What follows a statement is no condition: it is the end or the first token of another statement.\<close>

fun no_cond :: "stream \<Rightarrow> bool" where
  "no_cond (Inr (CONDITION c) # ts) \<longleftrightarrow> False"
| "no_cond ts \<longleftrightarrow> True"

lemma opt_condition_end:
  "no_cond (Inr u # ts) \<Longrightarrow> opt_condition (map Inr (cond_tokens c) @ Inr u # ts) = Inr (c, Inr u # ts)"
  "opt_condition (map Inr (cond_tokens c)) = Inr (c, [])"
  by (cases c; cases u; simp add: opt_condition_def cond_tokens_def)+

lemma exp_rule_first: "exp_rule e us \<Longrightarrow> no_cond (map Inr us @ ts) \<and> us \<noteq> []"
  by (induction rule: exp_rule.induct) auto

lemma parse_exp_complete:
  assumes "exp_rule e us" and "no_cond (map Inr ts)" and "hd us \<noteq> DIRECTIVE_BYTES"
  shows "parse_exp (map Inr us @ map Inr ts) = Inr (e, map Inr ts)"
  using assms
proof (cases rule: exp_rule.cases)
  case (rule_fmt_i op c)
  then show ?thesis using assms(2)
    by (cases ts) (simp_all add: parse_exp_def parse_instruction_def opt_condition_end)
qed (auto simp: parse_exp_def parse_instruction_def opt_condition_tokens operands2_def operands3_def comma_def
    sel_small_reg_def)

section \<open>What the parser has read\<close>

lemma next_token_Inr: "next_token ts = Inr (Some t, ts') \<longleftrightarrow> ts = Inr t # ts'"
  by (cases ts rule: next_token.cases) auto

lemma expect_Inr: "expect f ts = Inr (a, ts') \<longleftrightarrow> (\<exists>t. ts = Inr t # ts' \<and> f t = Some a)"
  by (cases ts rule: next_token.cases) (auto simp: expect_def syntax_error_def split: option.splits)

lemma sel_eqs:
  "sel_space t = Some u \<longleftrightarrow> t = T_SPACE" "sel_comma t = Some u \<longleftrightarrow> t = COMMA" "sel_int t = Some i \<longleftrightarrow> t = T_INT i"
  "sel_int32 t = Some d \<longleftrightarrow> t = T_INT32 d" "sel_ident t = Some n \<longleftrightarrow> t = IDENT n" "sel_reg32 t = Some r \<longleftrightarrow> t = REG32 r"
  "sel_creg t = Some r \<longleftrightarrow> t = CREG r" "sel_reg t = Some (k, r) \<longleftrightarrow> t = reg_token k r"
  "sel_class k t = Some r \<longleftrightarrow> t = reg_token k r"
  "sel_small_reg t = Some (k, r) \<longleftrightarrow> k \<noteq> Reg32 \<and> t = reg_token k r"
  "sel_reg32_int t = Some x \<longleftrightarrow> (case x of Inl r \<Rightarrow> t = REG32 r | Inr i \<Rightarrow> t = T_INT i)"
  "sel_creg_reg32 t = Some y \<longleftrightarrow> (case y of Inl r \<Rightarrow> t = CREG r | Inr r \<Rightarrow> t = REG32 r)"
  by (cases t; cases k; auto simp: sel_class_def sel_small_reg_def split: sum.split)+

lemma operands_Inr:
  "comma f ts = Inr (a, ts') \<longleftrightarrow> (\<exists>t. ts = Inr COMMA # Inr t # ts' \<and> f t = Some a)"
  "operands2 p q f2 ts = Inr (e, ts') \<longleftrightarrow>
     (\<exists>t u a b. ts = Inr t # Inr COMMA # Inr u # ts' \<and> p t = Some a \<and> q u = Some b \<and> e = f2 a b)"
  "operands3 p q r f3 ts = Inr (e, ts') \<longleftrightarrow>
     (\<exists>t u v a b c. ts = Inr t # Inr COMMA # Inr u # Inr COMMA # Inr v # ts' \<and>
        p t = Some a \<and> q u = Some b \<and> r v = Some c \<and> e = f3 a b c)"
  by (auto simp: comma_def operands2_def operands3_def expect_Inr sel_eqs)

lemma opt_condition_Inr: "opt_condition ts = Inr (c, ts') \<Longrightarrow> ts = map Inr (cond_tokens c) @ ts'"
  by (cases ts rule: next_token.cases) (auto simp: opt_condition_def cond_tokens_def split: token.splits)

text \<open>The tokens in front of a rest.\<close>

definition used :: "stream \<Rightarrow> stream \<Rightarrow> token list" where
  "used ts rest = map projr (take (length ts - length rest) ts)"

lemma used_simps [simp]:
  "used rest rest = []" "length rest \<le> length ts \<Longrightarrow> used (Inr t # ts) rest = t # used ts rest"
  by (simp_all add: used_def Suc_diff_le)

lemma used_append [simp]: "used (map Inr us @ ts) ts = us"
  by (induction us) auto

lemma ex_reg_class: "(\<exists>k. P k) \<longleftrightarrow> P Reg32 \<or> P Reg16 \<or> P Reg8"
  by (metis reg_class.exhaust)

lemmas sized_rules = rule_loadid rule_loadrd rule_mov rule_storeid rule_storerd

lemmas class_rules = sized_rules[where k = Reg32, simplified] sized_rules[where k = Reg16, simplified]
  sized_rules[where k = Reg8, simplified]

lemma parse_operands_Inr:
  assumes "parse_operands k op c ts = Inr (e, rest)" and "k \<in> {OP_S_STOREAS, OP_S_LOADAS} \<Longrightarrow> c = None"
  shows "ts = map Inr (used ts rest) @ rest \<and>
    exp_rule e (OP k op # cond_tokens c @ (if k = OP_FMT_I then [] else [T_SPACE]) @ used ts rest)"
  using assms
  by (cases k) (auto simp: expect_Inr operands_Inr sel_eqs split_sum_ex split_paired_Ex ex_reg_class
      intro: exp_rule.intros class_rules)

lemma parse_instruction_Inr:
  assumes "parse_instruction k op ts = Inr (e, rest)"
  shows "\<exists>us. ts = map Inr us @ rest \<and> exp_rule e (OP k op # us)"
proof -
  let ?none = "k \<in> {OP_S_STOREAS, OP_S_LOADAS}"
  obtain c ts1 where c: "(if ?none then Inr (None, ts) else opt_condition ts) = Inr (c, ts1)"
    "(if k = OP_FMT_I then parse_operands k op c ts1
      else ubind (expect sel_space ts1) (\<lambda>(_, ts). parse_operands k op c ts)) = Inr (e, rest)"
    using assms by (auto simp: parse_instruction_def)
  then have ts: "ts = map Inr (cond_tokens c) @ ts1" and none: "?none \<Longrightarrow> c = None"
    by (auto dest: opt_condition_Inr split: if_splits)
  let ?sp = "if k = OP_FMT_I then [] else [T_SPACE]"
  obtain ts2 where ts1: "ts1 = map Inr ?sp @ ts2" "parse_operands k op c ts2 = Inr (e, rest)"
    using c(2) by (auto simp: expect_Inr sel_eqs split: if_splits)
  from parse_operands_Inr[OF ts1(2) none] have "ts = map Inr (cond_tokens c @ ?sp @ used ts2 rest) @ rest \<and>
    exp_rule e (OP k op # cond_tokens c @ ?sp @ used ts2 rest)" using ts ts1(1) by simp
  then show ?thesis by blast
qed

lemma parse_exp_Inr:
  assumes "parse_exp ts = Inr (e, rest)"
  shows "ts = map Inr (used ts rest) @ rest \<and> exp_rule e (used ts rest) \<and> hd (used ts rest) \<noteq> DIRECTIVE_BYTES"
proof -
  from assms obtain t ts1 where t: "next_token ts = Inr (Some t, ts1)"
    by (auto simp: parse_exp_def syntax_error_def split: option.splits)
  show ?thesis
  proof (cases t)
    case (OP k op)
    then have "parse_instruction k op ts1 = Inr (e, rest)" using assms t by (simp add: parse_exp_def)
    then obtain us where "ts1 = map Inr us @ rest" "exp_rule e (OP k op # us)" using parse_instruction_Inr by blast
    then show ?thesis using t OP by (simp add: next_token_Inr)
  qed (use assms t in \<open>auto simp: parse_exp_def next_token_Inr expect_Inr sel_eqs syntax_error_def intro: exp_rule.intros\<close>)
qed

section \<open>Lists of bytes\<close>

lemma bytes_action_Cons: "bytes_action (b # bs) ctx = ubind (bytes_action [b] ctx) (bytes_action bs)"
  by (cases b) (simp_all add: ubind_assoc yyerror_def)

lemma parse_bytes_complete:
  "(first \<longrightarrow> bs \<noteq> []) \<Longrightarrow> parse_bytes first (map Inr (map byte_token bs) @ Inr DIRECTIVE_END # rest) ctx =
     ubind (bytes_action bs ctx) (\<lambda>ctx. Inr (ctx, rest))"
proof (induction bs arbitrary: first ctx)
  case (Cons b bs)
  show ?case
  proof (cases b)
    case (Byte_INT i)
    have "ubind (bytes_action [b] ctx) (parse_bytes False (map Inr (map byte_token bs) @ Inr DIRECTIVE_END # rest)) =
      ubind (bytes_action [b] ctx) (\<lambda>ctx. ubind (bytes_action bs ctx) (\<lambda>ctx. Inr (ctx, rest)))"
      by (rule ubind_cong[OF refl]) (rule Cons.IH, simp)
    then show ?thesis
      unfolding bytes_action_Cons[of b bs ctx] ubind_assoc by (simp only: Byte_INT byte_token.simps list.map append_Cons
          parse_bytes.simps token.case)
  qed (use Cons.IH[of False] in simp_all)
qed simp

lemma parse_bytes_Inr:
  "parse_bytes first ts ctx = Inr (ctx', rest) \<Longrightarrow>
     \<exists>bs. ts = map Inr (map byte_token bs) @ Inr DIRECTIVE_END # rest \<and> (first \<longrightarrow> bs \<noteq> [])"
proof (induction first ts ctx rule: parse_bytes.induct)
  case (3 first t ts ctx)
  have more: "\<exists>bs. Inr t # ts = map Inr (map byte_token bs) @ Inr DIRECTIVE_END # rest \<and> (first \<longrightarrow> bs \<noteq> [])"
    if "ts = map Inr (map byte_token bs) @ Inr DIRECTIVE_END # rest" "byte_token b = t" for b bs
    using that by (intro exI[of _ "b # bs"]) simp
  show ?case
  proof (cases t)
    case T_ENDL
    then show ?thesis using 3 more[of _ Byte_ENDL] by auto
  next
    case T_SPACE
    then show ?thesis using 3 more[of _ Byte_SPACE] by auto
  next
    case (T_INT i)
    then obtain ctx1 where "bytes_action [Byte_INT i] ctx = Inr ctx1" "parse_bytes False ts ctx1 = Inr (ctx', rest)"
      using 3(4) by (auto split: if_splits)
    then show ?thesis using 3(1)[OF T_INT] more[of _ "Byte_INT i"] T_INT by auto
  next
    case DIRECTIVE_END
    then show ?thesis using 3(4) by (intro exI[of _ "[]"]) (auto simp: syntax_error_def split: if_splits)
  qed (use 3(4) in \<open>auto simp: syntax_error_def\<close>)
qed (auto simp: syntax_error_def)

section \<open>Programs\<close>

lemma exps_rule_list: "exps_rule es us \<longleftrightarrow> es \<noteq> [] \<and> (\<exists>uss. us = concat uss \<and> list_all2 exp_rule es uss)"
proof
  show "exps_rule es us \<Longrightarrow> es \<noteq> [] \<and> (\<exists>uss. us = concat uss \<and> list_all2 exp_rule es uss)"
  proof (induction rule: exps_rule.induct)
    case (exps_one e us)
    then show ?case by (auto intro!: exI[of _ "[us]"])
  next
    case (exps_snoc es us e vs)
    then obtain uss where "us = concat uss" "list_all2 exp_rule es uss" by blast
    then show ?case using exps_snoc(2) by (auto intro!: exI[of _ "uss @ [vs]"] list_all2_appendI)
  qed
  have "exps_rule es (concat uss)" if "list_all2 exp_rule es uss" "es \<noteq> []" for uss
    using that
  proof (induction es arbitrary: uss rule: rev_induct)
    case (snoc e es)
    then obtain uss' vs where u: "uss = uss' @ [vs]" "list_all2 exp_rule es uss'" "exp_rule e vs"
      by (auto simp: list_all2_append1 list_all2_Cons1)
    then show ?case using snoc.IH[of uss'] by (cases "es = []") (auto intro: exps_one exps_snoc)
  qed simp
  then show "es \<noteq> [] \<and> (\<exists>uss. us = concat uss \<and> list_all2 exp_rule es uss) \<Longrightarrow> exps_rule es us" by blast
qed

lemma no_cond_concat: "list_all2 exp_rule es uss \<Longrightarrow> no_cond (map Inr (concat uss))"
  by (cases es; cases uss) (auto dest!: exp_rule_first)

lemma parse_exps_complete:
  "list_all2 exp_rule es uss \<Longrightarrow> parse_exps (map Inr (concat uss)) ctx = emit_seq action es ctx"
proof (induction es arbitrary: uss ctx)
  case Nil
  then show ?case by (simp add: parse_exps.simps)
next
  case (Cons e es)
  then obtain us vss where u: "uss = us # vss" "exp_rule e us" "list_all2 exp_rule es vss"
    by (auto simp: list_all2_Cons1)
  obtain v vs where v: "us = v # vs" using exp_rule_first[OF u(2)] by (cases us) auto
  let ?rest = "map Inr (concat vss)"
  have IH: "parse_exps ?rest = emit_seq action es" using Cons.IH[OF u(3)] by (rule ext)
  show ?case
  proof (cases "v = DIRECTIVE_BYTES")
    case True
    from u(2) obtain bs where bs: "e = Directive (Bytes bs)" "bs \<noteq> []" "vs = map byte_token bs @ [DIRECTIVE_END]"
      by cases (use v True in \<open>auto simp: cond_tokens_def\<close>)
    have "parse_bytes True (map Inr vs @ ?rest) ctx = ubind (bytes_action bs ctx) (\<lambda>ctx. Inr (ctx, ?rest))"
      using parse_bytes_complete[of True bs ?rest ctx] bs(2,3) by simp
    then show ?thesis using u(1) v True bs(1) IH
      by (subst parse_exps.simps) (simp add: ubind_assoc)
  next
    case False
    have "parse_exp (Inr v # map Inr vs @ ?rest) = Inr (e, ?rest)"
      using parse_exp_complete[OF u(2) no_cond_concat[OF u(3)]] v False by simp
    then show ?thesis using u(1) v False IH by (subst parse_exps.simps) simp
  qed
qed

lemma parse_exps_Inr:
  "parse_exps ts ctx = Inr ctx' \<Longrightarrow> \<exists>es uss. list_all2 exp_rule es uss \<and> ts = map Inr (concat uss)"
proof (induction ts ctx rule: parse_exps.induct)
  case (1 ts ctx)
  have more: "\<exists>es uss. list_all2 exp_rule es uss \<and> ts = map Inr (concat uss)"
    if "exp_rule e us" "ts = map Inr us @ rest" "\<exists>es uss. list_all2 exp_rule es uss \<and> rest = map Inr (concat uss)" for e us rest
  proof -
    note t = that(1,2)
    from that(3) obtain es uss where "list_all2 exp_rule es uss" "rest = map Inr (concat uss)" by blast
    then show ?thesis using t by (intro exI[of _ "e # es"] exI[of _ "us # uss"]) simp
  qed
  show ?case
  proof (cases ts)
    case Nil
    then show ?thesis by (intro exI[of _ "[]"]) simp
  next
    case (Cons t rest)
    show ?thesis
    proof (cases "t = Inr DIRECTIVE_BYTES")
      case True
      then obtain ctx1 ts1 where b: "parse_bytes True rest ctx = Inr (ctx1, ts1)" "parse_exps ts1 ctx1 = Inr ctx'"
        using 1(3) Cons by (subst (asm) parse_exps.simps) auto
      from parse_bytes_Inr[OF b(1)] obtain bs where bs: "rest = map Inr (map byte_token bs) @ Inr DIRECTIVE_END # ts1" "bs \<noteq> []"
        by blast
      have "ts = map Inr (DIRECTIVE_BYTES # map byte_token bs @ [DIRECTIVE_END]) @ ts1" using Cons True bs(1) by simp
      with rule_bytes[OF bs(2)] show ?thesis by (rule more) (rule 1(1)[OF Cons True b(1) refl b(2)])
    next
      case False
      then obtain e ts1 ctx1 where s: "parse_exp ts = Inr (e, ts1)" "action e ctx = Inr ctx1" "parse_exps ts1 ctx1 = Inr ctx'"
        using 1(3) Cons by (subst (asm) parse_exps.simps) auto
      from parse_exp_Inr[OF s(1)] have "exp_rule e (used ts ts1)" "ts = map Inr (used ts ts1) @ ts1" by blast+
      then show ?thesis by (rule more) (rule 1(2)[OF Cons False s(1) refl s(2,3)])
    qed
  qed
qed

section \<open>Unambiguity\<close>

lemma byte_token_end [simp]: "byte_token b \<noteq> DIRECTIVE_END" "DIRECTIVE_END \<noteq> byte_token b"
  by (cases b; simp)+

lemma byte_tokens_unique:
  "map byte_token bs @ DIRECTIVE_END # vs = map byte_token bs' @ DIRECTIVE_END # vs' \<Longrightarrow> bs = bs' \<and> vs = vs'"
proof (induction bs arbitrary: bs')
  case Nil
  then show ?case by (cases bs') auto
next
  case (Cons b bs)
  then show ?case by (cases bs'; cases b; cases "hd bs'") auto
qed

lemma exp_rule_unique:
  assumes "exp_rule e us" and "exp_rule e' us'" and "us @ vs = us' @ vs'" and "no_cond (map Inr vs)" and "no_cond (map Inr vs')"
  shows "e = e' \<and> vs = vs'"
proof -
  have hd: "hd us = hd us'" using assms(1-3) exp_rule_first by (metis hd_append2)
  show ?thesis
  proof (cases "hd us = DIRECTIVE_BYTES")
    case True
    from assms(1) True obtain bs where "e = Directive (Bytes bs)" "us = DIRECTIVE_BYTES # map byte_token bs @ [DIRECTIVE_END]"
      by cases auto
    moreover from assms(2) True hd obtain bs' where "e' = Directive (Bytes bs')"
      "us' = DIRECTIVE_BYTES # map byte_token bs' @ [DIRECTIVE_END]" by cases auto
    ultimately show ?thesis using assms(3) byte_tokens_unique[of bs vs bs' vs'] by simp
  next
    case False
    then have "parse_exp (map Inr (us @ vs)) = Inr (e, map Inr vs)" "parse_exp (map Inr (us' @ vs')) = Inr (e', map Inr vs')"
      using parse_exp_complete[OF assms(1,4)] parse_exp_complete[OF assms(2,5)] hd by simp_all
    then show ?thesis using assms(3) by (simp add: inj_map_eq_map)
  qed
qed

lemma derivation_unique:
  "list_all2 exp_rule es uss \<Longrightarrow> list_all2 exp_rule es' vss \<Longrightarrow> concat uss = concat vss \<Longrightarrow> es = es'"
proof (induction es uss arbitrary: es' vss rule: list_all2_induct)
  case Nil
  then show ?case by (cases es'; cases vss) (auto dest: exp_rule_first)
next
  case (Cons e es us uss)
  obtain e' es1 vs vss1 where r: "es' = e' # es1" "vss = vs # vss1" "exp_rule e' vs" "list_all2 exp_rule es1 vss1"
    using Cons.prems Cons.hyps(1) exp_rule_first[of e us] by (cases es'; cases vss) auto
  from exp_rule_unique[OF Cons.hyps(1) r(3)] have "e = e' \<and> concat uss = concat vss1"
    using Cons.prems(2) r(2) no_cond_concat[OF Cons.hyps(2)] no_cond_concat[OF r(4)] by auto
  then show ?case using Cons.IH[OF r(4)] r(1) by simp
qed

lemma exps_rule_unique: "exps_rule es us \<Longrightarrow> exps_rule es' us \<Longrightarrow> es = es'"
  using derivation_unique by (auto simp: exps_rule_list)

section \<open>The assembler on a text\<close>

lemma exps_rule_tokens: "exps_rule es us \<Longrightarrow> us \<noteq> []"
  by (induction rule: exps_rule.induct) (auto dest: exp_rule_first)

lemma yyparse_derives: "exps_rule es us \<Longrightarrow> yyparse (map Inr us) = emit_seq action es"
  using parse_exps_complete exps_rule_tokens[of es us] by (auto simp: exps_rule_list yyparse_def fun_eq_iff)

lemma vasm_derives: "lex yyin = map Inr us \<Longrightarrow> exps_rule es us \<Longrightarrow> vasm heap fixed yyin = vasm_main heap fixed es"
proof -
  assume "lex yyin = map Inr us" and "exps_rule es us"
  then have run: "yyparse (lex yyin) = emit_seq action es" by (simp add: yyparse_derives)
  show "vasm heap fixed yyin = vasm_main heap fixed es"
    unfolding vasm_def vasm_main_def run by (rule refl)
qed

lemma yyparse_Inr: "yyparse ts ctx = Inr ctx' \<Longrightarrow> \<exists>us es. ts = map Inr us \<and> exps_rule es us"
proof -
  assume run: "yyparse ts ctx = Inr ctx'"
  then have "ts \<noteq> []" "parse_exps ts ctx = Inr ctx'" by (auto simp: yyparse_def yyerror_def split: if_splits)
  from parse_exps_Inr[OF this(2)] obtain es uss where d: "list_all2 exp_rule es uss" "ts = map Inr (concat uss)" by blast
  moreover have "es \<noteq> []" using d \<open>ts \<noteq> []\<close> by auto
  ultimately show ?thesis using exps_rule_list by blast
qed

lemma vasm_Inr:
  assumes "vasm heap fixed yyin = Inr out"
  shows "\<exists>us es. lex yyin = map Inr us \<and> exps_rule es us"
  using assms yyparse_Inr by (auto simp: vasm_def Let_def split: option.splits prod.splits)

section \<open>Properties\<close>

text \<open>
  C11. The parser is the grammar: it runs through, with a given result, exactly when the lexer has
  rejected nothing, the tokens derive from the rules of the grammar, and the actions of the derived
  statements, one after the other, have that result. The grammar is unambiguous, so there is one such
  list of statements.
\<close>

theorem parser_correct:
  "(yyparse ts ctx = Inr ctx' \<longleftrightarrow>
     (\<exists>us es. ts = map Inr us \<and> exps_rule es us \<and> emit_seq action es ctx = Inr ctx')) \<and>
   (exps_rule es us \<longrightarrow> exps_rule es' us \<longrightarrow> es = es')"
proof (intro conjI iffI impI)
  assume run: "yyparse ts ctx = Inr ctx'"
  then obtain us es where d: "ts = map Inr us" "exps_rule es us" using yyparse_Inr by blast
  with run have "emit_seq action es ctx = Inr ctx'" by (simp add: yyparse_derives)
  with d show "\<exists>us es. ts = map Inr us \<and> exps_rule es us \<and> emit_seq action es ctx = Inr ctx'" by blast
qed (auto simp: yyparse_derives dest: exps_rule_unique)

theorem parser_correct_witness:
  "{es. exps_rule es [DIRECTIVE_BYTE, T_INT 7, T_ENDL]} = {[Directive (Byte 7), ENDL]}"
proof -
  have "exps_rule ([Directive (Byte 7)] @ [ENDL]) ([DIRECTIVE_BYTE, T_INT 7] @ [T_ENDL])"
    by (intro exps_snoc exps_one exp_rule.intros)
  then have "exps_rule [Directive (Byte 7), ENDL] [DIRECTIVE_BYTE, T_INT 7, T_ENDL]" by simp
  then show ?thesis using parser_correct[of "[]" undefined undefined _ "[DIRECTIVE_BYTE, T_INT 7, T_ENDL]"] by blast
qed

end
