(* ===== verification/Reassemble.thy ===== *)
theory Reassemble
  imports Grammar Disasm
begin

text \<open>
  The text between the programs: what the disassembler prints for an instruction is a line that the
  lexer and the parser of the assembler read back as the statement that the instruction came from.
\<close>

unbundle bit_operations_syntax

section \<open>Lines\<close>

text \<open>An argument as it is printed, and a line with its tokens.\<close>

datatype arg = A_reg reg_class string | A_creg string | A_imm word16

fun arg_text :: "arg \<Rightarrow> string" where
  "arg_text (A_reg k r) = r"
| "arg_text (A_creg r) = r"
| "arg_text (A_imm i) = ''0x'' @ fmt_04x i"

fun arg_token :: "arg \<Rightarrow> token" where
  "arg_token (A_reg k r) = reg_token k r"
| "arg_token (A_creg r) = CREG r"
| "arg_token (A_imm i) = T_INT i"

text \<open>The control registers that the tables name as they number them.\<close>

definition sound_cregs :: "string list" where
  "sound_cregs = [''MR1'', ''MR2'', ''CR1'', ''CR2'', ''SSP'', ''MR3'', ''MR4'', ''ST1'']"

fun arg_ok :: "arg \<Rightarrow> bool" where
  "arg_ok (A_reg Reg32 r) \<longleftrightarrow> r \<in> set REG32_names"
| "arg_ok (A_reg Reg16 r) \<longleftrightarrow> r \<in> set REG16_names"
| "arg_ok (A_reg Reg8 r) \<longleftrightarrow> r \<in> set REG8_names"
| "arg_ok (A_creg r) \<longleftrightarrow> r \<in> set sound_cregs"
| "arg_ok (A_imm i) \<longleftrightarrow> True"

fun args_text :: "arg list \<Rightarrow> string" where
  "args_text [] = []"
| "args_text [a] = arg_text a"
| "args_text (a # as) = arg_text a @ COMMA_TAB @ args_text as"

fun args_tokens :: "arg list \<Rightarrow> token list" where
  "args_tokens [] = []"
| "args_tokens [a] = [arg_token a]"
| "args_tokens (a # as) = arg_token a # COMMA # args_tokens as"

definition cond_text :: "string option \<Rightarrow> string" where
  "cond_text c = (case c of None \<Rightarrow> [] | Some c \<Rightarrow> c)"

definition cond_ok :: "string option \<Rightarrow> bool" where
  "cond_ok c \<longleftrightarrow> (case c of None \<Rightarrow> True | Some c \<Rightarrow> c \<in> set CONDITION_names)"

definition line_text :: "string \<Rightarrow> string option \<Rightarrow> arg list \<Rightarrow> string" where
  "line_text op c as = op @ cond_text c @ [TAB, TAB] @ args_text as"

definition line_tokens :: "op_class \<Rightarrow> string \<Rightarrow> string option \<Rightarrow> arg list \<Rightarrow> token list" where
  "line_tokens k op c as = OP k op # cond_tokens c @ T_SPACE # args_tokens as"

section \<open>Lexing a line\<close>

lemma digits16: "list_all (\<lambda>d. digit_value (hex_digit d) = d \<and> is_hex (hex_digit d)) [0..<16]"
  by code_simp

lemma digit_value_hex [simp]: "digit_value (hex_digit d) = d mod 16" "is_hex (hex_digit d)"
proof -
  have "hex_digit d = hex_digit (d mod 16)" by (simp add: hex_digit_def)
  then show "digit_value (hex_digit d) = d mod 16" "is_hex (hex_digit d)"
    using digits16 by (simp_all add: list_all_iff)
qed

lemma fmt_04x_value: "hexToDec (''0x'' @ fmt_04x v) = Inr v"
proof -
  let ?n = "unat v"
  have "?n < 65536" by (rule unat_word16_less)
  then have top: "?n div 4096 mod 16 = ?n div 4096" by simp
  have "?n div 16 div 16 = ?n div 256" "?n div 256 div 16 = ?n div 4096" by (simp_all flip: div_mult2_eq)
  then have "?n = 16 * (?n div 16) + ?n mod 16" "?n div 16 = 16 * (?n div 256) + ?n div 16 mod 16"
    "?n div 256 = 16 * (?n div 4096) + ?n div 256 mod 16"
    using mult_div_mod_eq[of 16 "?n div 16"] mult_div_mod_eq[of 16 "?n div 256"] by simp_all
  then have "number_value 16 (fmt_04x v) = unat v"
    by (simp add: number_value_def fmt_04x_def top)
  then show ?thesis using \<open>?n < 65536\<close> by (simp add: hexToDec_def strtoull_def)
qed

lemma sound_cregs_named: "set sound_cregs \<subseteq> set CREG_names"
  by (auto simp: sound_cregs_def CREG_names_def)

lemma letter_first:
  assumes "(ws, t) \<in> set word_classes" and "w \<in> set ws"
  shows "\<exists>a u. w = a # u \<and> letter a"
proof -
  have "w \<in> set lex_words" using assms by (force simp: lex_words_def)
  from word_shape(1,2)[OF this] show ?thesis by (metis list.exhaust_sel)
qed

text \<open>A register or control register is a word of its class.\<close>

lemma arg_word:
  assumes "arg_ok a" and "\<nexists>i. a = A_imm i"
  shows "\<exists>ws t. (ws, t) \<in> set word_classes \<and> arg_text a \<in> set ws \<and> arg_token a = t (arg_text a)"
  using assms
proof (cases a rule: arg_ok.cases)
  case (4 r)
  then have "r \<in> set CREG_names" using assms(1) sound_cregs_named by auto
  then show ?thesis using 4 by (auto simp: word_classes_def)
qed (auto simp: word_classes_def)

lemma arg_first: "arg_ok a \<Longrightarrow> \<exists>c u. arg_text a = c # u \<and> operand c"
proof (cases "\<exists>i. a = A_imm i")
  case False
  assume "arg_ok a"
  then show ?thesis using arg_word[OF _ False] letter_first by (fastforce simp: operand_def)
qed (auto simp: operand_def)

lemma lex_arg:
  assumes "arg_ok a" and "c = NL \<or> c = CHR '',''"
  shows "lex (arg_text a @ c # rest) = Inr (arg_token a) # lex (c # rest)"
proof (cases "\<exists>i. a = A_imm i")
  case True
  then obtain i where "a = A_imm i" by blast
  moreover have "\<not> is_hex c" using assms(2) by auto
  ultimately show ?thesis using lex_hex[of "fmt_04x i" c i rest] fmt_04x_value[of i] by (simp add: fmt_04x_def)
next
  case False
  then obtain ws t where "(ws, t) \<in> set word_classes" "arg_text a \<in> set ws" "arg_token a = t (arg_text a)"
    using arg_word[OF assms(1)] by blast
  then show ?thesis using lex_word[of ws t "arg_text a" c rest] stops_sep[of c] assms(2) by auto
qed

lemma lex_args:
  "list_all arg_ok as \<Longrightarrow> as \<noteq> [] \<Longrightarrow> lex (args_text as @ NL # rest) = map Inr (args_tokens as) @ lex (NL # rest)"
proof (induction as rule: args_text.induct)
  case (3 a b as)
  obtain c u where c: "args_text (b # as) = c # u" "operand c"
    using arg_first[of b] 3(2) by (cases as) auto
  have "lex (args_text (a # b # as) @ NL # rest) = lex (arg_text a @ CHR '','' # TAB # c # u @ NL # rest)"
    using c(1) by (simp add: COMMA_TAB_def)
  also have "\<dots> = Inr (arg_token a) # Inr COMMA # lex (c # u @ NL # rest)"
    using 3(2) lex_arg[of a "CHR '',''"] lex_comma[OF c(2)] by simp
  finally show ?case using 3 c(1) by simp
qed (simp_all add: lex_arg)

text \<open>A mnemonic with its condition.\<close>

lemma lex_op:
  assumes "(k, ws) \<in> set op_names" and "op \<in> set ws" and "cond_ok c"
  shows "lex (op @ cond_text c @ TAB # rest) = Inr (OP k op) # map Inr (cond_tokens c) @ lex (TAB # rest)"
proof (cases c)
  case None
  have "(ws, OP k) \<in> set word_classes" using assms(1) by (force simp: word_classes_def)
  then show ?thesis using lex_word[OF _ assms(2) stops_sep] None by (simp add: cond_text_def cond_tokens_def)
next
  case (Some n)
  have op: "(ws, OP k) \<in> set word_classes" using assms(1) by (force simp: word_classes_def)
  have n: "(CONDITION_names, CONDITION) \<in> set word_classes" "n \<in> set CONDITION_names"
    using assms(3) Some by (simp_all add: word_classes_def cond_ok_def)
  obtain a u where a: "n = a # u" using letter_first[OF n] by blast
  then have "stops op a" using ops_stop cond_first n(2) assms(1,2) by (fastforce simp: list_all_iff)
  from lex_word[OF op assms(2) this] show ?thesis
    using lex_word[OF n stops_sep, of TAB rest] Some a by (simp add: cond_text_def cond_tokens_def)
qed

lemma lex_line:
  assumes "(k, ws) \<in> set op_names" and "op \<in> set ws" and "cond_ok c" and "list_all arg_ok as" and "calm rest"
  shows "lex (line_text op c as @ NL # rest) = map Inr (line_tokens k op c as @ [T_ENDL]) @ lex rest"
proof -
  have "lex (TAB # TAB # args_text as @ NL # rest) = Inr T_SPACE # map Inr (args_tokens as) @ lex (NL # rest)"
  proof (cases as)
    case Nil
    then show ?thesis using lex_tabs_endl[OF assms(5)] by simp
  next
    case (Cons a bs)
    then obtain d u where d: "args_text as = d # u" "operand d"
      using arg_first[of a] assms(4) by (cases bs) auto
    then have "lex (TAB # TAB # args_text as @ NL # rest) = Inr T_SPACE # lex (args_text as @ NL # rest)"
      using lex_tabs[OF d(2), of "u @ NL # rest"] by simp
    then show ?thesis using lex_args[OF assms(4)] Cons by simp
  qed
  then show ?thesis
    using lex_op[OF assms(1-3), of "TAB # args_text as @ NL # rest"] lex_endl[OF assms(5)]
    by (simp add: line_text_def line_tokens_def)
qed

section \<open>Statements that are printed\<close>

text \<open>The mnemonic, the condition and the arguments of an instruction statement.\<close>

fun form :: "exp \<Rightarrow> (op_class \<times> string \<times> string option \<times> arg list) option" where
  "form (Fmt (Fmt_I op c)) = Some (OP_FMT_I, op, c, [])"
| "form (Fmt (Fmt_II op c d a b)) = Some (OP_FMT_II, op, c, [A_reg Reg32 d, A_reg Reg32 a, A_reg Reg32 b])"
| "form (Fmt (Fmt_II_imm op c d a i)) = Some (OP_FMT_II, op, c, [A_reg Reg32 d, A_reg Reg32 a, A_imm i])"
| "form (Fmt (Fmt_IV op c d i)) = Some (OP_FMT_IV, op, c, [A_reg Reg32 d, A_imm i])"
| "form (Fmt (Fmt_V op c d)) = Some (OP_FMT_V, op, c, [A_reg Reg32 d])"
| "form (Fmt (Fmt_VI op c a b)) = Some (OP_FMT_VI, op, c, [A_reg Reg32 a, A_reg Reg32 b])"
| "form (Fmt (Fmt_VIC_creg_reg op c a b)) = Some (OP_FMT_VIC, op, c, [A_creg a, A_reg Reg32 b])"
| "form (Fmt (Fmt_VIC_reg_creg op c a b)) = Some (OP_FMT_VIC, op, c, [A_reg Reg32 a, A_creg b])"
| "form (Fmt (Fmt_VI_imm op c a i)) = Some (OP_FMT_VI, op, c, [A_reg Reg32 a, A_imm i])"
| "form (Fmt (Fmt_V_imm op c i)) = Some (OP_FMT_V, op, c, [A_imm i])"
| "form (Fmt (Fmt_VIII op c i)) = Some (OP_FMT_VIII, op, c, [A_imm i])"
| "form (Data (Cmpxchg c d a b)) = Some (OP_S_CMPXCHG, ''CMPXCHG'', c, [A_reg Reg32 d, A_reg Reg32 a, A_reg Reg32 b])"
| "form (Data (Loadi8 c d i)) = Some (OP_S_LOADI, ''LOADI'', c, [A_reg Reg8 d, A_imm i])"
| "form (Data (Loadi16 c d i)) = Some (OP_S_LOADI, ''LOADI'', c, [A_reg Reg16 d, A_imm i])"
| "form (Data (Loadid k c d a i)) = Some (OP_S_LOADID, ''LOADID'', c, [A_reg k d, A_reg Reg32 a, A_imm i])"
| "form (Data (Loadrd k c d a b)) = Some (OP_S_LOADRD, ''LOADRD'', c, [A_reg k d, A_reg Reg32 a, A_reg Reg32 b])"
| "form (Data (Mov k op c a b)) = Some (OP_S_MOV, op, c, [A_reg k a, A_reg k b])"
| "form (Data (Sex8 c a b)) = Some (OP_S_SEX, ''SEX'', c, [A_reg Reg32 a, A_reg Reg8 b])"
| "form (Data (Sex16 c a b)) = Some (OP_S_SEX, ''SEX'', c, [A_reg Reg32 a, A_reg Reg16 b])"
| "form (Data (Storeid k c d a i)) = Some (OP_S_STOREID, ''STOREID'', c, [A_reg Reg32 d, A_reg k a, A_imm i])"
| "form (Data (Storerd k c d a b)) = Some (OP_S_STORERD, ''STORERD'', c, [A_reg Reg32 d, A_reg k a, A_reg Reg32 b])"
| "form (Data (Xchgc c a b)) = Some (OP_S_XCHGC, ''XCHGC'', c, [A_reg Reg32 a, A_creg b])"
| "form (Data (Storeas d)) = Some (OP_S_STOREAS, ''STOREAS'', None, [A_reg Reg32 d])"
| "form (Data (Loadas d)) = Some (OP_S_LOADAS, ''LOADAS'', None, [A_reg Reg32 d])"
| "form _ = None"

text \<open>
  The remaining conditions: immediates of twelve bits, the order of the operands of \<open>MOVTC\<close> and
  \<open>MOVFC\<close>, an immediate operand only for \<open>CMP\<close>, and without the two conditional forms that look
  names up in the wrong table.
\<close>

fun sound :: "exp \<Rightarrow> bool" where
  "sound (Fmt (Fmt_II_imm op c d a i)) \<longleftrightarrow> i < 0x1000"
| "sound (Fmt (Fmt_VIC_creg_reg op c a b)) \<longleftrightarrow> op = ''MOVTC''"
| "sound (Fmt (Fmt_VIC_reg_creg op c a b)) \<longleftrightarrow> op = ''MOVFC''"
| "sound (Fmt (Fmt_VI_imm op c a i)) \<longleftrightarrow> op = ''CMP'' \<and> i < 0x1000"
| "sound (Data (Loadid k c d a i)) \<longleftrightarrow> i < 0x1000"
| "sound (Data (Loadrd k c d a b)) \<longleftrightarrow> k \<noteq> Reg16 \<or> c = None"
| "sound (Data (Storeid k c d a i)) \<longleftrightarrow> i < 0x1000"
| "sound (Data (Xchgc c a b)) \<longleftrightarrow> c = None"
| "sound _ \<longleftrightarrow> True"

definition listed :: "exp \<Rightarrow> bool" where
  "listed e \<longleftrightarrow> sound e \<and>
     (case form e of
        None \<Rightarrow> False
      | Some (k, op, c, as) \<Rightarrow>
          list_ex (\<lambda>(k', ws). k' = k \<and> op \<in> set ws) op_names \<and> cond_ok c \<and> list_all arg_ok as)"

lemma listed_form:
  assumes "listed e"
  shows "\<exists>k op c as ws. form e = Some (k, op, c, as) \<and> sound e \<and> (k, ws) \<in> set op_names \<and> op \<in> set ws \<and>
    cond_ok c \<and> list_all arg_ok as"
  using assms by (auto simp: listed_def list_ex_iff split: option.splits)

text \<open>The grammar derives such a statement from the tokens of its line.\<close>

lemma line_rule:
  assumes "form e = Some (k, op, c, as)"
  shows "exp_rule e (OP k op # cond_tokens c @ (if k = OP_FMT_I then [] else T_SPACE # args_tokens as))"
  using assms by (cases e rule: form.cases) (auto intro: exp_rule.intros)

section \<open>Printing an instruction\<close>

definition mnemonics :: "string list" where
  "mnemonics =
     [''STOP'', ''FAIL'', ''IRET'', ''LOADI'', ''STOREMA'', ''LOADMA'', ''INT'', ''JMP'', ''CALL'', ''STOREAS'',
      ''LOADAS'', ''SMUL'', ''SDIV'', ''NOT'', ''SEX'', ''MOD'', ''TEST'', ''CMP'', ''IN'', ''MOV'', ''CMPXCHG'',
      ''MOVTC'', ''MOVFC'', ''SAR'', ''XCHG'', ''AND'', ''OR'', ''XOR'', ''SHL'', ''SHR'', ''LOADID'', ''LOADRD'',
      ''STOREID'', ''STORERD'', ''ADD'', ''SUB'', ''MUL'', ''DIV'', ''OUT'', ''XCHGC'']"

lemma mnemonic_numbers:
  "map get_op_for_name mnemonics =
     [OP_STOP, OP_FAIL, OP_IRET, OP_LOADI, OP_STOREMA, OP_LOADMA, OP_INT, OP_JMP, OP_CALL, OP_STOREAS,
      OP_LOADAS, OP_SMUL, OP_SDIV, OP_NOT, OP_SEX, OP_MOD, OP_TEST, OP_CMP, OP_IN, OP_MOV, OP_CMPXCHG,
      OP_MOVTC, OP_MOVFC, OP_SAR, OP_XCHG, OP_AND, OP_OR, OP_XOR, OP_SHL, OP_SHR, OP_LOADID, OP_LOADRD,
      OP_STOREID, OP_STORERD, OP_ADD, OP_SUB, OP_MUL, OP_DIV, OP_OUT, OP_XCHGC]"
  by code_simp

lemmas op_numbers = mnemonic_numbers[unfolded mnemonics_def list.map list.inject simp_thms]

lemma mnemonics_named: "list_all (\<lambda>op. get_name_of_op 0 (get_op_for_name op) = op) mnemonics"
  by code_simp

lemma op_named: "op \<in> set mnemonics \<Longrightarrow> get_name_of_op p (get_op_for_name op) = op"
  using mnemonics_named by (simp add: list_all_iff get_name_of_op_def)

lemma conditions_named: "list_all (\<lambda>c. get_name_of_cond (get_cond_for_name c) = c) CONDITION_names"
  by code_simp

lemma cond_named: "cond_ok c \<Longrightarrow> get_name_of_cond (cond_code c) = cond_text c"
  using conditions_named
  by (cases c) (auto simp: cond_ok_def cond_code_def cond_text_def list_all_iff get_name_of_cond_def)

lemma reg_tables_named:
  "list_all (\<lambda>r. get_name_of_reg (get_reg_for_name r) = r) REG32_names"
  "list_all (\<lambda>r. get_name_of_reg16 (get_reg16_for_name r) = r) REG16_names"
  "list_all (\<lambda>r. get_name_of_reg8 (get_reg8_for_name r) = r) REG8_names"
  "list_all (\<lambda>r. get_name_of_creg (get_creg_for_name r) = r) sound_cregs"
  by code_simp+

lemma regs_named:
  "r \<in> set REG32_names \<Longrightarrow> get_name_of_reg (get_reg_for_name r) = r"
  "r \<in> set REG16_names \<Longrightarrow> get_name_of_reg16 (get_reg16_for_name r) = r"
  "r \<in> set REG8_names \<Longrightarrow> get_name_of_reg8 (get_reg8_for_name r) = r"
  "r \<in> set sound_cregs \<Longrightarrow> get_name_of_creg (get_creg_for_name r) = r"
  using reg_tables_named by (simp_all add: list_all_iff)

text \<open>No format exceeds its buffer.\<close>

lemma snprintf_formats:
  "length a \<le> 4 \<Longrightarrow> length b \<le> 4 \<Longrightarrow> length c \<le> 4 \<Longrightarrow>
     snprintf 256 (FMT_REG_REG_REG a b c) = a @ COMMA_TAB @ b @ COMMA_TAB @ c"
  "length a \<le> 4 \<Longrightarrow> length b \<le> 4 \<Longrightarrow> snprintf 256 (FMT_REG_REG a b) = a @ COMMA_TAB @ b"
  "length a \<le> 4 \<Longrightarrow> length b \<le> 4 \<Longrightarrow>
     snprintf 256 (FMT_REG_REG_IMM12 a b v) = a @ COMMA_TAB @ b @ COMMA_TAB @ ''0x'' @ fmt_04x v"
  "length a \<le> 4 \<Longrightarrow> snprintf 256 (FMT_REG a) = a"
  "length a \<le> 4 \<Longrightarrow> snprintf 256 (FMT_REG_IMM12 a v) = a @ COMMA_TAB @ ''0x'' @ fmt_04x v"
  "length a \<le> 4 \<Longrightarrow> snprintf 256 (FMT_REG_IMM16 a v) = a @ COMMA_TAB @ ''0x'' @ fmt_04x v"
  "snprintf 256 (FMT_IMM16 v) = ''0x'' @ fmt_04x v" "snprintf 256 FMT_NONE = []"
  by (simp_all add: formats)

text \<open>The fields of the codes.\<close>

lemma dis_code_i:
  assumes "p < 4" and "c < 16" and "q < 64"
  defines "x \<equiv> vasmdis_bytes_to_instruction (code_i (p, c, q))"
  shows "dis_prefix x = p" "dis_condition x = c" "dis_opcode x = q"
  unfolding x_def using assms(1-3)
  by (simp_all only: code_eqs dis_fields joined)

lemma dis_code_ii:
  assumes "p < 4" and "c < 16" and "q < 64" and "d < 16" and "a < 16" and "b < 16"
  defines "x \<equiv> vasmdis_bytes_to_instruction (code_ii (p, c, q, d, a, b))"
  shows "dis_prefix x = p" "dis_condition x = c" "dis_opcode x = q" "dis_destination x = d" "dis_operand_a x = a" "dis_operand_b x = b"
  unfolding x_def using assms(1-6)
  by (simp_all only: code_eqs dis_fields joined)

lemma dis_code_iii:
  assumes "p < 4" and "c < 16" and "q < 64" and "d < 16" and "a < 16" and "i < 0x1000"
  defines "x \<equiv> vasmdis_bytes_to_instruction (code_iii (p, c, q, d, a, i))"
  shows "dis_prefix x = p" "dis_condition x = c" "dis_opcode x = q" "dis_destination x = d" "dis_operand_a x = a" "dis_imm12 x = i"
  unfolding x_def using assms(1-5) imm12_high[OF assms(6)] imm12_join[OF assms(6)]
  by (simp_all only: code_eqs dis_fields joined)

lemma dis_code_iv:
  fixes i :: word16
  assumes "p < 4" and "c < 16" and "q < 64" and "d < 16"
  defines "x \<equiv> vasmdis_bytes_to_instruction (code_iv (p, c, q, d, i))"
  shows "dis_prefix x = p" "dis_condition x = c" "dis_opcode x = q" "dis_destination x = d" "dis_imm16 x = i"
  unfolding x_def using assms(1-4)
  by (simp_all only: code_eqs dis_fields joined imm16_join)

lemma code_length [simp]:
  "length (code_i x) = 4" "length (code_ii y) = 4" "length (code_iii z) = 4" "length (code_iv w) = 4"
  by (rule fmt_i.length_code fmt_ii.length_code fmt_iii.length_code fmt_iv.length_code)+

text \<open>The arguments that the four cases of the prefix print for a mnemonic.\<close>

lemma reg_lengths:
  "r \<in> set REG32_names \<Longrightarrow> length r \<le> 4" "r \<in> set REG16_names \<Longrightarrow> length r \<le> 4"
  "r \<in> set REG8_names \<Longrightarrow> length r \<le> 4" "r \<in> set sound_cregs \<Longrightarrow> length r \<le> 4"
proof -
  have "list_all (\<lambda>r. length r \<le> 4) (REG32_names @ REG16_names @ REG8_names @ sound_cregs)" by code_simp
  then show "r \<in> set REG32_names \<Longrightarrow> length r \<le> 4" "r \<in> set REG16_names \<Longrightarrow> length r \<le> 4"
    "r \<in> set REG8_names \<Longrightarrow> length r \<le> 4" "r \<in> set sound_cregs \<Longrightarrow> length r \<le> 4"
    by (simp_all add: list_all_iff)
qed

lemma class_names:
  "(OP_FMT_I, ws) \<in> set op_names \<longleftrightarrow> ws = [''IRET'', ''STOP'']"
  "(OP_FMT_II, ws) \<in> set op_names \<longleftrightarrow> ws = [''ADD'', ''AND'', ''DIV'', ''OR'', ''MOD'', ''MUL'', ''SAR'', ''SDIV'',
     ''SHL'', ''SHR'', ''SMUL'', ''SUB'', ''XOR'']"
  "(OP_FMT_IV, ws) \<in> set op_names \<longleftrightarrow> ws = [''LOADMA'', ''STOREMA'']"
  "(OP_FMT_V, ws) \<in> set op_names \<longleftrightarrow> ws = [''CALL'', ''JMP'', ''TEST'']"
  "(OP_FMT_VI, ws) \<in> set op_names \<longleftrightarrow> ws = [''CMP'', ''IN'', ''NOT'', ''OUT'', ''XCHG'']"
  "(OP_FMT_VIII, ws) \<in> set op_names \<longleftrightarrow> ws = [''FAIL'', ''INT'']"
  "(OP_S_MOV, ws) \<in> set op_names \<longleftrightarrow> ws = [''MOV'']"
  by (simp_all add: op_names_def)

definition prints :: "byte list \<Rightarrow> string \<Rightarrow> string option \<Rightarrow> arg list \<Rightarrow> bool" where
  "prints w op c as \<longleftrightarrow> length w = 4 \<and> fst (vasmdis_disasm_instruction w []) = line_text op c as"

lemma prints_line:
  assumes "length w = 4" and "i = vasmdis_bytes_to_instruction w"
    and "dis_opcode i = get_op_for_name op" and "op \<in> set mnemonics"
    and "dis_condition i = cond_code c" and "cond_ok c"
    and "decode_instruction_arguments i [] = args_text as"
  shows "prints w op c as"
  using disasm_line_text[of w "[]"] assms op_named[OF assms(4)] cond_named[OF assms(6)]
  by (simp add: prints_def line_text_def Let_def)

text \<open>An instruction prints as a line when the arguments that its fields decode to are those of the line.\<close>

lemma prints_i:
  assumes "op \<in> set mnemonics" and "cond_ok c"
    and "\<And>i. dis_prefix i = 0 \<Longrightarrow> dis_opcode i = get_op_for_name op \<Longrightarrow> decode_instruction_arguments i [] = args_text as"
  shows "prints (code_i (0, cond_code c, get_op_for_name op)) op c as"
proof -
  note f = dis_code_i[of 0 "cond_code c" "get_op_for_name op"]
  show ?thesis by (rule prints_line[OF _ refl]) (use assms f in simp_all)
qed

lemma prints_ii:
  assumes "op \<in> set mnemonics" and "cond_ok c" and "p < 4" and "d < 16" and "a < 16" and "b < 16"
    and "\<And>i. dis_prefix i = p \<Longrightarrow> dis_opcode i = get_op_for_name op \<Longrightarrow> dis_destination i = d \<Longrightarrow> dis_operand_a i = a \<Longrightarrow>
      dis_operand_b i = b \<Longrightarrow> decode_instruction_arguments i [] = args_text as"
  shows "prints (code_ii (p, cond_code c, get_op_for_name op, d, a, b)) op c as"
proof -
  note f = dis_code_ii[of p "cond_code c" "get_op_for_name op" d a b]
  show ?thesis by (rule prints_line[OF _ refl]) (use assms f in simp_all)
qed

lemma prints_iii:
  assumes "op \<in> set mnemonics" and "cond_ok c" and "p < 4" and "d < 16" and "a < 16" and "v < 0x1000"
    and "\<And>i. dis_prefix i = p \<Longrightarrow> dis_opcode i = get_op_for_name op \<Longrightarrow> dis_destination i = d \<Longrightarrow> dis_operand_a i = a \<Longrightarrow>
      dis_imm12 i = v \<Longrightarrow> decode_instruction_arguments i [] = args_text as"
  shows "prints (code_iii (p, cond_code c, get_op_for_name op, d, a, v)) op c as"
proof -
  note f = dis_code_iii[of p "cond_code c" "get_op_for_name op" d a v]
  show ?thesis by (rule prints_line[OF _ refl]) (use assms f in simp_all)
qed

lemma prints_iv:
  assumes "op \<in> set mnemonics" and "cond_ok c" and "p < 4" and "d < 16"
    and "\<And>i. dis_prefix i = p \<Longrightarrow> dis_opcode i = get_op_for_name op \<Longrightarrow> dis_destination i = d \<Longrightarrow>
      dis_imm16 i = v \<Longrightarrow> decode_instruction_arguments i [] = args_text as"
  shows "prints (code_iv (p, cond_code c, get_op_for_name op, d, v)) op c as"
proof -
  note f = dis_code_iv[of p "cond_code c" "get_op_for_name op" d v]
  show ?thesis by (rule prints_line[OF _ refl]) (use assms f in simp_all)
qed

text \<open>The format that each mnemonic is printed in.\<close>

lemma op_number: "op \<in> set ws \<Longrightarrow> n = get_op_for_name op \<Longrightarrow> n \<in> set (map get_op_for_name ws)"
  by simp

lemmas op_number_simps = list.map op_numbers list.set insert_iff empty_iff

lemma dword_args:
  assumes "dis_prefix i = 0" and "dis_opcode i = get_op_for_name op"
  shows "op \<in> set [''IRET'', ''STOP''] \<Longrightarrow> decode_instruction_arguments i [] = snprintf 256 FMT_NONE"
    "op \<in> set [''ADD'', ''AND'', ''DIV'', ''OR'', ''MOD'', ''MUL'', ''SAR'', ''SDIV'', ''SHL'', ''SHR'', ''SMUL'', ''SUB'',
       ''XOR'', ''LOADRD'', ''STORERD'', ''CMPXCHG''] \<Longrightarrow> decode_instruction_arguments i [] =
       snprintf 256 (FMT_REG_REG_REG (get_name_of_reg (dis_destination i)) (get_name_of_reg (dis_operand_a i))
         (get_name_of_reg (dis_operand_b i)))"
    "op \<in> set [''CALL'', ''JMP'', ''TEST'', ''LOADAS'', ''STOREAS''] \<Longrightarrow> decode_instruction_arguments i [] =
       snprintf 256 (FMT_REG (get_name_of_reg (dis_destination i)))"
    "op \<in> set [''CMP'', ''IN'', ''NOT'', ''OUT'', ''XCHG'', ''MOV''] \<Longrightarrow> decode_instruction_arguments i [] =
       snprintf 256 (FMT_REG_REG (get_name_of_reg (dis_operand_a i)) (get_name_of_reg (dis_operand_b i)))"
    "op \<in> set [''LOADID'', ''STOREID''] \<Longrightarrow> decode_instruction_arguments i [] =
       snprintf 256 (FMT_REG_REG_IMM12 (get_name_of_reg (dis_destination i)) (get_name_of_reg (dis_operand_a i)) (dis_imm12 i))"
    "op \<in> set [''MOVTC''] \<Longrightarrow> decode_instruction_arguments i [] =
       snprintf 256 (FMT_REG_REG (get_name_of_creg (dis_operand_a i)) (get_name_of_reg (dis_operand_b i)))"
    "op \<in> set [''XCHGC'', ''MOVFC''] \<Longrightarrow> decode_instruction_arguments i [] =
       snprintf 256 (FMT_REG_REG (get_name_of_reg (dis_operand_a i)) (get_name_of_creg (dis_operand_b i)))"
  by (drule op_number[OF _ assms(2)], simp only: op_number_simps, elim disjE;
      simp add: assms(1) decode_instruction_arguments_def decode_dword_prefix_ops_def)+

lemma small_args:
  assumes "dis_prefix i = class_prefix k" and "k \<noteq> Reg32" and "dis_opcode i = get_op_for_name op"
    and "nm = (if k = Reg16 then get_name_of_reg16 else get_name_of_reg8)"
  shows "op \<in> set [''LOADI''] \<Longrightarrow> decode_instruction_arguments i [] =
       snprintf 256 (FMT_REG_IMM16 (nm (dis_destination i)) (dis_imm16 i))"
    "op \<in> set [''LOADID''] \<Longrightarrow> decode_instruction_arguments i [] =
       snprintf 256 (FMT_REG_REG_IMM12 (nm (dis_destination i)) (get_name_of_reg (dis_operand_a i)) (dis_imm12 i))"
    "op \<in> set [''LOADRD''] \<Longrightarrow> decode_instruction_arguments i [] =
       snprintf 256 (FMT_REG_REG_REG (nm (dis_destination i)) (get_name_of_reg (dis_operand_a i)) (get_name_of_reg (dis_operand_b i)))"
    "op \<in> set [''MOV''] \<Longrightarrow> decode_instruction_arguments i [] =
       snprintf 256 (FMT_REG_REG (nm (dis_operand_a i)) (nm (dis_operand_b i)))"
    "op \<in> set [''SEX''] \<Longrightarrow> decode_instruction_arguments i [] =
       snprintf 256 (FMT_REG_REG (get_name_of_reg (dis_operand_a i)) (nm (dis_operand_b i)))"
    "op \<in> set [''STOREID''] \<Longrightarrow> decode_instruction_arguments i [] =
       snprintf 256 (FMT_REG_REG_IMM12 (get_name_of_reg (dis_destination i)) (nm (dis_operand_a i)) (dis_imm12 i))"
    "op \<in> set [''STORERD''] \<Longrightarrow> decode_instruction_arguments i [] =
       snprintf 256 (FMT_REG_REG_REG (get_name_of_reg (dis_destination i)) (nm (dis_operand_a i)) (get_name_of_reg (dis_operand_b i)))"
  by (drule op_number[OF _ assms(3)], simp only: op_number_simps, cases k;
      use assms(1,2,4) in \<open>simp add: decode_instruction_arguments_def decode_word_prefix_ops_def decode_byte_prefix_ops_def\<close>)+

lemma imm_args:
  assumes "dis_prefix i = 3" and "dis_opcode i = get_op_for_name op"
  shows "op \<in> set [''ADD'', ''AND'', ''DIV'', ''OR'', ''MOD'', ''MUL'', ''SAR'', ''SDIV'', ''SHL'', ''SHR'', ''SMUL'', ''SUB'',
       ''XOR''] \<Longrightarrow> decode_instruction_arguments i [] =
       snprintf 256 (FMT_REG_REG_IMM12 (get_name_of_reg (dis_destination i)) (get_name_of_reg (dis_operand_a i)) (dis_imm12 i))"
    "op \<in> set [''CMP''] \<Longrightarrow> decode_instruction_arguments i [] =
       snprintf 256 (FMT_REG_IMM12 (get_name_of_reg (dis_operand_a i)) (dis_imm12 i))"
    "op \<in> set [''CALL'', ''FAIL'', ''INT'', ''JMP'', ''TEST''] \<Longrightarrow> decode_instruction_arguments i [] =
       snprintf 256 (FMT_IMM16 (dis_imm16 i))"
    "op \<in> set [''LOADMA'', ''STOREMA''] \<Longrightarrow> decode_instruction_arguments i [] =
       snprintf 256 (FMT_REG_IMM16 (get_name_of_reg (dis_destination i)) (dis_imm16 i))"
  by (drule op_number[OF _ assms(2)], simp only: op_number_simps, elim disjE;
      simp add: assms(1) decode_instruction_arguments_def decode_immediate_prefix_ops_def)+

lemmas print_simps = regs_named snprintf_formats reg_lengths

lemma class_mnemonics:
  "(k, ws) \<in> set op_names \<Longrightarrow> op \<in> set ws \<Longrightarrow> form e = Some (k, op, c, as) \<Longrightarrow> op \<in> set mnemonics"
proof -
  have table: "list_all (\<lambda>(k, ws). list_all (\<lambda>op. op \<in> set mnemonics) ws) (take 18 op_names)" by code_simp
  have rest: "k \<in> {OP_PSEUDO_LOADADR, OP_PSEUDO_LDCALL, OP_PSEUDO_LDJMP, OP_PSEUDO_PUSH, OP_PSEUDO_POP, OP_PSEUDO_LOAD32}"
    if "(k, ws) \<in> set (drop 18 op_names)" using that by (auto simp: op_names_def)
  assume a: "(k, ws) \<in> set op_names" "op \<in> set ws" "form e = Some (k, op, c, as)"
  then have "(k, ws) \<notin> set (drop 18 op_names)" using rest by (cases e rule: form.cases) auto
  then have "(k, ws) \<in> set (take 18 op_names)" using a(1) by (metis append_take_drop_id Un_iff set_append)
  then show "op \<in> set mnemonics" using table a(2) by (fastforce simp: list_all_iff)
qed

lemma check12_sound: "i < 0x1000 \<Longrightarrow> check12 i cs = cs"
  using wide12[of i] by (auto simp: check12_def)

lemma fmt_prints:
  assumes "form (Fmt e) = Some (k, op, c, as)" and "sound (Fmt e)" and "(k, ws) \<in> set op_names" and "op \<in> set ws"
    and "cond_ok c" and "list_all arg_ok as"
  shows "\<exists>w. fmt_chunks e = [Code w] \<and> prints w op c as"
proof -
  note m = class_mnemonics[OF assms(3,4,1)]
  show ?thesis
  proof (cases e)
    case (Fmt_I op' c')
    then have "prints (code_i (0, cond_code c, get_op_for_name op)) op c as"
      using assms m by (intro prints_i) (auto simp: class_names dword_args print_simps)
    then show ?thesis using assms(1,2) Fmt_I by (simp)
  next
    case (Fmt_II op' c' d a b)
    then have "prints (code_ii (0, cond_code c, get_op_for_name op, get_reg_for_name d, get_reg_for_name a, get_reg_for_name b)) op c as"
      using assms m by (intro prints_ii) (auto simp: class_names dword_args print_simps)
    then show ?thesis using assms(1,2) Fmt_II by (simp)
  next
    case (Fmt_II_imm op' c' d a v)
    then have "prints (code_iii (3, cond_code c, get_op_for_name op, get_reg_for_name d, get_reg_for_name a, v)) op c as"
      using assms m by (intro prints_iii) (auto simp: class_names imm_args print_simps)
    then show ?thesis using assms(1,2) Fmt_II_imm by (simp add: check12_sound)
  next
    case (Fmt_IV op' c' d v)
    then have "prints (code_iv (3, cond_code c, get_op_for_name op, get_reg_for_name d, v)) op c as"
      using assms m by (intro prints_iv) (auto simp: class_names imm_args print_simps)
    then show ?thesis using assms(1,2) Fmt_IV by (simp)
  next
    case (Fmt_V op' c' d)
    then have "prints (code_ii (0, cond_code c, get_op_for_name op, get_reg_for_name d, 0, 0)) op c as"
      using assms m by (intro prints_ii) (auto simp: class_names dword_args print_simps)
    then show ?thesis using assms(1,2) Fmt_V by (simp)
  next
    case (Fmt_VI op' c' a b)
    then have "prints (code_ii (0, cond_code c, get_op_for_name op, 0, get_reg_for_name a, get_reg_for_name b)) op c as"
      using assms m by (intro prints_ii) (auto simp: class_names dword_args print_simps)
    then show ?thesis using assms(1,2) Fmt_VI by (simp)
  next
    case (Fmt_VIC_creg_reg op' c' a b)
    then have "prints (code_ii (0, cond_code c, get_op_for_name op, 0, get_creg_for_name a, get_reg_for_name b)) op c as"
      using assms m by (intro prints_ii) (auto simp: class_names dword_args print_simps)
    then show ?thesis using assms(1,2) Fmt_VIC_creg_reg by (simp)
  next
    case (Fmt_VIC_reg_creg op' c' a b)
    then have "prints (code_ii (0, cond_code c, get_op_for_name op, 0, get_reg_for_name a, get_creg_for_name b)) op c as"
      using assms m by (intro prints_ii) (auto simp: class_names dword_args print_simps)
    then show ?thesis using assms(1,2) Fmt_VIC_reg_creg by (simp)
  next
    case (Fmt_VI_imm op' c' a v)
    then have "prints (code_iii (3, cond_code c, get_op_for_name op, 0, get_reg_for_name a, v)) op c as"
      using assms m by (intro prints_iii) (auto simp: class_names imm_args print_simps)
    then show ?thesis using assms(1,2) Fmt_VI_imm by (simp add: check12_sound)
  next
    case (Fmt_V_imm op' c' v)
    then have "prints (code_iv (3, cond_code c, get_op_for_name op, 0, v)) op c as"
      using assms m by (intro prints_iv) (auto simp: class_names imm_args print_simps)
    then show ?thesis using assms(1,2) Fmt_V_imm by (simp)
  next
    case (Fmt_VIII op' c' v)
    then have "prints (code_iv (3, cond_code c, get_op_for_name op, 0, v)) op c as"
      using assms m by (intro prints_iv) (auto simp: class_names imm_args print_simps)
    then show ?thesis using assms(1,2) Fmt_VIII by (simp)
  qed
qed

lemmas reg8_args = small_args[of _ Reg8, simplified]
lemmas reg16_args = small_args[of _ Reg16, simplified]

lemma data_prints:
  assumes "form (Data e) = Some (k, op, c, as)" and "sound (Data e)" and "(k, ws) \<in> set op_names" and "op \<in> set ws"
    and "cond_ok c" and "list_all arg_ok as"
  shows "\<exists>w. data_chunks e = [Code w] \<and> prints w op c as"
proof -
  note m = class_mnemonics[OF assms(3,4,1)]
  show ?thesis
  proof (cases e)
    case (Cmpxchg c' d a b)
    then have "prints (code_ii (0, cond_code c, get_op_for_name op, get_reg_for_name d, get_reg_for_name a, get_reg_for_name b)) op c as"
      using assms m by (intro prints_ii) (auto simp: class_names dword_args print_simps)
    then show ?thesis using assms(1,2) Cmpxchg by (auto simp: op_numbers cond_code_def)
  next
    case (Loadi8 c' d v)
    then have "prints (code_iv (2, cond_code c, get_op_for_name op, get_reg8_for_name d, v)) op c as"
      using assms m by (intro prints_iv) (auto simp: class_names reg8_args print_simps)
    then show ?thesis using assms(1,2) Loadi8 by (auto simp: op_numbers cond_code_def)
  next
    case (Loadi16 c' d v)
    then have "prints (code_iv (1, cond_code c, get_op_for_name op, get_reg16_for_name d, v)) op c as"
      using assms m by (intro prints_iv) (auto simp: class_names reg16_args print_simps)
    then show ?thesis using assms(1,2) Loadi16 by (auto simp: op_numbers cond_code_def)
  next
    case (Loadid r c' d a v)
    then have "prints (code_iii (class_prefix r, cond_code c, get_op_for_name op, class_reg r d, get_reg_for_name a, v)) op c as"
      using assms m by (cases r; intro prints_iii; auto simp: class_names dword_args reg8_args reg16_args print_simps)
    then show ?thesis using assms(1,2) Loadid by (auto simp: op_numbers cond_code_def check12_sound)
  next
    case (Loadrd r c' d a b)
    then have "prints (code_ii (class_prefix r, cond_code c, get_op_for_name op, class_reg r d, get_reg_for_name a, get_reg_for_name b)) op c as"
      using assms m by (cases r; intro prints_ii; auto simp: class_names dword_args reg8_args reg16_args print_simps)
    then show ?thesis using assms(1,2) Loadrd by (auto simp: op_numbers cond_code_def)
  next
    case (Mov r op' c' a b)
    then have "prints (code_ii (class_prefix r, cond_code c, get_op_for_name op, 0, class_reg r a, class_reg r b)) op c as"
      using assms m by (cases r; intro prints_ii; auto simp: class_names dword_args reg8_args reg16_args print_simps)
    then show ?thesis using assms(1,2) Mov by (auto simp: op_numbers cond_code_def)
  next
    case (Sex8 c' a b)
    then have "prints (code_ii (2, cond_code c, get_op_for_name op, 0, get_reg_for_name a, get_reg8_for_name b)) op c as"
      using assms m by (intro prints_ii) (auto simp: class_names reg8_args print_simps)
    then show ?thesis using assms(1,2) Sex8 by (auto simp: op_numbers cond_code_def)
  next
    case (Sex16 c' a b)
    then have "prints (code_ii (1, cond_code c, get_op_for_name op, 0, get_reg_for_name a, get_reg16_for_name b)) op c as"
      using assms m by (intro prints_ii) (auto simp: class_names reg16_args print_simps)
    then show ?thesis using assms(1,2) Sex16 by (auto simp: op_numbers cond_code_def)
  next
    case (Storeid r c' d a v)
    then have "prints (code_iii (class_prefix r, cond_code c, get_op_for_name op, get_reg_for_name d, class_reg r a, v)) op c as"
      using assms m by (cases r; intro prints_iii; auto simp: class_names dword_args reg8_args reg16_args print_simps)
    then show ?thesis using assms(1,2) Storeid by (auto simp: op_numbers cond_code_def check12_sound)
  next
    case (Storerd r c' d a b)
    then have "prints (code_ii (class_prefix r, cond_code c, get_op_for_name op, get_reg_for_name d, class_reg r a, get_reg_for_name b)) op c as"
      using assms m by (cases r; intro prints_ii; auto simp: class_names dword_args reg8_args reg16_args print_simps)
    then show ?thesis using assms(1,2) Storerd by (auto simp: op_numbers cond_code_def)
  next
    case (Xchgc c' a b)
    then have "prints (code_ii (0, cond_code c, get_op_for_name op, 0, get_reg_for_name a, get_creg_for_name b)) op c as"
      using assms m by (intro prints_ii) (auto simp: class_names dword_args print_simps)
    then show ?thesis using assms(1,2) Xchgc by (auto simp: op_numbers cond_code_def)
  next
    case (Storeas d)
    then have "prints (code_ii (0, cond_code c, get_op_for_name op, get_reg_for_name d, 0, 0)) op c as"
      using assms m by (intro prints_ii) (auto simp: class_names dword_args print_simps)
    then show ?thesis using assms(1,2) Storeas by (auto simp: op_numbers cond_code_def)
  next
    case (Loadas d)
    then have "prints (code_ii (0, cond_code c, get_op_for_name op, get_reg_for_name d, 0, 0)) op c as"
      using assms m by (intro prints_ii) (auto simp: class_names dword_args print_simps)
    then show ?thesis using assms(1,2) Loadas by (auto simp: op_numbers cond_code_def)
  qed
qed

section \<open>Printing a program\<close>

text \<open>The code of a statement; for a listed one it is a single instruction that prints as its line.\<close>

definition code_of :: "exp \<Rightarrow> byte list" where
  "code_of e = raw (chunks 0 e)"

lemma listed_prints:
  assumes "listed e"
  shows "\<exists>k op c as ws. form e = Some (k, op, c, as) \<and> (k, ws) \<in> set op_names \<and> op \<in> set ws \<and> cond_ok c \<and>
    list_all arg_ok as \<and> prints (code_of e) op c as \<and> (\<forall>p. chunks p e = [Code (code_of e)])"
proof -
  obtain k op c as ws where f: "form e = Some (k, op, c, as)" "sound e" "(k, ws) \<in> set op_names" "op \<in> set ws"
    "cond_ok c" "list_all arg_ok as"
    using listed_form[OF assms] by blast
  then have "\<exists>w. (\<forall>p. chunks p e = [Code w]) \<and> prints w op c as"
    using fmt_prints data_prints by (cases e) force+
  then obtain w where "\<forall>p. chunks p e = [Code w]" "prints w op c as" by blast
  then show ?thesis using f by (auto simp: code_of_def)
qed

lemma listed_chunks:
  assumes "listed e"
  shows "chunks p e = [Code (code_of e)]" "length (code_of e) = 4"
  using listed_prints[OF assms] by (auto simp: prints_def)

abbreviation codes_of :: "exp list \<Rightarrow> byte list" where
  "codes_of es \<equiv> concat (map code_of es)"

lemma dis_text_Cons:
  assumes "listed e" and "form e = Some (k, op, c, as)"
  shows "dis_text (code_of e @ bs) = line_text op c as @ NL # dis_text bs"
  using listed_prints[OF assms(1)] assms(2) dis_text_chunk[of "code_of e @ bs"] by (auto simp: prints_def)

lemma dis_text_calm: "list_all listed es \<Longrightarrow> calm (dis_text (codes_of es @ [0]))"
proof (cases es)
  case (Cons e es')
  assume "list_all listed es"
  then have e: "listed e" using Cons by simp
  from listed_prints[OF e] obtain k op c as ws where f: "form e = Some (k, op, c, as)" "(k, ws) \<in> set op_names"
    "op \<in> set ws" by blast
  moreover have "(ws, OP k) \<in> set word_classes" using f(2) by (force simp: word_classes_def)
  ultimately obtain a u where "op = a # u" "letter a" using letter_first by blast
  then show ?thesis using dis_text_Cons[OF e f(1)] Cons by (simp add: calm_def line_text_def)
qed (simp add: calm_def)

text \<open>The statements that a line reads back as: the instruction and the white space behind it.\<close>

definition printed :: "exp \<Rightarrow> exp list" where
  "printed e = e # (if (case form e of Some (k, _) \<Rightarrow> k = OP_FMT_I | None \<Rightarrow> False) then [SPACE, ENDL] else [ENDL])"

lemma printed_form:
  "form e = Some (k, r) \<Longrightarrow> printed e = e # (if k = OP_FMT_I then [SPACE, ENDL] else [ENDL])"
  by (simp add: printed_def)

lemma printed_rules:
  assumes "form e = Some (k, op, c, as)"
  shows "\<exists>uss. list_all2 exp_rule (printed e) uss \<and> concat uss = line_tokens k op c as @ [T_ENDL]"
proof (cases "k = OP_FMT_I")
  case True
  moreover from True have "as = []" using assms by (cases e rule: form.cases) auto
  ultimately show ?thesis using line_rule[OF assms] printed_form[OF assms]
    by (intro exI[of _ "[OP k op # cond_tokens c, [T_SPACE], [T_ENDL]]"]) (simp add: line_tokens_def rule_space rule_endl)
next
  case False
  then show ?thesis using line_rule[OF assms] printed_form[OF assms]
    by (intro exI[of _ "[line_tokens k op c as, [T_ENDL]]"]) (simp add: line_tokens_def rule_endl)
qed

lemma text_rules:
  "list_all listed es \<Longrightarrow>
     \<exists>uss. list_all2 exp_rule (concat (map printed es)) uss \<and> lex (dis_text (codes_of es @ [0])) = map Inr (concat uss)"
proof (induction es)
  case Nil
  then show ?case by simp
next
  case (Cons e es)
  then have e: "listed e" and calm: "calm (dis_text (codes_of es @ [0]))" using dis_text_calm by simp_all
  from listed_prints[OF e] obtain k op c as ws where f: "form e = Some (k, op, c, as)" "(k, ws) \<in> set op_names"
    "op \<in> set ws" "cond_ok c" "list_all arg_ok as" by blast
  obtain uss where uss: "list_all2 exp_rule (printed e) uss" "concat uss = line_tokens k op c as @ [T_ENDL]"
    using printed_rules[OF f(1)] by blast
  obtain vss where vss: "list_all2 exp_rule (concat (map printed es)) vss"
    "lex (dis_text (codes_of es @ [0])) = map Inr (concat vss)" using Cons by auto
  have "lex (dis_text (codes_of (e # es) @ [0])) = map Inr (concat (uss @ vss))"
    using lex_line[OF f(2-5) calm] dis_text_Cons[OF e f(1)] vss(2) uss(2) by simp
  then show ?case using list_all2_appendI[OF uss(1) vss(1)] by auto
qed

lemma word_in_block: "4 dvd p \<Longrightarrow> p mod 512 + 4 \<le> 512" for p :: nat
proof -
  assume "4 dvd p"
  then obtain k where "p = 4 * k" by (elim dvdE)
  then have "p mod 512 = 4 * (k mod 128)" using mult_mod_right[of 4 k 128] by simp
  moreover have "k mod 128 < 128" by simp
  ultimately show ?thesis by linarith
qed

lemma fits_codes:
  "list_all listed es \<Longrightarrow> 4 dvd p \<Longrightarrow> p + 4 * length es + 1024 < 2 ^ 32 \<Longrightarrow>
     fits_all p (map (Code \<circ> code_of) es)"
proof (induction es arbitrary: p)
  case (Cons e es)
  then have len: "length (code_of e) = 4" using listed_chunks(2) by simp
  have "p + 1024 < 2 ^ 32" using Cons.prems(3) by simp
  then have "fits_at p (Code (code_of e))" using len word_in_block[OF Cons.prems(2)] by auto
  moreover have "fits_all (p + 4) (map (Code \<circ> code_of) es)"
    by (rule Cons.IH) (use Cons.prems in simp_all)
  ultimately show ?case by (simp only: list.map fits_all.simps chunk_size.simps comp_def len simp_thms)
qed simp

lemma prog_chunks_codes:
  "list_all listed es \<Longrightarrow> prog_chunks p es = map (Code \<circ> code_of) es"
  "list_all listed es \<Longrightarrow> prog_chunks p (concat (map printed es)) = map (Code \<circ> code_of) es"
  by (induction es arbitrary: p)
    (simp_all add: listed_chunks printed_def)

lemma link_codes:
  "accepted S (map (Code \<circ> f) es)" "resolved L (map (Code \<circ> f) es)" "link L (map (Code \<circ> f) es) = concat (map f es)"
  by (induction es) auto

lemma assembles:
  assumes "\<And>n. heap n" and "prog_chunks 0 stmts = map (Code \<circ> code_of) es" and "list_all listed es"
    and "4 * length es + 1024 < 2 ^ 32"
  shows "vasm_main heap None stmts = Inr (map Some (codes_of es))"
proof -
  have "fits_all 0 (prog_chunks 0 stmts)" using fits_codes[OF assms(3), of 0] assms(2,4) by simp
  from vasm_main_links[OF assms(1) this] show ?thesis by (simp add: assms(2) link_codes Let_def)
qed

lemma length_codes: "list_all listed es \<Longrightarrow> length (codes_of es) = 4 * length es"
  by (induction es) (simp_all add: listed_chunks)

section \<open>Properties\<close>

text \<open>
  C3. Text and code, with an allocator that serves every request and less than four gigabytes of code: a
  program of the listed instructions (every instruction, with any condition,
  register and immediate that its fields hold, but the pseudo instructions, \<open>MOVTC\<close> and \<open>MOVFC\<close>
  with their operands exchanged, the names of the control
  registers that the table confuses and the two conditional forms that look names up in the wrong
  table) assembles to four bytes for each; the disassembler prints the image of these bytes as a text;
  and the assembler, given that text, produces the same image again.
\<close>

theorem text_roundtrip:
  assumes "\<And>n. heap n" and "list_all listed es" and "es \<noteq> []" and "4 * length es + 1024 < 2 ^ 32"
  shows "\<exists>bs text. vasm_main heap None es = Inr (map Some bs) \<and> length bs = 4 * length es \<and>
    vdis_main (files(path \<mapsto> bs)) writable [prog, ''--img'', path] = Some (Inr (''stdout'', text)) \<and>
    vasm heap None text = Inr (map Some bs)"
proof (intro exI conjI)
  let ?bs = "codes_of es" and ?text = "dis_text (codes_of es @ [0])"
  show "vasm_main heap None es = Inr (map Some ?bs)"
    by (rule assembles) (use assms prog_chunks_codes(1) in auto)
  show len: "length ?bs = 4 * length es" using assms(2) by (rule length_codes)
  show "vdis_main (files(path \<mapsto> ?bs)) writable [prog, ''--img'', path] = Some (Inr (''stdout'', ?text))"
    using vdis_loop_correct[of 0 ?bs "[]" "[]"] len assms(4) by (simp add: vdis_main_def vdis_load_img_def Let_def)
  have "concat (map printed es) \<noteq> []" using assms(3) by (cases es) (simp_all add: printed_def)
  then have "vasm heap None ?text = vasm_main heap None (concat (map printed es))"
    using text_rules[OF assms(2)] vasm_derives exps_rule_list by metis
  also have "\<dots> = Inr (map Some ?bs)"
    by (rule assembles) (use assms prog_chunks_codes(2) in auto)
  finally show "vasm heap None ?text = Inr (map Some ?bs)" .
qed

theorem text_roundtrip_witness:
  "\<exists>bs text. vasm_main (\<lambda>n. True) None [Fmt (Fmt_II_imm ''ADD'' (Some ''NZ'') ''R1'' ''SP'' 0x123), Data (Xchgc None ''R3'' ''CR2''),
        Fmt (Fmt_I ''STOP'' None)] = Inr (map Some bs) \<and> length bs = 12 \<and>
     vdis_main [''a.img'' \<mapsto> bs] (\<lambda>f. True) [''vdis'', ''--img'', ''a.img''] = Some (Inr (''stdout'', text)) \<and>
     vasm (\<lambda>n. True) None text = Inr (map Some bs)"
proof -
  let ?es = "[Fmt (Fmt_II_imm ''ADD'' (Some ''NZ'') ''R1'' ''SP'' 0x123), Data (Xchgc None ''R3'' ''CR2''), Fmt (Fmt_I ''STOP'' None)]"
  have "list_all listed ?es" by code_simp
  from text_roundtrip[of "\<lambda>n. True", OF TrueI this, of Map.empty "''a.img''" "\<lambda>f. True" "''vdis''"] show ?thesis by simp
qed

end
