(* ===== verification/Cmdline.thy ===== *)
theory Cmdline
  imports Grammar
begin

text \<open>
  The command line of the assembler: \<open>main\<close> of \<^verbatim>\<open>src/assembler/vasm.y\<close> from its arguments to its output
  file, with \<open>getopt_long\<close> and \<open>atoi\<close> of the C library. \<open>files\<close> is what the file system holds under a path
  and \<open>writable\<close> says which files can be opened for writing.
\<close>

section \<open>Options\<close>

text \<open>The option letters; all but \<open>h\<close> have an argument. A result of \<open>getopt_long\<close> is a letter with its argument or '?'.\<close>

datatype letter = L_f | L_h | L_i | L_v

datatype opt = Opt letter string | Unknown

definition short_options :: "(char \<times> letter) list" where
  "short_options = [(CHR ''f'', L_f), (CHR ''h'', L_h), (CHR ''i'', L_i), (CHR ''v'', L_v)]"

definition long_options :: "(string \<times> letter) list" where
  "long_options = [(''img'', L_i), (''asm'', L_v), (''help'', L_h), (''fixed-buffer'', L_f)]"

text \<open>A long name may be cut short to any beginning that only one of the names has.\<close>

definition find_long :: "string \<Rightarrow> letter option" where
  "find_long name =
     (case map_of long_options name of
        Some l \<Rightarrow> Some l
      | None \<Rightarrow>
          (case filter (\<lambda>(s, l). take (length name) s = name) long_options of
             [(s, l)] \<Rightarrow> Some l
           | _ \<Rightarrow> None))"

text \<open>An argument that has to follow in the next element.\<close>

definition next_arg :: "letter \<Rightarrow> string list \<Rightarrow> opt \<times> string list" where
  "next_arg l args = (case args of [] \<Rightarrow> (Unknown, []) | a # args \<Rightarrow> (Opt l a, args))"

definition long_opt :: "string \<Rightarrow> string list \<Rightarrow> opt \<times> string list" where
  "long_opt s args =
     (let name = takeWhile (\<lambda>c. c \<noteq> CHR ''='') s; eq = drop (length name) s in
      case find_long name of
        None \<Rightarrow> (Unknown, args)
      | Some l \<Rightarrow>
          if l = L_h then (if eq = [] then Opt L_h [] else Unknown, args)
          else if eq = [] then next_arg l args
          else (Opt l (tl eq), args))"

fun short_opts :: "string \<Rightarrow> string list \<Rightarrow> opt list \<times> string list" where
  "short_opts [] args = ([], args)"
| "short_opts (c # cs) args =
     (case map_of short_options c of
        None \<Rightarrow> (case short_opts cs args of (os, args) \<Rightarrow> (Unknown # os, args))
      | Some l \<Rightarrow>
          if l = L_h then (case short_opts cs args of (os, args) \<Rightarrow> (Opt L_h [] # os, args))
          else if cs \<noteq> [] then ([Opt l cs], args)
          else (case next_arg l args of (p, args) \<Rightarrow> ([p], args)))"

lemma next_arg_shorter: "next_arg l args = (p, rest) \<Longrightarrow> length rest \<le> length args"
  by (auto simp: next_arg_def split: list.splits)

lemma long_opt_shorter: "long_opt s args = (p, rest) \<Longrightarrow> length rest \<le> length args"
  by (auto simp: long_opt_def Let_def split: option.splits if_splits dest: next_arg_shorter)

lemma short_opts_shorter: "short_opts cs args = (ps, rest) \<Longrightarrow> length rest \<le> length args"
  by (induction cs args arbitrary: ps rest rule: short_opts.induct)
    (auto split: option.splits if_splits prod.splits dest: next_arg_shorter)

text \<open>
  What the calls of \<open>getopt_long\<close> return, one after the other, for the arguments behind the program name.
  An element that is no option is passed over, \<open>--\<close> ends the options.
\<close>

function getopt_long :: "string list \<Rightarrow> opt list" where
  "getopt_long [] = []"
| "getopt_long (a # args) =
     (if a = ''--'' then []
      else if take 2 a = ''--'' then (case long_opt (drop 2 a) args of (p, rest) \<Rightarrow> p # getopt_long rest)
      else if 1 < length a \<and> hd a = CHR ''-'' then (case short_opts (tl a) args of (ps, rest) \<Rightarrow> ps @ getopt_long rest)
      else getopt_long args)"
  by pat_completeness auto
termination
  by (relation "measure length") (auto dest!: long_opt_shorter[OF sym] short_opts_shorter[OF sym])

section \<open>The program\<close>

text \<open>\<open>atoi\<close>: white space, a sign, digits; the value is clamped to 64 bits and cut to 32.\<close>

definition is_space :: "char \<Rightarrow> bool" where
  "is_space c \<longleftrightarrow> c \<in> {CHR '' '', CHR 0x09, CHR 0x0A, CHR 0x0B, CHR 0x0C, CHR 0x0D}"

definition atoi :: "string \<Rightarrow> int" where
  "atoi s =
     (let s = dropWhile is_space s;
          neg = (s \<noteq> [] \<and> hd s = CHR ''-'');
          s = (if s \<noteq> [] \<and> hd s \<in> {CHR ''-'', CHR ''+''} then tl s else s);
          n = int (number_value 10 (takeWhile is_digit s));
          v = max (- (2 ^ 63)) (min (2 ^ 63 - 1) (if neg then - n else n))
      in sint (of_int v :: dword))"

record options =
  fixed_buffer :: "int option"
  asm_path :: "string option"
  img_path :: "string option"
  errors :: nat

text \<open>The loop over the options; \<open>-h\<close> prints the usage and exits at once.\<close>

fun read_options :: "opt list \<Rightarrow> options \<Rightarrow> stop + options" where
  "read_options [] opts = Inr opts"
| "read_options (Opt L_f optarg # ps) opts = read_options ps (opts\<lparr>fixed_buffer := Some (atoi optarg)\<rparr>)"
| "read_options (Opt L_h optarg # ps) opts = Inl (Exit 0)"
| "read_options (Opt L_i optarg # ps) opts = read_options ps (opts\<lparr>img_path := Some optarg\<rparr>)"
| "read_options (Opt L_v optarg # ps) opts = read_options ps (opts\<lparr>asm_path := Some optarg\<rparr>)"
| "read_options (Unknown # ps) opts = read_options ps (opts\<lparr>errors := errors opts + 1\<rparr>)"

text \<open>The name of the output file and what is written to it.\<close>

definition vasm_argv_main ::
  "(nat \<Rightarrow> bool) \<Rightarrow> (string \<Rightarrow> string option) \<Rightarrow> (string \<Rightarrow> bool) \<Rightarrow> string list \<Rightarrow> stop + (string \<times> byte option list)" where
  "vasm_argv_main heap files writable argv =
     ubind (read_options (getopt_long (tl argv)) \<lparr>fixed_buffer = None, asm_path = None, img_path = None, errors = 0\<rparr>) (\<lambda>opts.
     if errors opts > 0 \<or> length argv < 3 then Inl (Exit 1)
     else
       case (asm_path opts, img_path opts) of
         (Some path, Some img) \<Rightarrow>
           (case files path of
              None \<Rightarrow> Inl (Exit (- 1))
            | Some yyin \<Rightarrow>
                ubind (vasm heap (fixed_buffer opts) yyin) (\<lambda>image.
                if writable img then Inr (img, image) else Inl (Exit 1)))
       | _ \<Rightarrow> Inl (Exit 1))"

section \<open>Options as they are written\<close>

text \<open>
  An option with an argument can be given by its letter or by its name or a beginning of it (the first
  letter and \<open>n\<close> more), with the argument in the next element or in the same one.
\<close>

datatype style = Long nat | Long_eq nat | Short | Short_joined

fun long_name :: "letter \<Rightarrow> string" where
  "long_name L_f = ''fixed-buffer''"
| "long_name L_h = ''help''"
| "long_name L_i = ''img''"
| "long_name L_v = ''asm''"

fun letter_char :: "letter \<Rightarrow> char" where
  "letter_char L_f = CHR ''f''"
| "letter_char L_h = CHR ''h''"
| "letter_char L_i = CHR ''i''"
| "letter_char L_v = CHR ''v''"

fun render :: "style \<times> letter \<times> string \<Rightarrow> string list" where
  "render (Long n, l, a) = [''--'' @ take (Suc n) (long_name l), a]"
| "render (Long_eq n, l, a) = [''--'' @ take (Suc n) (long_name l) @ ''='' @ a]"
| "render (Short, l, a) = [[CHR ''-'', letter_char l], a]"
| "render (Short_joined, l, a) = [CHR ''-'' # letter_char l # a]"

fun writable_opt :: "style \<times> letter \<times> string \<Rightarrow> bool" where
  "writable_opt (st, l, a) \<longleftrightarrow> l \<noteq> L_h \<and> (st = Short_joined \<longrightarrow> a \<noteq> [])"

text \<open>The argument that counts is the last one.\<close>

definition given :: "letter \<Rightarrow> (style \<times> letter \<times> string) list \<Rightarrow> string option" where
  "given l os = map_of (rev (map snd os)) l"

lemma names_found:
  "list_all (\<lambda>l. list_all (\<lambda>n. find_long (take (Suc n) (long_name l)) = Some l) [0..<12] \<and>
     length (long_name l) \<le> 12 \<and> list_all (\<lambda>c. c \<noteq> CHR ''='') (long_name l)) [L_f, L_h, L_i, L_v]"
  by code_simp

lemma name_found:
  "find_long (take (Suc n) (long_name l)) = Some l" "CHR ''='' \<notin> set (take (Suc n) (long_name l))"
  "\<exists>c s. take (Suc n) (long_name l) = c # s \<and> c \<noteq> CHR ''-''"
proof -
  have l: "l \<in> set [L_f, L_h, L_i, L_v]" by (cases l) auto
  then have short: "take (Suc n) (long_name l) = take (Suc (min n 11)) (long_name l)"
    using names_found by (auto simp: list_all_iff min_def)
  have "\<forall>n < 12. find_long (take (Suc n) (long_name l)) = Some l"
    using names_found by (cases l) (auto simp: list_all_iff)
  then show "find_long (take (Suc n) (long_name l)) = Some l" unfolding short by simp
  show "CHR ''='' \<notin> set (take (Suc n) (long_name l))"
    using names_found l by (auto simp: list_all_iff dest: in_set_takeD)
  show "\<exists>c s. take (Suc n) (long_name l) = c # s \<and> c \<noteq> CHR ''-''" by (cases l) simp_all
qed

lemma takeWhile_before: "c \<notin> set s \<Longrightarrow> takeWhile (\<lambda>d. d \<noteq> c) (s @ c # a) = s"
  by (induction s) auto

lemma long_opt_name:
  assumes "l \<noteq> L_h" and "CHR ''='' \<notin> set s" and "find_long s = Some l"
  shows "long_opt s (a # args) = (Opt l a, args)" "long_opt (s @ CHR ''='' # a) args = (Opt l a, args)"
proof -
  have all: "takeWhile (\<lambda>c. c \<noteq> CHR ''='') s = s" using assms(2) by (auto simp: takeWhile_eq_all_conv)
  have cut: "takeWhile (\<lambda>c. c \<noteq> CHR ''='') (s @ CHR ''='' # a) = s" using assms(2) by (rule takeWhile_before)
  show "long_opt s (a # args) = (Opt l a, args)" "long_opt (s @ CHR ''='' # a) args = (Opt l a, args)"
    using assms(1,3) by (simp_all add: long_opt_def next_arg_def Let_def all cut)
qed

lemma short_found: "map_of short_options (letter_char l) = Some l" "letter_char l \<noteq> CHR ''-''"
  by (cases l; simp add: short_options_def)+

lemma getopt_render: "writable_opt (st, l, a) \<Longrightarrow> getopt_long (render (st, l, a) @ args) = Opt l a # getopt_long args"
proof (cases st)
  case (Long n)
  assume "writable_opt (st, l, a)"
  moreover obtain c s where "take (Suc n) (long_name l) = c # s" "c \<noteq> CHR ''-''" using name_found(3) by blast
  ultimately show ?thesis using Long long_opt_name(1)[OF _ name_found(2,1)[of n l]] by simp
next
  case (Long_eq n)
  assume "writable_opt (st, l, a)"
  moreover obtain c s where "take (Suc n) (long_name l) = c # s" "c \<noteq> CHR ''-''" using name_found(3) by blast
  ultimately show ?thesis using Long_eq long_opt_name(2)[OF _ name_found(2,1)[of n l]] by simp
qed (simp_all add: short_found next_arg_def)

abbreviation opt_of :: "style \<times> letter \<times> string \<Rightarrow> opt" where
  "opt_of \<equiv> \<lambda>(st, l, a). Opt l a"

lemma getopt_rendered:
  "list_all writable_opt os \<Longrightarrow> getopt_long (concat (map render os) @ args) = map opt_of os @ getopt_long args"
  by (induction os) (auto simp: getopt_render)

lemma read_given:
  "list_all writable_opt os \<Longrightarrow> read_options (map opt_of os @ ps) opts = read_options ps (opts\<lparr>
     fixed_buffer := (case given L_f os of None \<Rightarrow> fixed_buffer opts | Some a \<Rightarrow> Some (atoi a)),
     asm_path := (case given L_v os of None \<Rightarrow> asm_path opts | Some a \<Rightarrow> Some a),
     img_path := (case given L_i os of None \<Rightarrow> img_path opts | Some a \<Rightarrow> Some a)\<rparr>)"
proof (induction os arbitrary: opts)
  case Nil
  then show ?case by (simp add: given_def)
next
  case (Cons p os)
  obtain st l a where p: "p = (st, l, a)" by (cases p)
  then show ?case using Cons
    by (cases l) (simp_all add: given_def map_add_def map_of_append split: option.splits)
qed

lemma read_all:
  assumes "list_all writable_opt os"
  shows "read_options (map opt_of os) \<lparr>fixed_buffer = None, asm_path = None, img_path = None, errors = 0\<rparr> =
    Inr \<lparr>fixed_buffer = map_option atoi (given L_f os), asm_path = given L_v os, img_path = given L_i os, errors = 0\<rparr>"
  using read_given[OF assms, of "[]"]
  by (cases "given L_v os"; cases "given L_i os"; cases "given L_f os") simp_all

lemma render_pos: "1 \<le> length (render p)"
  by (cases p rule: render.cases) auto

lemma both_given: "given L_v os \<noteq> None \<Longrightarrow> given L_i os \<noteq> None \<Longrightarrow> 2 \<le> length (concat (map render os))"
proof -
  have len: "length os \<le> length (concat (map render os))" for os
  proof (induction os)
    case (Cons p os)
    then show ?case using render_pos[of p] by simp
  qed simp
  assume "given L_v os \<noteq> None" and "given L_i os \<noteq> None"
  then obtain a b where "given L_v os = Some a" "given L_i os = Some b" by blast
  then have "(L_v, a) \<in> set (map snd os)" "(L_i, b) \<in> set (map snd os)"
    by (auto simp: given_def dest!: map_of_SomeD)
  then have "os \<noteq> []" "length os \<noteq> 1" by (auto simp: length_Suc_conv)
  then have "2 \<le> length os" by (cases os) (auto simp: Suc_le_eq)
  then show ?thesis using len[of os] by simp
qed

section \<open>Help and errors\<close>

text \<open>An element that asks for help: the letter, alone or before others, or a beginning of the name.\<close>

definition asks_help :: "string \<Rightarrow> bool" where
  "asks_help h \<longleftrightarrow> take 2 h = ''-h'' \<or> (\<exists>n. h = ''--'' @ take (Suc n) ''help'')"

text \<open>An element that is no option: a letter other than the four, or a name that begins none of theirs.\<close>

definition no_option :: "string \<Rightarrow> bool" where
  "no_option u \<longleftrightarrow> (\<exists>c. u = [CHR ''-'', c] \<and> c \<notin> set ''fhiv-'') \<or>
     (\<exists>s. u = ''--'' @ s \<and> s \<noteq> [] \<and> CHR ''='' \<notin> set s \<and> (\<forall>l n. s \<noteq> take n (long_name l)))"

lemma long_opt_bare:
  assumes "CHR ''='' \<notin> set s"
  shows "long_opt s args =
    (case find_long s of
       None \<Rightarrow> (Unknown, args)
     | Some l \<Rightarrow> if l = L_h then (Opt L_h [], args) else next_arg l args)"
proof -
  have all: "takeWhile (\<lambda>c. c \<noteq> CHR ''='') s = s" using assms by (auto simp: takeWhile_eq_all_conv)
  show ?thesis by (simp add: long_opt_def Let_def all split: option.split)
qed

lemma getopt_help:
  assumes "asks_help h"
  shows "\<exists>ps. getopt_long (h # args) = Opt L_h [] # ps"
proof (cases "take 2 h = ''-h''")
  case True
  then obtain s where h: "h = ''-h'' @ s" by (metis append_take_drop_id)
  obtain os rest where "short_opts s args = (os, rest)" by fastforce
  then show ?thesis by (simp add: h short_options_def)
next
  case False
  then obtain n where h: "h = ''--'' @ take (Suc n) (long_name L_h)" using assms by (auto simp: asks_help_def)
  note name = name_found[of n L_h]
  have "long_opt (take (Suc n) (long_name L_h)) args = (Opt L_h [], args)"
    unfolding long_opt_bare[OF name(2)] name(1) by simp
  moreover have "take (Suc n) (long_name L_h) \<noteq> []" by simp
  ultimately show ?thesis unfolding h by simp
qed

lemma find_long_none: "\<forall>l n. s \<noteq> take n (long_name l) \<Longrightarrow> find_long s = None"
proof -
  assume none: "\<forall>l n. s \<noteq> take n (long_name l)"
  have names: "long_options = [(long_name L_i, L_i), (long_name L_v, L_v), (long_name L_h, L_h), (long_name L_f, L_f)]"
    by (simp add: long_options_def)
  have "s \<noteq> long_name l" for l using none[rule_format, of "length (long_name l)" l] by simp
  moreover have "take (length s) (long_name l) \<noteq> s" for l using none by metis
  ultimately show ?thesis unfolding find_long_def names by (simp del: long_name.simps)
qed

lemma getopt_unknown:
  assumes "no_option u"
  shows "getopt_long (u # args) = Unknown # getopt_long args"
proof -
  consider c where "u = [CHR ''-'', c]" "c \<notin> set ''fhiv-''"
    | s where "u = ''--'' @ s" "s \<noteq> []" "CHR ''='' \<notin> set s" "\<forall>l n. s \<noteq> take n (long_name l)"
    using assms by (auto simp: no_option_def)
  then show ?thesis
  proof cases
    case 1
    then show ?thesis by (simp add: short_options_def)
  next
    case (2 s)
    then have "long_opt s args = (Unknown, args)"
      using find_long_none[OF 2(4)] by (simp add: long_opt_bare)
    then show ?thesis using 2(1,2) by simp
  qed
qed

lemma getopt_lacks: "l \<noteq> L_h \<Longrightarrow> getopt_long [[CHR ''-'', letter_char l]] = [Unknown]"
  using short_found[of l] by (simp add: next_arg_def)

lemma read_unknown:
  assumes "list_all writable_opt os" and "list_all writable_opt os'"
  shows "\<exists>opts'. read_options (map opt_of os @ Unknown # map opt_of os') opts = Inr opts' \<and> 0 < errors opts'"
  using read_given[OF assms(1), of "Unknown # map opt_of os'"] read_given[OF assms(2), of "[]"] by simp

section \<open>Properties\<close>

text \<open>
  C38. The command line: however the options are written (letters or names, cut short or not, the argument
  in the same element or the next) and in whatever order, the program assembles the text of the last
  input file named, with the last buffer size given, and writes the image to the last output file named.
  It exits with 1 when one of the two files is not named or the output cannot be opened and with -1 when
  the input cannot. Behind any such options, every way to ask for help (-h, alone or with more behind it, --help
  and its beginnings) ends it at once with 0, whatever follows; a letter other than the four, a name that
  begins none of theirs, wherever it stands, or a last option without its argument ends it with 1.
\<close>

theorem vasm_command_line:
  assumes "list_all writable_opt os"
  shows "vasm_argv_main heap files writable (prog # concat (map render os)) =
      (case (given L_v os, given L_i os) of
         (Some path, Some img) \<Rightarrow>
           (case files path of
              None \<Rightarrow> Inl (Exit (- 1))
            | Some yyin \<Rightarrow>
                ubind (vasm heap (map_option atoi (given L_f os)) yyin) (\<lambda>image.
                if writable img then Inr (img, image) else Inl (Exit 1)))
       | _ \<Rightarrow> Inl (Exit 1)) \<and>
    (\<forall>h args. asks_help h \<longrightarrow>
       vasm_argv_main heap files writable (prog # concat (map render os) @ h # args) = Inl (Exit 0)) \<and>
    (\<forall>u os'. no_option u \<and> list_all writable_opt os' \<longrightarrow>
       vasm_argv_main heap files writable (prog # concat (map render os) @ u # concat (map render os')) = Inl (Exit 1)) \<and>
    (\<forall>l. l \<noteq> L_h \<longrightarrow>
       vasm_argv_main heap files writable (prog # concat (map render os) @ [[CHR ''-'', letter_char l]]) = Inl (Exit 1))"
proof (intro conjI allI impI)
  note read = read_given[OF assms] and get = getopt_rendered[OF assms]
  show "vasm_argv_main heap files writable (prog # concat (map render os)) =
      (case (given L_v os, given L_i os) of
         (Some path, Some img) \<Rightarrow>
           (case files path of
              None \<Rightarrow> Inl (Exit (- 1))
            | Some yyin \<Rightarrow>
                ubind (vasm heap (map_option atoi (given L_f os)) yyin) (\<lambda>image.
                if writable img then Inr (img, image) else Inl (Exit 1)))
       | _ \<Rightarrow> Inl (Exit 1))"
    using read_all[OF assms] get[of "[]"] both_given[of os]
    by (cases "given L_v os"; cases "given L_i os") (simp_all add: vasm_argv_main_def not_less cong: option.case_cong)
next
  fix h args assume "asks_help h"
  then obtain ps where "getopt_long (h # args) = Opt L_h [] # ps" using getopt_help by blast
  then show "vasm_argv_main heap files writable (prog # concat (map render os) @ h # args) = Inl (Exit 0)"
    using read_given[OF assms, of "Opt L_h [] # ps"] getopt_rendered[OF assms, of "h # args"]
    by (simp add: vasm_argv_main_def)
next
  fix u os' assume u: "no_option u \<and> list_all writable_opt os'"
  then have "getopt_long (u # concat (map render os')) = Unknown # map opt_of os'"
    using getopt_unknown[of u] getopt_rendered[of os' "[]"] by simp
  then show "vasm_argv_main heap files writable (prog # concat (map render os) @ u # concat (map render os')) = Inl (Exit 1)"
    using getopt_rendered[OF assms, of "u # concat (map render os')"]
      read_unknown[OF assms conjunct2[OF u], of "\<lparr>fixed_buffer = None, asm_path = None, img_path = None, errors = 0\<rparr>"]
    by (auto simp: vasm_argv_main_def)
next
  fix l assume "l \<noteq> L_h"
  then show "vasm_argv_main heap files writable (prog # concat (map render os) @ [[CHR ''-'', letter_char l]]) = Inl (Exit 1)"
    using getopt_rendered[OF assms, of "[[CHR ''-'', letter_char l]]"] getopt_lacks[of l]
      read_unknown[OF assms, of "[]" "\<lparr>fixed_buffer = None, asm_path = None, img_path = None, errors = 0\<rparr>"]
    by (auto simp: vasm_argv_main_def)
qed

theorem vasm_command_line_witness:
  "vasm_argv_main (\<lambda>n. True) [''a.V'' \<mapsto> ''x''] (\<lambda>f. True) [''vasm'', ''--im=a.img'', ''-v'', ''b.V'', ''-va.V''] =
     ubind (vasm (\<lambda>n. True) None ''x'') (\<lambda>image. Inr (''a.img'', image)) \<and>
   vasm_argv_main (\<lambda>n. True) Map.empty (\<lambda>f. True) [''vasm'', ''-v'', ''b.V'', ''--hel'', ''-q''] = Inl (Exit 0) \<and>
   vasm_argv_main (\<lambda>n. True) Map.empty (\<lambda>f. True) [''vasm'', ''-v'', ''b.V'', ''-q'', ''-ia.img''] = Inl (Exit 1)"
proof (intro conjI)
  show "vasm_argv_main (\<lambda>n. True) [''a.V'' \<mapsto> ''x''] (\<lambda>f. True) [''vasm'', ''--im=a.img'', ''-v'', ''b.V'', ''-va.V''] =
     ubind (vasm (\<lambda>n. True) None ''x'') (\<lambda>image. Inr (''a.img'', image))"
    using vasm_command_line[of "[(Long_eq 1, L_i, ''a.img''), (Short, L_v, ''b.V''), (Short_joined, L_v, ''a.V'')]"
        "\<lambda>n. True" "[''a.V'' \<mapsto> ''x'']" "\<lambda>f. True" "''vasm''"]
    by (simp add: given_def)
  have "list_all writable_opt [(Short, L_v, ''b.V'')]" by simp
  note one = vasm_command_line[OF this, of "\<lambda>n. True" Map.empty "\<lambda>f. True" "''vasm''"]
  have "asks_help ''--hel''" unfolding asks_help_def by (intro disjI2 exI[of _ 2]) simp
  then show "vasm_argv_main (\<lambda>n. True) Map.empty (\<lambda>f. True) [''vasm'', ''-v'', ''b.V'', ''--hel'', ''-q''] = Inl (Exit 0)"
    using one by simp
  have "no_option ''-q''" by (simp add: no_option_def)
  moreover have "list_all writable_opt [(Short_joined, L_i, ''a.img'')]" by simp
  ultimately have "vasm_argv_main (\<lambda>n. True) Map.empty (\<lambda>f. True)
      (''vasm'' # concat (map render [(Short, L_v, ''b.V'')]) @ ''-q'' # concat (map render [(Short_joined, L_i, ''a.img'')])) =
    Inl (Exit 1)"
    using one by blast
  then show "vasm_argv_main (\<lambda>n. True) Map.empty (\<lambda>f. True) [''vasm'', ''-v'', ''b.V'', ''-q'', ''-ia.img''] = Inl (Exit 1)"
    by simp
qed

end
