(* ===== verification/Dump.thy ===== *)
theory Dump
  imports Contexts
begin

text \<open>
  The register dump, \<^verbatim>\<open>src/cpu/dump.c\<close>: the text that it prints for a state.
\<close>

unbundle bit_operations_syntax

section \<open>Text\<close>

text \<open>The conversion \<open>%08x\<close> of a 32-bit value: eight digits.\<close>

definition fmt_08x :: "dword \<Rightarrow> string" where
  "fmt_08x v = map (\<lambda>k. hex_digit (unat v div 16 ^ k)) [7, 6, 5, 4, 3, 2, 1, 0]"

definition dump_flags :: "dword \<Rightarrow> string" where
  "dump_flags f =
     (if f AND FLGS_O \<noteq> 0 then ''O'' else ''-'') @
     (if f AND FLGS_C \<noteq> 0 then ''C'' else ''-'') @
     (if f AND FLGS_Z \<noteq> 0 then ''Z'' else ''-'') @
     (if f AND FLGS_S \<noteq> 0 then ''S'' else ''-'')"

definition dump_registers :: "emulator_context \<Rightarrow> string" where
  "dump_registers s =
     ''[REG] :: R0 = '' @ fmt_08x (reg_of s CPU_REG_R0) @
     '', R1 = '' @ fmt_08x (reg_of s CPU_REG_R1) @
     '', R2 = '' @ fmt_08x (reg_of s CPU_REG_R2) @ [CHR 0x0A] @
     ''[REG] :: R3 = '' @ fmt_08x (reg_of s CPU_REG_R3) @
     '', R4 = '' @ fmt_08x (reg_of s CPU_REG_R4) @
     '', R5 = '' @ fmt_08x (reg_of s CPU_REG_R5) @ [CHR 0x0A] @
     ''[REG] :: R6 = '' @ fmt_08x (reg_of s CPU_REG_R6) @
     '', R7 = '' @ fmt_08x (reg_of s CPU_REG_R7) @
     '', R8 = '' @ fmt_08x (reg_of s CPU_REG_R8) @ [CHR 0x0A] @
     ''[REG] :: R9= '' @ fmt_08x (reg_of s CPU_REG_R9) @
     '', RA = '' @ fmt_08x (reg_of s CPU_REG_RA) @
     '', RB = '' @ fmt_08x (reg_of s CPU_REG_RB) @
     '', RC = '' @ fmt_08x (reg_of s CPU_REG_RC) @ [CHR 0x0A] @
     ''[REG] :: BP = '' @ fmt_08x (reg_of s CPU_REG_BP) @
     '', SP = '' @ fmt_08x (reg_of s CPU_REG_SP) @
     '', FLGS = '' @ fmt_08x (reg_of s CPU_REG_FLGS) @ [CHR 0x0A] @
     '' Flags: '' @ dump_flags (reg_of s CPU_REG_FLGS) @ [CHR 0x0A] @
     ''[REG] :: CR1 = '' @ fmt_08x (creg_of s CPU_CREG_CR1) @
     '', CR2 = '' @ fmt_08x (creg_of s CPU_CREG_CR2) @
     '', SSP = '' @ fmt_08x (creg_of s CPU_CREG_SSP) @ [CHR 0x0A] @
     ''[REG] :: MR1 = '' @ fmt_08x (creg_of s CPU_CREG_MR1) @
     '', MR2 = '' @ fmt_08x (creg_of s CPU_CREG_MR2) @
     '', MR3 = '' @ fmt_08x (creg_of s CPU_CREG_MR3) @
     '', MR4 = '' @ fmt_08x (creg_of s CPU_CREG_MR4) @ [CHR 0x0A]"

section \<open>Reading a dump\<close>

lemma fmt_08x_inj: "fmt_08x v = fmt_08x w \<longleftrightarrow> v = w"
proof
  assume eq: "fmt_08x v = fmt_08x w"
  have "unat v div 16 ^ k mod 16 = unat w div 16 ^ k mod 16" if "k < 8" for k
  proof -
    have "k \<in> set [7, 6, 5, 4, 3, 2, 1, 0]" using that by simp presburger
    then show ?thesis using eq unfolding fmt_08x_def map_eq_conv hex_digit_eq by blast
  qed
  then have "unat v mod 16 ^ 8 = unat w mod 16 ^ 8" by (rule digits_determine)
  then show "v = w" using unat_dword_less[of v] unat_dword_less[of w] by (simp add: word_unat_eq_iff)
qed simp

text \<open>Every field has a fixed width, so a text that begins with it can be split in one way only.\<close>

lemma fields_split:
  "fmt_08x v @ xs = fmt_08x w @ ys \<longleftrightarrow> v = w \<and> xs = ys"
  "dump_flags v @ xs = dump_flags w @ ys \<longleftrightarrow> dump_flags v = dump_flags w \<and> xs = ys"
proof -
  have "length (fmt_08x v) = 8" "length (dump_flags f) = 4" for v f by (simp_all add: fmt_08x_def dump_flags_def)
  then show "fmt_08x v @ xs = fmt_08x w @ ys \<longleftrightarrow> v = w \<and> xs = ys"
    "dump_flags v @ xs = dump_flags w @ ys \<longleftrightarrow> dump_flags v = dump_flags w \<and> xs = ys"
    by (simp_all add: fmt_08x_inj)
qed

section \<open>A reader\<close>

text \<open>
  What someone reads off a dump, written without regard to how it is made: the text behind the first
  occurrence of a label, and the number that eight hexadecimal digits stand for.
\<close>

fun strip :: "string \<Rightarrow> string \<Rightarrow> string option" where
  "strip [] t = Some t"
| "strip (c # p) [] = None"
| "strip (c # p) (d # t) = (if c = d then strip p t else None)"

fun behind :: "string \<Rightarrow> string \<Rightarrow> string option" where
  "behind p [] = strip p []"
| "behind p (c # t) = (case strip p (c # t) of Some r \<Rightarrow> Some r | None \<Rightarrow> behind p t)"

definition hex_value :: "string \<Rightarrow> nat" where
  "hex_value ds = foldl (\<lambda>n c. 16 * n + length (takeWhile (\<lambda>d. d \<noteq> c) ''0123456789abcdef'')) 0 ds"

definition shown :: "string \<Rightarrow> string \<Rightarrow> nat option" where
  "shown label t = map_option (\<lambda>r. hex_value (take 8 r)) (behind ('' '' @ label) t)"

text \<open>The labels of the registers, that of \<open>R9\<close> written without a space.\<close>

definition reg_labels :: "(string \<times> byte) list" where
  "reg_labels = [(''R0 = '', CPU_REG_R0), (''R1 = '', CPU_REG_R1), (''R2 = '', CPU_REG_R2), (''R3 = '', CPU_REG_R3),
     (''R4 = '', CPU_REG_R4), (''R5 = '', CPU_REG_R5), (''R6 = '', CPU_REG_R6), (''R7 = '', CPU_REG_R7),
     (''R8 = '', CPU_REG_R8), (''R9= '', CPU_REG_R9), (''RA = '', CPU_REG_RA), (''RB = '', CPU_REG_RB),
     (''RC = '', CPU_REG_RC), (''BP = '', CPU_REG_BP), (''SP = '', CPU_REG_SP), (''FLGS = '', CPU_REG_FLGS)]"

definition creg_labels :: "(string \<times> byte) list" where
  "creg_labels = [(''CR1 = '', CPU_CREG_CR1), (''CR2 = '', CPU_CREG_CR2), (''SSP = '', CPU_CREG_SSP),
     (''MR1 = '', CPU_CREG_MR1), (''MR2 = '', CPU_CREG_MR2), (''MR3 = '', CPU_CREG_MR3), (''MR4 = '', CPU_CREG_MR4)]"

lemma hex_index: "length (takeWhile (\<lambda>d. d \<noteq> hex_digit n) ''0123456789abcdef'') = n mod 16"
proof -
  have "list_all (\<lambda>n. length (takeWhile (\<lambda>d. d \<noteq> hex_digit n) ''0123456789abcdef'') = n) [0..<16]" by code_simp
  moreover have "hex_digit n = hex_digit (n mod 16)" by (simp add: hex_digit_def)
  ultimately show ?thesis by (simp add: list_all_iff)
qed

lemma hex_value_digits: "hex_value (map (\<lambda>k. hex_digit (n div 16 ^ k)) (rev [0..<m])) = n mod 16 ^ m"
proof (induction m arbitrary: n)
  case (Suc m)
  have "map (\<lambda>k. hex_digit (n div 16 ^ k)) (rev [0..<Suc m]) =
      map (\<lambda>k. hex_digit (n div 16 div 16 ^ k)) (rev [0..<m]) @ [hex_digit n]"
    by (simp add: upt_conv_Cons map_Suc_upt[symmetric] rev_map div_mult2_eq comp_def del: upt_Suc)
  then have "hex_value (map (\<lambda>k. hex_digit (n div 16 ^ k)) (rev [0..<Suc m])) = 16 * (n div 16 mod 16 ^ m) + n mod 16"
    using Suc.IH[of "n div 16"] hex_index by (simp add: hex_value_def)
  then show ?case using mod_mult2_eq[of n 16 "16 ^ m"] by simp
qed (simp add: hex_value_def)

lemma hex_value_fmt: "hex_value (fmt_08x v) = unat v"
proof -
  have "fmt_08x v = map (\<lambda>k. hex_digit (unat v div 16 ^ k)) (rev [0..<8])"
    by (simp add: fmt_08x_def upt_rec)
  then show ?thesis using hex_value_digits[of "unat v" 8] unat_dword_less[of v] by simp
qed

text \<open>A label is not found in digits or flags.\<close>

lemma fmt_chars: "set (fmt_08x v) \<subseteq> set ''0123456789abcdef''"
proof -
  have "hex_digit n \<in> set ''0123456789abcdef''" for n
    unfolding hex_digit_def by (rule nth_mem) simp
  then show ?thesis by (auto simp: fmt_08x_def)
qed

lemma flag_chars: "set (dump_flags f) \<subseteq> set ''OCZS-''"
  by (simp add: dump_flags_def)

lemma strip_other: "ys \<noteq> [] \<Longrightarrow> c \<notin> set ys \<Longrightarrow> strip (c # p) (ys @ xs) = None"
  by (cases ys) auto

lemma behind_other: "c \<notin> set ys \<Longrightarrow> behind (c # p) (ys @ xs) = behind (c # p) xs"
  by (induction ys) auto

lemma strip_fields:
  "c \<notin> set ''0123456789abcdef'' \<Longrightarrow> strip (c # p) (fmt_08x v @ xs) = None"
  "c \<notin> {CHR ''O'', CHR ''-''} \<Longrightarrow> strip (c # p) (dump_flags f @ xs) = None"
proof -
  show "c \<notin> set ''0123456789abcdef'' \<Longrightarrow> strip (c # p) (fmt_08x v @ xs) = None"
  proof (rule strip_other)
    show "fmt_08x v \<noteq> []" by (simp add: fmt_08x_def)
  qed (use fmt_chars[of v] in blast)
  show "c \<notin> {CHR ''O'', CHR ''-''} \<Longrightarrow> strip (c # p) (dump_flags f @ xs) = None"
    by (auto simp: dump_flags_def)
qed

lemma behind_fields:
  "c \<notin> set ''0123456789abcdef'' \<Longrightarrow> behind (c # p) (fmt_08x v @ xs) = behind (c # p) xs"
  "c \<notin> set ''OCZS-'' \<Longrightarrow> behind (c # p) (dump_flags f @ xs) = behind (c # p) xs"
  using fmt_chars[of v] flag_chars[of f] by (blast intro: behind_other)+

lemma field_lengths: "length (fmt_08x v) = 8" "length (dump_flags f) = 4"
  by (simp_all add: fmt_08x_def dump_flags_def)

text \<open>These facts alone find a label; nothing but the field is left then.\<close>

lemmas reader_simps = dump_registers_def shown_def append.simps append_assoc behind.simps strip.simps strip_fields
  behind_fields option.case if_True if_False char.inject simp_thms list.set insert_iff empty_iff

lemma labels_shown:
  "list_all (\<lambda>(l, r). shown l (dump_registers s) = Some (unat (reg_of s r))) reg_labels"
  "list_all (\<lambda>(l, r). shown l (dump_registers s) = Some (unat (creg_of s r))) creg_labels"
  unfolding reg_labels_def creg_labels_def list.pred_inject prod.case
  by (intro conjI TrueI; simp only: reader_simps; simp add: field_lengths hex_value_fmt)+

lemma flags_shown:
  "map_option (take 4) (behind ''Flags: '' (dump_registers s)) = Some (dump_flags (reg_of s CPU_REG_FLGS))"
  by (simp only: reader_simps; simp add: field_lengths)

section \<open>Properties\<close>

text \<open>
  C39. The dump can be read: behind the label of each of the sixteen registers and of the control registers
  \<open>CR1\<close>, \<open>CR2\<close>, \<open>SSP\<close> and \<open>MR1\<close> to \<open>MR4\<close> stand the eight hexadecimal digits of its value, and the line of the
  flags has the letters of overflow, carry, zero and sign, in this order, each exactly when its flag is set
  and a dash otherwise. The dump shows that and no more: two states have the same dump exactly when these
  registers agree.
\<close>

theorem dump_determines:
  "(\<forall>(label, r) \<in> set reg_labels. shown label (dump_registers s) = Some (unat (reg_of s r))) \<and>
   (\<forall>(label, r) \<in> set creg_labels. shown label (dump_registers s) = Some (unat (creg_of s r))) \<and>
   map_option (take 4) (behind ''Flags: '' (dump_registers s)) =
     Some (map (\<lambda>(c, m). if reg_of s CPU_REG_FLGS AND m \<noteq> 0 then c else CHR ''-'')
            [(CHR ''O'', FLGS_O), (CHR ''C'', FLGS_C), (CHR ''Z'', FLGS_Z), (CHR ''S'', FLGS_S)]) \<and>
   (dump_registers s = dump_registers t \<longleftrightarrow>
     (\<forall>r < 16. reg_of s r = reg_of t r) \<and>
     (\<forall>r \<in> {CPU_CREG_CR1, CPU_CREG_CR2, CPU_CREG_SSP, CPU_CREG_MR1, CPU_CREG_MR2, CPU_CREG_MR3, CPU_CREG_MR4}.
        creg_of s r = creg_of t r))"
proof (intro conjI)
  show "\<forall>(label, r) \<in> set reg_labels. shown label (dump_registers s) = Some (unat (reg_of s r))"
    "\<forall>(label, r) \<in> set creg_labels. shown label (dump_registers s) = Some (unat (creg_of s r))"
    using labels_shown[of s] by (simp_all only: list_all_iff)
  show "map_option (take 4) (behind ''Flags: '' (dump_registers s)) =
     Some (map (\<lambda>(c, m). if reg_of s CPU_REG_FLGS AND m \<noteq> 0 then c else CHR ''-'')
            [(CHR ''O'', FLGS_O), (CHR ''C'', FLGS_C), (CHR ''Z'', FLGS_Z), (CHR ''S'', FLGS_S)])"
    unfolding flags_shown by (simp add: dump_flags_def)
  show "dump_registers s = dump_registers t \<longleftrightarrow>
     (\<forall>r < 16. reg_of s r = reg_of t r) \<and>
     (\<forall>r \<in> {CPU_CREG_CR1, CPU_CREG_CR2, CPU_CREG_SSP, CPU_CREG_MR1, CPU_CREG_MR2, CPU_CREG_MR3, CPU_CREG_MR4}.
        creg_of s r = creg_of t r)"
    unfolding nibble_all nibbles_def dump_registers_def by (simp add: fields_split fmt_08x_inj) auto
qed

theorem dump_determines_witness:
  "dump_registers (sample_ectx 8) = dump_registers (upd_creg CPU_CREG_ST1 5 (sample_ectx 8)) \<and>
   shown ''RA = '' (dump_registers (upd_reg 10 171 (sample_ectx 8))) = Some 171"
proof
  have "wf (sample_ectx 8)" by simp
  then show "dump_registers (sample_ectx 8) = dump_registers (upd_creg CPU_CREG_ST1 5 (sample_ectx 8))"
    using dump_determines[of "sample_ectx 8" "upd_creg CPU_CREG_ST1 5 (sample_ectx 8)"] by (simp add: ectx_simps)
  have "(''RA = '', CPU_REG_RA) \<in> set reg_labels" by (simp add: reg_labels_def)
  then have "shown ''RA = '' (dump_registers (upd_reg 10 171 (sample_ectx 8))) =
      Some (unat (reg_of (upd_reg 10 171 (sample_ectx 8)) CPU_REG_RA))"
    using conjunct1[OF dump_determines[of "upd_reg 10 171 (sample_ectx 8)" "sample_ectx 8"]] by blast
  then show "shown ''RA = '' (dump_registers (upd_reg 10 171 (sample_ectx 8))) = Some 171"
    by (simp add: reg_of_upd)
qed

end
