(* ===== verification/Texts.thy ===== *)
theory Texts
  imports Reassemble Dump
begin

text \<open>
  What texts can say: the tokens that the lexer makes carry names of their kind only, and every list
  of such tokens, so every program of well-typed statements, has a text.
\<close>

section \<open>Typed tokens and statements\<close>

definition ident_start :: "char \<Rightarrow> bool" where
  "ident_start c \<longleftrightarrow> letter c \<or> c = CHR ''_''"

text \<open>An identifier as the lexer delivers it: an underscore, one more letter or underscore, then digits as well.\<close>

definition ident :: "string \<Rightarrow> bool" where
  "ident n \<longleftrightarrow> take 1 n = ''_'' \<and> list_ex ident_start (take 1 (drop 1 n)) \<and>
     list_all (\<lambda>c. ident_start c \<or> is_digit c) (drop 1 n)"

definition mnemonic :: "op_class \<Rightarrow> string \<Rightarrow> bool" where
  "mnemonic k op \<longleftrightarrow> list_ex (\<lambda>(k', ws). k' = k \<and> op \<in> set ws) op_names"

fun reg_name :: "reg_class \<Rightarrow> string \<Rightarrow> bool" where
  "reg_name Reg32 r \<longleftrightarrow> r \<in> set REG32_names"
| "reg_name Reg16 r \<longleftrightarrow> r \<in> set REG16_names"
| "reg_name Reg8 r \<longleftrightarrow> r \<in> set REG8_names"

definition creg_name :: "string \<Rightarrow> bool" where
  "creg_name r \<longleftrightarrow> r \<in> set CREG_names"

fun typed_token :: "token \<Rightarrow> bool" where
  "typed_token (REG32 r) \<longleftrightarrow> reg_name Reg32 r"
| "typed_token (REG16 r) \<longleftrightarrow> reg_name Reg16 r"
| "typed_token (REG8 r) \<longleftrightarrow> reg_name Reg8 r"
| "typed_token (CREG r) \<longleftrightarrow> creg_name r"
| "typed_token (OP k op) \<longleftrightarrow> mnemonic k op"
| "typed_token (CONDITION c) \<longleftrightarrow> cond_ok (Some c)"
| "typed_token (IDENT n) \<longleftrightarrow> ident n"
| "typed_token t \<longleftrightarrow> True"

definition regs32 :: "string list \<Rightarrow> bool" where
  "regs32 rs \<longleftrightarrow> list_all (reg_name Reg32) rs"

fun typed_fmt :: "fmt_exp \<Rightarrow> bool" where
  "typed_fmt (Fmt_I op c) \<longleftrightarrow> mnemonic OP_FMT_I op \<and> cond_ok c"
| "typed_fmt (Fmt_II op c d a b) \<longleftrightarrow> mnemonic OP_FMT_II op \<and> cond_ok c \<and> regs32 [d, a, b]"
| "typed_fmt (Fmt_II_imm op c d a i) \<longleftrightarrow> mnemonic OP_FMT_II op \<and> cond_ok c \<and> regs32 [d, a]"
| "typed_fmt (Fmt_IV op c d i) \<longleftrightarrow> mnemonic OP_FMT_IV op \<and> cond_ok c \<and> regs32 [d]"
| "typed_fmt (Fmt_V op c d) \<longleftrightarrow> mnemonic OP_FMT_V op \<and> cond_ok c \<and> regs32 [d]"
| "typed_fmt (Fmt_VI op c a b) \<longleftrightarrow> mnemonic OP_FMT_VI op \<and> cond_ok c \<and> regs32 [a, b]"
| "typed_fmt (Fmt_VIC_creg_reg op c a b) \<longleftrightarrow> mnemonic OP_FMT_VIC op \<and> cond_ok c \<and> creg_name a \<and> regs32 [b]"
| "typed_fmt (Fmt_VIC_reg_creg op c a b) \<longleftrightarrow> mnemonic OP_FMT_VIC op \<and> cond_ok c \<and> regs32 [a] \<and> creg_name b"
| "typed_fmt (Fmt_VI_imm op c a i) \<longleftrightarrow> mnemonic OP_FMT_VI op \<and> cond_ok c \<and> regs32 [a]"
| "typed_fmt (Fmt_V_imm op c i) \<longleftrightarrow> mnemonic OP_FMT_V op \<and> cond_ok c"
| "typed_fmt (Fmt_VIII op c i) \<longleftrightarrow> mnemonic OP_FMT_VIII op \<and> cond_ok c"

fun typed_data :: "data_exp \<Rightarrow> bool" where
  "typed_data (Cmpxchg c d a b) \<longleftrightarrow> cond_ok c \<and> regs32 [d, a, b]"
| "typed_data (Loadi8 c d i) \<longleftrightarrow> cond_ok c \<and> reg_name Reg8 d"
| "typed_data (Loadi16 c d i) \<longleftrightarrow> cond_ok c \<and> reg_name Reg16 d"
| "typed_data (Loadid k c d a i) \<longleftrightarrow> cond_ok c \<and> reg_name k d \<and> regs32 [a]"
| "typed_data (Loadrd k c d a b) \<longleftrightarrow> cond_ok c \<and> reg_name k d \<and> regs32 [a, b]"
| "typed_data (Mov k op c a b) \<longleftrightarrow> op = ''MOV'' \<and> cond_ok c \<and> reg_name k a \<and> reg_name k b"
| "typed_data (Sex8 c a b) \<longleftrightarrow> cond_ok c \<and> regs32 [a] \<and> reg_name Reg8 b"
| "typed_data (Sex16 c a b) \<longleftrightarrow> cond_ok c \<and> regs32 [a] \<and> reg_name Reg16 b"
| "typed_data (Storeid k c d a i) \<longleftrightarrow> cond_ok c \<and> regs32 [d] \<and> reg_name k a"
| "typed_data (Storerd k c d a b) \<longleftrightarrow> cond_ok c \<and> regs32 [d, b] \<and> reg_name k a"
| "typed_data (Xchgc c a b) \<longleftrightarrow> cond_ok c \<and> regs32 [a] \<and> creg_name b"
| "typed_data (Storeas d) \<longleftrightarrow> regs32 [d]"
| "typed_data (Loadas d) \<longleftrightarrow> regs32 [d]"

fun typed_pseudo :: "pseudo_exp \<Rightarrow> bool" where
  "typed_pseudo (Loadadr c r n) \<longleftrightarrow> cond_ok c \<and> regs32 [r] \<and> ident n"
| "typed_pseudo (Ldcall c r n) \<longleftrightarrow> cond_ok c \<and> regs32 [r] \<and> ident n"
| "typed_pseudo (Ldjmp c r n) \<longleftrightarrow> cond_ok c \<and> regs32 [r] \<and> ident n"
| "typed_pseudo (Push c r) \<longleftrightarrow> cond_ok c \<and> regs32 [r]"
| "typed_pseudo (Pop c r) \<longleftrightarrow> cond_ok c \<and> regs32 [r]"
| "typed_pseudo (Load32 c r v) \<longleftrightarrow> cond_ok c \<and> regs32 [r]"

fun typed_directive :: "directive_exp \<Rightarrow> bool" where
  "typed_directive (Label n) \<longleftrightarrow> ident n"
| "typed_directive (Bytes bs) \<longleftrightarrow> bs \<noteq> []"
| "typed_directive d \<longleftrightarrow> True"

fun typed_exp :: "exp \<Rightarrow> bool" where
  "typed_exp (Fmt e) \<longleftrightarrow> typed_fmt e"
| "typed_exp (Data e) \<longleftrightarrow> typed_data e"
| "typed_exp (Pseudo e) \<longleftrightarrow> typed_pseudo e"
| "typed_exp (Directive e) \<longleftrightarrow> typed_directive e"
| "typed_exp e \<longleftrightarrow> True"

section \<open>Tokens are typed\<close>

lemma scan_rule:
  assumes "scan s = (n, a)" and "s \<noteq> []"
  shows "\<exists>f. (f, a) \<in> set rules \<and> f s = n \<and> 0 < n"
proof -
  have n: "n = longest rules s" and a: "a = snd (hd (filter (\<lambda>(f, a). f s = n) rules))"
    using assms(1) by (auto simp: scan_def Let_def)
  have "\<exists>x \<in> set rs. fst x s = longest rs s" if "0 < longest rs s" for rs :: "((string \<Rightarrow> nat) \<times> (string \<Rightarrow> lexeme)) list"
    using that
  proof (induction rs)
    case (Cons x rs)
    then show ?case by (cases x; cases "0 < longest rs s") (auto simp: max_def)
  qed simp
  from this[OF longest_rules_pos[OF assms(2)]] obtain x where "x \<in> set (filter (\<lambda>(f, a). f s = n) rules)"
    using n by (auto simp: case_prod_unfold)
  then have "hd (filter (\<lambda>(f, a). f s = n) rules) \<in> set (filter (\<lambda>(f, a). f s = n) rules)"
    by (metis hd_in_set empty_iff empty_set)
  then have "(fst (hd (filter (\<lambda>(f, a). f s = n) rules)), a) \<in> set rules" "fst (hd (filter (\<lambda>(f, a). f s = n) rules)) s = n"
    using a by (auto simp: case_prod_unfold)
  then show ?thesis using longest_rules_pos[OF assms(2)] n by blast
qed

lemma kw_upper: "kw w s = n \<Longrightarrow> 0 < n \<Longrightarrow> upper (take n s) = w"
  by (auto simp: kw_def upper_def split: if_splits)

lemma alts_upper: "alts ws s = n \<Longrightarrow> 0 < n \<Longrightarrow> upper (take n s) \<in> set ws"
  by (induction ws) (auto simp: max_def kw_upper split: if_splits)

lemma toupper_ident: "is_ident c \<Longrightarrow> ident_start (toupper c)" "is_digit c \<Longrightarrow> is_digit (toupper c)"
  by (auto simp: is_ident_def ident_start_def letter_def is_digit_def toupper_def)

lemma span_all: "list_all p (take (span p s) s)"
  by (simp add: span_def list_all_iff flip: takeWhile_eq_take) (meson set_takeWhileD)

lemma p_ident_upper:
  assumes "p_ident s = n" and "0 < n"
  shows "ident (upper (take n s))"
proof -
  let ?m = "span is_ident (drop 1 s)" and ?p = "\<lambda>c. is_ident c \<or> is_digit c"
  have kw: "kw ''_'' s = 1" and m: "0 < ?m" and n: "n = 1 + ?m + span ?p (drop (1 + ?m) s)"
    using assms by (auto simp: p_ident_def followed_def Let_def kw_def split: if_splits)
  obtain c t where s: "s = c # t" "toupper c = CHR ''_''" using kw by (cases s) (auto simp: kw_def split: if_splits)
  have take: "take n s = c # take ?m t @ take (span ?p (drop ?m t)) (drop ?m t)"
    using n s(1) by (simp add: take_add)
  have "list_all is_ident (take ?m t)" "list_all ?p (take (span ?p (drop ?m t)) (drop ?m t))"
    using span_all[of is_ident t] span_all[of ?p "drop ?m t"] s(1) by simp_all
  then have all: "list_all ident_start (map toupper (take ?m t))"
    "list_all (\<lambda>c. ident_start c \<or> is_digit c) (map toupper (take (span ?p (drop ?m t)) (drop ?m t)))"
    using toupper_ident unfolding list_all_iff set_map by blast+
  obtain d u where "map toupper (take ?m t) = d # u" using m s(1) by (cases "take ?m t") (auto simp: span_def)
  moreover have "upper (take n s) = CHR ''_'' # map toupper (take ?m t) @ map toupper (take (span ?p (drop ?m t)) (drop ?m t))"
    using s(2) by (simp add: take upper_def)
  ultimately show ?thesis using all by (auto simp: ident_def list_all_iff)
qed

lemma rule_typed:
  assumes "(f, a) \<in> set rules" and "f s = n" and "0 < n" and "a (take n s) = Token t"
  shows "typed_token t"
  using assms unfolding rules_set
proof (elim UnE imageE)
  fix wt assume "(f, a) = (case wt of (ws, t) \<Rightarrow> word_rule ws t)" "wt \<in> set word_classes"
  then obtain ws tk where w: "(ws, tk) \<in> set word_classes" "f = alts ws" "a = name_action tk"
    by (cases wt) (simp add: word_rule_def)
  then have "upper (take n s) \<in> set ws" "t = tk (upper (take n s))"
    using assms(2-4) alts_upper by (auto simp: name_action_def)
  then show "typed_token t" using w(1)
    by (fastforce simp: word_classes_def creg_name_def cond_ok_def mnemonic_def list_ex_iff)
next
  assume "(f, a) \<in> set other_rules"
  then show "typed_token t" using assms(2-4) p_ident_upper[of s n]
    by (auto simp: other_rules_def action_defs directive_rule_def number_def split: sum.splits)
qed

lemma lex_typed: "Inr t \<in> set (lex s) \<Longrightarrow> typed_token t"
proof (induction s rule: lex.induct)
  case (1 s)
  show ?case
  proof (cases "s = []")
    case False
    obtain n a where sc: "scan s = (n, a)" by fastforce
    from scan_rule[OF this False] obtain f where f: "(f, a) \<in> set rules" "f s = n" "0 < n" by blast
    show ?thesis
    proof (cases "a (take n s)")
      case (Token u)
      then have "lex s = Inr u # lex (drop n s)" using lex_token[OF sc False] by simp
      then show ?thesis using 1 False sc Token rule_typed[OF f Token] by auto
    next
      case Comment
      then have "lex s = lex (drop n s)" using sc False by (subst lex.simps) simp
      then show ?thesis using 1 False sc Comment by auto
    next
      case (Reject e)
      then have "lex s = [Inl e]" using sc False by (subst lex.simps) simp
      then show ?thesis using 1 by simp
    qed
  qed (use 1 in simp)
qed

section \<open>A text for every list of typed tokens\<close>

fun token_text :: "token \<Rightarrow> string" where
  "token_text (T_INT i) = ''0x'' @ fmt_04x i"
| "token_text (T_INT32 d) = ''0x'' @ fmt_08x d"
| "token_text (IDENT n) = n"
| "token_text (REG32 r) = r"
| "token_text (REG16 r) = r"
| "token_text (REG8 r) = r"
| "token_text (CREG r) = r"
| "token_text (OP k op) = op"
| "token_text (CONDITION c) = c"
| "token_text COMMA = '',''"
| "token_text T_ENDL = [NL]"
| "token_text T_SPACE = '' ''"
| "token_text GARBAGE = ''?''"
| "token_text DIRECTIVE_ALIGN = ''.ALIGN ''"
| "token_text DIRECTIVE_LABEL = ''.LABEL ''"
| "token_text DIRECTIVE_OFFSET = ''.OFFSET ''"
| "token_text DIRECTIVE_BYTE = ''.BYTE ''"
| "token_text DIRECTIVE_WORD = ''.WORD ''"
| "token_text DIRECTIVE_DWORD = ''.DWORD ''"
| "token_text DIRECTIVE_AT = ''.AT ''"
| "token_text DIRECTIVE_BYTES = ''.BYTES''"
| "token_text DIRECTIVE_END = ''.END''"

text \<open>Behind each token an empty comment keeps it from growing together with the next one.\<close>

definition tokens_text :: "token list \<Rightarrow> string" where
  "tokens_text ts = concat (map (\<lambda>t. token_text t @ '';'' @ [NL]) ts)"

lemma semicolon [simp]:
  "toupper CHR '';'' = CHR '';''" "\<not> letter CHR '';''" "\<not> blank CHR '';''" "\<not> is_digit CHR '';''" "\<not> is_hex CHR '';''"
  "\<not> is_ident CHR '';''" "toupper CHR ''_'' = CHR ''_''" "toupper CHR ''.'' = CHR ''.''"
  by (simp_all add: toupper_def letter_def blank_def is_digit_def is_hex_def is_ident_def)

lemma stops_semicolon: "stops w CHR '';''"
  by (rule stops_char) simp_all

lemma lex_comment_line:
  assumes "NL \<notin> set c"
  shows "lex (CHR '';'' # c @ NL # rest) = lex rest"
proof -
  have "takeWhile (\<lambda>x. x \<noteq> NL) (c @ NL # rest) = c" using assms by (subst takeWhile_append2) auto
  then have n: "p_comment (CHR '';'' # c @ NL # rest) = length c + 2" by (simp add: p_comment_def span_def kw_def)
  have "scan (CHR '';'' # c @ NL # rest) = (length c + 2, skip_action)"
    using scan_other[of "CHR '';''" p_comment skip_action "c @ NL # rest"] n
    by (simp add: other_rules_def pattern_defs span_first)
  then show ?thesis by (subst lex.simps) (simp add: skip_action_def)
qed

lemma lex_comment: "lex (CHR '';'' # NL # rest) = lex rest"
  using lex_comment_line[of "[]"] by simp

lemma fmt_08x_value: "number_value 16 (fmt_08x v) = unat v"
proof -
  have digits: "number_value 16 (map (\<lambda>k. hex_digit (n div 16 ^ k)) (rev [0..<m])) = n mod 16 ^ m" for n m
  proof (induction m arbitrary: n)
    case (Suc m)
    have "map (\<lambda>k. hex_digit (n div 16 ^ k)) (rev [0..<Suc m]) =
      map (\<lambda>k. hex_digit (n div 16 div 16 ^ k)) (rev [0..<m]) @ [hex_digit n]"
      by (simp add: upt_conv_Cons map_Suc_upt[symmetric] rev_map div_mult2_eq del: upt_Suc)
    then have "number_value 16 (map (\<lambda>k. hex_digit (n div 16 ^ k)) (rev [0..<Suc m])) = 16 * (n div 16 mod 16 ^ m) + n mod 16"
      using Suc.IH[of "n div 16"] by (simp add: number_value_def)
    then show ?case by (simp add: mod_mult2_eq)
  qed (simp add: number_value_def)
  have "rev [0..<8] = [7, 6, 5, 4, 3, 2, 1, 0]" by (simp add: upt_rec)
  then show ?thesis using digits[of "unat v" 8] unat_dword_less[of v] by (simp add: fmt_08x_def)
qed

text \<open>Of two rules that match the same length the first is taken: eight hexadecimal digits make a dword.\<close>

lemma scan_first:
  assumes "rules = rs1 @ (f, a) # rs2" and "list_all (\<lambda>(g, b). g s < f s) rs1" and "\<forall>(g, b) \<in> set rules. g s \<le> f s"
  shows "scan s = (f s, a)"
proof -
  have "longest rules s = f s"
    by (rule antisym[OF longest_le[OF assms(3)] longest_ge[of f a rules s]]) (simp add: assms(1))
  moreover have "filter (\<lambda>(g, b). g s = f s) rs1 = []"
    using assms(2) by (auto simp: filter_empty_conv list_all_iff)
  ultimately show ?thesis by (simp add: scan_def Let_def assms(1) case_prod_unfold)
qed

lemma lex_hex32: "lex (''0x'' @ fmt_08x d @ CHR '';'' # rest) = Inr (T_INT32 d) # lex (CHR '';'' # rest)"
proof -
  have len: "length (fmt_08x d) = 8" and hex: "list_all is_hex (fmt_08x d)" by (simp_all add: fmt_08x_def)
  then have span: "span is_hex (fmt_08x d @ CHR '';'' # rest) = 8"
    by (simp add: span_def takeWhile_append list_all_iff)
  let ?s = "CHR ''0'' # CHR ''x'' # fmt_08x d @ CHR '';'' # rest"
  have at: "p_hex32 ?s = 10" "p_endl ?s = 0" "Lexer.span blank ?s = 0" using span by (simp_all add: pattern_defs)
  have "\<forall>(g, b) \<in> set other_rules. g ?s \<le> 10" using span by (simp add: other_rules_def pattern_defs)
  moreover have "alts ws ?s = 0" if "(ws, t) \<in> set word_classes" for ws t
    using that by (intro alts_other) (force simp: lex_words_def)+
  ultimately have "\<forall>(g, b) \<in> set rules. g ?s \<le> p_hex32 ?s" unfolding rules_set at by (auto simp: word_rule_def)
  moreover obtain rs2 where "rules = [(p_endl, always T_ENDL), (Lexer.span blank, always T_SPACE)] @ (p_hex32, int32_action hexToDec32) # rs2"
    unfolding rules_def by simp
  ultimately have "scan (''0x'' @ fmt_08x d @ CHR '';'' # rest) = (10, int32_action hexToDec32)"
    using scan_first[of "[(p_endl, always T_ENDL), (Lexer.span blank, always T_SPACE)]" p_hex32 "int32_action hexToDec32" rs2 ?s] at
    by simp
  moreover have "hexToDec32 (''0x'' @ fmt_08x d) = Inr d"
    using fmt_08x_value[of d] unat_dword_less[of d] by (simp add: hexToDec32_def strtoull_def)
  ultimately show ?thesis using lex_token[of "''0x'' @ fmt_08x d @ CHR '';'' # rest"] len
    by (simp add: int32_action_def number_def remove32BitEscapeSign_def)
qed

lemma at_underscore:
  "\<not> letter CHR ''_''" "p_endl (CHR ''_'' # s) = 0" "span blank (CHR ''_'' # s) = 0" "p_hex32 (CHR ''_'' # s) = 0"
  "p_hex (CHR ''_'' # s) = 0" "p_range (CHR ''_'' # s) = 0" "p_dec (CHR ''_'' # s) = 0"
  "followed (kw ''@'') f (CHR ''_'' # s) = 0" "p_comma (CHR ''_'' # s) = 0" "directive_rule d t = (followed (kw d) (span blank), always t)"
  "followed (kw (CHR ''.'' # d)) f (CHR ''_'' # s) = 0" "kw (CHR ''.'' # d) (CHR ''_'' # s) = 0" "p_comment (CHR ''_'' # s) = 0"
  "p_any (CHR ''_'' # s) = 1"
  by (simp_all add: pattern_defs letter_def blank_def is_digit_def Let_def)

lemma lex_ident:
  assumes "ident n"
  shows "lex (n @ CHR '';'' # rest) = Inr (IDENT n) # lex (CHR '';'' # rest)"
proof -
  let ?p = "\<lambda>c. is_ident c \<or> is_digit c"
  obtain d u where n: "n = CHR ''_'' # d # u" "ident_start d" "list_all (\<lambda>c. ident_start c \<or> is_digit c) u"
    using assms by (cases n; cases "tl n") (auto simp: ident_def)
  have start: "is_ident c \<and> toupper c = c" if "ident_start c" for c
    using that by (auto simp: ident_start_def is_ident_def letter_def toupper_def)
  have up: "toupper c = c" "?p c" if "c \<in> set (d # u)" for c
    using that n start toupper_id by (auto simp: list_all_iff)
  have len: "p_ident (n @ CHR '';'' # rest) = length n"
  proof -
    let ?m = "span is_ident (d # u @ CHR '';'' # rest)"
    have m: "?m = Suc (length (takeWhile is_ident u))" using n(2) start
      by (simp add: span_def takeWhile_tail)
    moreover have "takeWhile ?p (dropWhile is_ident u @ CHR '';'' # rest) = dropWhile is_ident u"
      using up(2) set_dropWhileD[of _ is_ident u] by (subst takeWhile_append2) auto
    moreover have "drop (length (takeWhile is_ident u)) (u @ CHR '';'' # rest) = dropWhile is_ident u @ CHR '';'' # rest"
      by (simp add: dropWhile_eq_drop length_takeWhile_le)
    moreover have "length (takeWhile is_ident u) + length (dropWhile is_ident u) = length u"
      by (metis length_append takeWhile_dropWhile_id)
    ultimately show ?thesis using n(1) start[OF n(2)] by (simp add: p_ident_def followed_def kw_Cons span_def)
  qed
  have "scan (n @ CHR '';'' # rest) = (length n, name_action IDENT)"
    using scan_other[of "CHR ''_''" p_ident "name_action IDENT" "d # u @ CHR '';'' # rest"] len n(1)
    by (simp add: other_rules_def at_underscore)
  moreover have "upper n = n" using n(1) up(1) by (simp add: upper_def map_idI)
  ultimately show ?thesis using lex_token[of "n @ CHR '';'' # rest"] n(1) by (simp add: name_action_def)
qed

text \<open>The remaining tokens, whose texts are fixed.\<close>

lemma word_rules_none:
  assumes "\<not> letter (toupper a)" and "set cs \<subseteq> set word_classes"
  shows "longest (map (\<lambda>(ws, t). word_rule ws t) cs) (a # s) = 0"
    "0 < n \<Longrightarrow> filter (\<lambda>(f, b). f (a # s) = n) (map (\<lambda>(ws, t). word_rule ws t) cs) = []"
proof -
  have none: "\<forall>(ws, t) \<in> set cs. alts ws (a # s) = 0"
  proof (intro ballI, clarify)
    fix ws t assume "(ws, t) \<in> set cs"
    then have "set ws \<subseteq> set lex_words" using assms(2) by (force simp: lex_words_def)
    then show "alts ws (a # s) = 0" by (rule alts_other[OF assms(1)])
  qed
  then show "longest (map (\<lambda>(ws, t). word_rule ws t) cs) (a # s) = 0"
    by (induction cs) (auto simp: word_rule_def)
  show "filter (\<lambda>(f, b). f (a # s) = n) (map (\<lambda>(ws, t). word_rule ws t) cs) = []" if "0 < n"
    using none that by (auto simp: filter_empty_conv word_rule_def)
qed

lemma scan_nonletter:
  assumes "\<not> letter (toupper a)"
  shows "scan (a # s) = (let n = longest other_rules (a # s) in (n, snd (hd (filter (\<lambda>(f, b). f (a # s) = n) other_rules))))"
proof -
  let ?W = "map (\<lambda>(ws, t). word_rule ws t)"
  define R where "R = take 8 other_rules"
  define D where "D = take 9 (drop 8 other_rules)"
  define L where "L = drop 17 other_rules"
  define W where "W = [(CREG_names, CREG), (REG8_names, REG8), (REG16_names, REG16), (REG32_names, REG32)] @
    map (\<lambda>(k, ws). (ws, OP k)) op_names"
  have rules: "rules = R @ ?W W @ D @ ?W [(CONDITION_names, CONDITION)] @ L" "other_rules = R @ D @ L"
    by (simp_all add: rules_def R_def W_def D_def L_def other_rules_def case_prod_unfold)
  have sub: "set W \<subseteq> set word_classes" "set [(CONDITION_names, CONDITION)] \<subseteq> set word_classes"
    by (auto simp: W_def word_classes_def)
  have long: "longest rules (a # s) = longest other_rules (a # s)"
    unfolding rules longest_append word_rules_none(1)[OF assms sub(1)] word_rules_none(1)[OF assms sub(2)] by simp
  then have "0 < longest other_rules (a # s)" using longest_rules_pos[of "a # s"] by simp
  from word_rules_none(2)[OF assms sub(1) this] word_rules_none(2)[OF assms sub(2) this]
  have "filter (\<lambda>(f, b). f (a # s) = longest other_rules (a # s)) rules = filter (\<lambda>(f, b). f (a # s) = longest other_rules (a # s)) other_rules"
    unfolding rules filter_append by simp
  then show ?thesis by (simp add: scan_def long Let_def)
qed

lemma lex_fixed:
  assumes "t \<in> {COMMA, T_ENDL, T_SPACE, GARBAGE, DIRECTIVE_ALIGN, DIRECTIVE_LABEL, DIRECTIVE_OFFSET, DIRECTIVE_BYTE,
    DIRECTIVE_WORD, DIRECTIVE_DWORD, DIRECTIVE_AT, DIRECTIVE_BYTES, DIRECTIVE_END}"
  shows "lex (token_text t @ CHR '';'' # rest) = Inr t # lex (CHR '';'' # rest)"
proof -
  have "scan (token_text t @ CHR '';'' # rest) = (length (token_text t), always t)"
    using assms
    by (elim insertE emptyE) (simp_all add: scan_nonletter other_rules_def pattern_defs kw_def Let_def toupper_def letter_def blank_def is_digit_def)
  moreover have "token_text t \<noteq> []" using assms by auto
  ultimately show ?thesis using lex_token[of "token_text t @ CHR '';'' # rest"] by (simp add: always_def)
qed

lemma lex_token_text:
  assumes "typed_token t"
  shows "lex (token_text t @ CHR '';'' # rest) = Inr t # lex (CHR '';'' # rest)"
proof -
  have word: ?thesis if "(ws, tk) \<in> set word_classes" "w \<in> set ws" "t = tk w" "token_text t = w" for ws tk w
    using lex_word[OF that(1,2) stops_semicolon] that(3,4) by simp
  have classes: "(REG32_names, REG32) \<in> set word_classes" "(REG16_names, REG16) \<in> set word_classes"
    "(REG8_names, REG8) \<in> set word_classes" "(CREG_names, CREG) \<in> set word_classes"
    "(CONDITION_names, CONDITION) \<in> set word_classes"
    "(k, ws) \<in> set op_names \<Longrightarrow> (ws, OP k) \<in> set word_classes" for k ws
    by (auto simp: word_classes_def)
  show ?thesis
  proof (cases t)
    case (T_INT i)
    then show ?thesis using lex_hex[of "fmt_04x i" "CHR '';''" i rest] fmt_04x_value[of i] by (simp add: fmt_04x_def)
  next
    case (OP k op)
    then obtain ws where "(k, ws) \<in> set op_names" "op \<in> set ws"
      using assms by (auto simp: mnemonic_def list_ex_iff)
    then show ?thesis using word[OF classes(6)] OP by simp
  next
    case (REG32 r)
    then show ?thesis using word[OF classes(1)] assms by simp
  next
    case (REG16 r)
    then show ?thesis using word[OF classes(2)] assms by simp
  next
    case (REG8 r)
    then show ?thesis using word[OF classes(3)] assms by simp
  next
    case (CREG r)
    then show ?thesis using word[OF classes(4)] assms by (simp add: creg_name_def)
  next
    case (CONDITION c)
    then show ?thesis using word[OF classes(5)] assms by (simp add: cond_ok_def)
  next
    case (T_INT32 d)
    then show ?thesis using lex_hex32 by simp
  next
    case (IDENT n)
    then show ?thesis using lex_ident assms by simp
  qed (rule lex_fixed, simp)+
qed

lemma lex_tokens_text: "list_all typed_token ts \<Longrightarrow> lex (tokens_text ts) = map Inr ts"
  by (induction ts) (simp_all add: tokens_text_def lex_token_text lex_comment)

section \<open>Statements are typed\<close>

lemma reg_token_typed [simp]: "typed_token (reg_token k r) = reg_name k r"
  by (cases k) simp_all

lemma cond_tokens_typed [simp]: "list_all typed_token (cond_tokens c) = cond_ok c"
  by (cases c) (simp_all add: cond_ok_def)

lemma mov_mnemonic: "mnemonic OP_S_MOV op \<longleftrightarrow> op = ''MOV''"
  by (auto simp: mnemonic_def op_names_def)

lemma typed_rule: "exp_rule e us \<Longrightarrow> list_all typed_token us \<Longrightarrow> typed_exp e"
  by (induction rule: exp_rule.induct) (auto simp: regs32_def mov_mnemonic)

text \<open>The rules that leave the mnemonic open, with the one mnemonic of their class.\<close>

lemmas one_mnemonic =
  rule_cmpxchg[where op = "''CMPXCHG''"] rule_loadi8[where op = "''LOADI''"] rule_loadi16[where op = "''LOADI''"]
  rule_loadid[where op = "''LOADID''"] rule_loadrd[where op = "''LOADRD''"] rule_sex8[where op = "''SEX''"]
  rule_sex16[where op = "''SEX''"] rule_storeid[where op = "''STOREID''"] rule_storerd[where op = "''STORERD''"]
  rule_xchgc[where op = "''XCHGC''"] rule_storeas[where op = "''STOREAS''"] rule_loadas[where op = "''LOADAS''"]
  rule_loadadr[where op = "''LOADADR''"] rule_ldcall[where op = "''LDCALL''"] rule_ldjmp[where op = "''LDJMP''"]
  rule_push[where op = "''PUSH''"] rule_pop[where op = "''POP''"] rule_load32[where op = "''LOAD32''"]

lemma closed_mnemonics:
  "list_all (\<lambda>(k, op). mnemonic k op) [(OP_S_CMPXCHG, ''CMPXCHG''), (OP_S_LOADI, ''LOADI''), (OP_S_LOADID, ''LOADID''),
     (OP_S_LOADRD, ''LOADRD''), (OP_S_SEX, ''SEX''), (OP_S_STOREID, ''STOREID''), (OP_S_STORERD, ''STORERD''),
     (OP_S_XCHGC, ''XCHGC''), (OP_S_STOREAS, ''STOREAS''), (OP_S_LOADAS, ''LOADAS''), (OP_PSEUDO_LOADADR, ''LOADADR''),
     (OP_PSEUDO_LDCALL, ''LDCALL''), (OP_PSEUDO_LDJMP, ''LDJMP''), (OP_PSEUDO_PUSH, ''PUSH''), (OP_PSEUDO_POP, ''POP''),
     (OP_PSEUDO_LOAD32, ''LOAD32'')]"
  by (simp add: mnemonic_def op_names_def)

lemmas mnemonic_simps = mov_mnemonic closed_mnemonics[simplified]

lemma byte_token_typed [simp]: "typed_token (byte_token b)"
  by (cases b) simp_all

lemma fmt_has_tokens: "typed_fmt f \<Longrightarrow> \<exists>us. exp_rule (Fmt f) us \<and> list_all typed_token us"
  by (cases f; hypsubst, rule exI, rule conjI, rule exp_rule.intros, simp add: regs32_def)

lemma data_has_tokens: "typed_data d \<Longrightarrow> \<exists>us. exp_rule (Data d) us \<and> list_all typed_token us"
  by (cases d; hypsubst, rule exI, rule conjI, rule one_mnemonic rule_mov, simp add: regs32_def mnemonic_simps)

lemma pseudo_has_tokens: "typed_pseudo p \<Longrightarrow> \<exists>us. exp_rule (Pseudo p) us \<and> list_all typed_token us"
  by (cases p; hypsubst, rule exI, rule conjI, rule one_mnemonic, simp add: regs32_def mnemonic_simps)

lemma directive_has_tokens: "typed_directive d \<Longrightarrow> \<exists>us. exp_rule (Directive d) us \<and> list_all typed_token us"
  by (cases d; hypsubst, rule exI, rule conjI, rule exp_rule.intros) (simp_all add: list_all_iff)

lemma typed_has_tokens: "typed_exp e \<Longrightarrow> \<exists>us. exp_rule e us \<and> list_all typed_token us"
  using rule_endl rule_space
  by (cases e) (fastforce dest: fmt_has_tokens data_has_tokens pseudo_has_tokens directive_has_tokens)+

text \<open>The statements of a text.\<close>

definition reads :: "string \<Rightarrow> exp list \<Rightarrow> bool" where
  "reads s es \<longleftrightarrow> (\<exists>us. lex s = map Inr us \<and> exps_rule es us)"

lemma reads_typed: "reads s es \<Longrightarrow> es \<noteq> [] \<and> list_all typed_exp es"
proof -
  assume "reads s es"
  then obtain uss where u: "lex s = map Inr (concat uss)" "es \<noteq> []" "list_all2 exp_rule es uss"
    by (auto simp: reads_def exps_rule_list)
  have "list_all typed_token (concat uss)" using lex_typed[of _ s] u(1) by (auto simp: list_all_iff)
  with u(3) have "list_all typed_exp es"
    by (induction es uss rule: list_all2_induct) (auto intro: typed_rule)
  with u(2) show ?thesis by simp
qed

lemma typed_reads:
  assumes "es \<noteq> []" and "list_all typed_exp es"
  shows "\<exists>s. reads s es"
proof -
  have "\<exists>uss. list_all2 exp_rule es uss \<and> list_all typed_token (concat uss)"
    using assms(2)
  proof (induction es)
    case (Cons e es)
    then obtain us uss where "exp_rule e us" "list_all typed_token us" "list_all2 exp_rule es uss" "list_all typed_token (concat uss)"
      using typed_has_tokens[of e] by auto
    then show ?case by (intro exI[of _ "us # uss"]) simp
  qed (simp add: exI[of _ "[]"])
  then obtain uss where "list_all2 exp_rule es uss" "lex (tokens_text (concat uss)) = map Inr (concat uss)"
    using lex_tokens_text by blast
  then show ?thesis using assms(1) by (auto simp: reads_def exps_rule_list)
qed

section \<open>Properties\<close>

text \<open>
  C7. Typing: the programs that texts can express are exactly the well-typed ones. Whatever the text,
  its statements name registers of the class that their place demands, control registers, mnemonics of
  their class, conditions and labels of the right form; and every nonempty list of well-typed statements is
  what some text reads as, on which the assembler does, under every option and every allocator, what it
  does on these statements.
\<close>

theorem texts_typed:
  "((\<exists>text. reads text es) \<longleftrightarrow> es \<noteq> [] \<and> list_all typed_exp es) \<and>
   (reads text es \<longrightarrow> vasm heap fixed text = vasm_main heap fixed es)"
  using reads_typed typed_reads vasm_derives by (auto simp: reads_def)

theorem texts_typed_witness:
  "\<exists>text. vasm (\<lambda>n. True) (Some 64) text = vasm_main (\<lambda>n. True) (Some 64)
       [Pseudo (Loadadr (Some ''IZ'') ''R1'' ''_END''), ENDL, Directive (Label ''_END''), Data (Mov Reg16 ''MOV'' None ''R1L'' ''R2H'')] \<and>
   \<not> (\<exists>text. reads text [Data (Loadi8 None ''R0'' 1)])"
proof -
  let ?es = "[Pseudo (Loadadr (Some ''IZ'') ''R1'' ''_END''), ENDL, Directive (Label ''_END''), Data (Mov Reg16 ''MOV'' None ''R1L'' ''R2H'')]"
  have "list_all typed_exp ?es" by code_simp
  then have one: "\<exists>text. vasm (\<lambda>n. True) (Some 64) text = vasm_main (\<lambda>n. True) (Some 64) ?es"
    using texts_typed[of ?es _ "\<lambda>n. True" "Some 64"] by blast
  have "\<not> typed_exp (Data (Loadi8 None ''R0'' 1))" by code_simp
  then show ?thesis using one texts_typed[of "[Data (Loadi8 None ''R0'' 1)]"] by simp
qed

end
