(* ===== verification/Isa.thy ===== *)
theory Isa
  imports Toolchain
begin

text \<open>
  An abstract register machine for the instructions that work on registers: a state is the instruction
  pointer and the registers, a step is a function of the instruction. The processor loop is a refinement
  of it. It describes what the code does, which is the manual's instruction set but for two points: a
  zero divisor makes \<open>DIV\<close>, \<open>SDIV\<close> and \<open>MOD\<close> do nothing, where the manual has an exception fire, and \<open>SEX\<close>
  extends the low part of the dword register whose number is operand B, where the manual, the assembler
  and the disassembler take that number as one of a byte or word register.
\<close>

unbundle bit_operations_syntax

section \<open>Abstract registers\<close>

type_synonym regfile = "byte \<Rightarrow> dword"

definition set_fl :: "bool \<Rightarrow> dword \<Rightarrow> regfile \<Rightarrow> regfile" where
  "set_fl b f R = R(CPU_REG_FLGS := if b then R CPU_REG_FLGS OR f else R CPU_REG_FLGS AND NOT f)"

definition fl :: "regfile \<Rightarrow> dword \<Rightarrow> bool" where
  "fl R f \<longleftrightarrow> R CPU_REG_FLGS AND f \<noteq> 0"

text \<open>The second operand, a register or an immediate of twelve bits.\<close>

definition source_b :: "instruction_context \<Rightarrow> regfile \<Rightarrow> dword" where
  "source_b i R = (if prefix i = PREFIX_IMM then ucast (imm12 i) else R (opb i))"

text \<open>The part of a register that a byte (\<open>n = 4\<close>) or word (\<open>n = 2\<close>) number names.\<close>

definition part :: "nat \<Rightarrow> byte \<Rightarrow> byte \<Rightarrow> regfile \<Rightarrow> dword" where
  "part w n r R = field w (unat (r mod n) * w) (R (r div n))"

definition put_part :: "nat \<Rightarrow> byte \<Rightarrow> byte \<Rightarrow> dword \<Rightarrow> regfile \<Rightarrow> regfile" where
  "put_part w n r v R = R(r div n := set_field w (unat (r mod n) * w) v (R (r div n)))"

text \<open>A result that is no signed dword.\<close>

definition too_wide :: "int \<Rightarrow> bool" where
  "too_wide k \<longleftrightarrow> k < - (2 ^ 31) \<or> 2 ^ 31 \<le> k"

section \<open>Instructions\<close>

text \<open>The effect of an instruction on the registers, the flags among them.\<close>

definition isa_effect :: "instruction_context \<Rightarrow> regfile \<Rightarrow> regfile" where
  "isa_effect i R =
     (let a = R (opa i); b = source_b i R; d = dst i; c = opcode i;
          v = (if prefix i = PREFIX_IMM then ucast (imm16 i) else R d) in
      if c = OP_ADD then
        set_fl (2 ^ 32 \<le> unat a + unat b) FLGS_C (set_fl (too_wide (sint a + sint b)) FLGS_O (R(d := a + b)))
      else if c = OP_SUB then
        set_fl (unat a < unat b) FLGS_C (set_fl (too_wide (sint a - sint b)) FLGS_O (R(d := a - b)))
      else if c = OP_MUL then (set_fl (2 ^ 32 \<le> unat a * unat b) FLGS_C R)(d := a * b)
      else if c = OP_SMUL then set_fl (too_wide (sint a * sint b)) FLGS_O (R(d := a * b))
      else if c = OP_DIV then (if b = 0 then R else R(d := a div b))
      else if c = OP_MOD then (if R (opb i) = 0 then R else R(d := a mod R (opb i)))
      else if c = OP_SDIV then
        (let r = sint a sdiv sint b; over = too_wide r in
         if b = 0 then R else (set_fl over FLGS_O R)(d := word_of_int (if over then 0 else r)))
      else if c = OP_AND then R(d := a AND b)
      else if c = OP_OR then R(d := a OR b)
      else if c = OP_XOR then R(d := a XOR b)
      else if c = OP_NOT then R(opa i := NOT (R (opb i)))
      else if c = OP_SHL then (set_fl (bit a 31) FLGS_C R)(d := push_bit (unat b mod 32) a)
      else if c = OP_SHR then (set_fl (bit a 0) FLGS_C R)(d := drop_bit (unat b mod 32) a)
      else if c = OP_SAR then (set_fl (bit a 0) FLGS_C R)(d := word_of_int (sint a div 2 ^ (unat b mod 32)))
      else if c = OP_CMP then
        set_fl (sint a < sint b) FLGS_S (set_fl (unat a < unat b) FLGS_C (set_fl (a = b) FLGS_Z R))
      else if c = OP_TEST then
        set_fl (odd (card {k. k < 32 \<and> bit v k})) FLGS_P
          (set_fl (even (unat v)) FLGS_E (set_fl (sint v < 0) FLGS_S (set_fl (v = 0) FLGS_Z R)))
      else if c = OP_XCHG then R(opa i := R (opb i), opb i := a)
      else if c = OP_MOV then
        (if prefix i = PREFIX_WORD then put_part 16 2 (opa i) (ucast (ucast (part 16 2 (opb i) R) :: word16)) R
         else if prefix i = PREFIX_BYTE then put_part 8 4 (opa i) (ucast (ucast (part 8 4 (opb i) R) :: byte)) R
         else if prefix i = PREFIX_IMM then R(opa i := ucast (imm12 i))
         else if prefix i = PREFIX_DWORD then R(opa i := R (opb i))
         else R)
      else if c = OP_SEX then
        (if prefix i = PREFIX_BYTE then R(opa i := scast (ucast (R (opb i)) :: byte))
         else if prefix i = PREFIX_WORD then R(opa i := scast (ucast (R (opb i)) :: word16))
         else R)
      else if c = OP_LOADI then
        (if prefix i = PREFIX_BYTE then put_part 8 4 d (ucast (ucast (imm16 i) :: byte)) R
         else put_part 16 2 d (ucast (imm16 i)) R)
      else R)"

text \<open>
  The byte register \<open>R0LH\<close>, the second byte of \<open>R0\<close>, has the number 1 for the assembler, and it is the low byte
  of \<open>R1\<close> that \<open>SEX\<close> extends under it, whatever \<open>R0\<close> holds.
\<close>

lemma sex_takes_dword_register:
  assumes "opcode i = OP_SEX" and "prefix i = PREFIX_BYTE" and "opb i = get_reg8_for_name ''R0LH''"
  shows "isa_effect i R (opa i) = scast (ucast (R (get_reg_for_name ''R1'')) :: byte)"
proof -
  have "get_reg8_for_name ''R0LH'' = get_reg_for_name ''R1''" by code_simp
  then show ?thesis using assms by (simp add: isa_effect_def)
qed

text \<open>The instructions that work on the sixteen registers and the pointer alone.\<close>

definition isa_ops :: "byte list" where
  "isa_ops = [OP_ADD, OP_SUB, OP_MUL, OP_SMUL, OP_DIV, OP_MOD, OP_SDIV, OP_AND, OP_OR, OP_XOR, OP_NOT, OP_SHL, OP_SHR, OP_SAR,
     OP_CMP, OP_TEST, OP_XCHG, OP_MOV, OP_SEX, OP_LOADI, OP_JMP, OP_CALL]"

definition isa_covers :: "instruction_context \<Rightarrow> bool" where
  "isa_covers i \<longleftrightarrow> opcode i \<in> set isa_ops"

text \<open>
  A step from the pointer \<open>p\<close>: an instruction whose condition does not hold is passed over; jumps and
  calls are relative to the instruction behind with an immediate, and go to the register otherwise.
\<close>

definition isa_target :: "instruction_context \<Rightarrow> dword \<Rightarrow> regfile \<Rightarrow> dword" where
  "isa_target i p R = (if prefix i = PREFIX_IMM then p + 4 + of_int (sint (imm16 i)) else R (dst i))"

definition isa_skips :: "instruction_context \<Rightarrow> regfile \<Rightarrow> bool" where
  "isa_skips i R \<longleftrightarrow> condition i \<noteq> COND_ALWAYS \<and> \<not> cond_holds (condition i) (R CPU_REG_FLGS)"

definition isa_step :: "instruction_context \<Rightarrow> dword \<times> regfile \<Rightarrow> dword \<times> regfile" where
  "isa_step i = (\<lambda>(p, R).
     if isa_skips i R then (p + 4, R)
     else if opcode i = OP_JMP then (isa_target i p R, R)
     else if opcode i = OP_CALL then
       (let R' = R(CPU_REG_RC := p + 4) in (isa_target i p R', R'))
     else (p + 4, isa_effect i R))"

section \<open>Refinement\<close>

definition acts :: "emulator_context \<Rightarrow> regfile \<Rightarrow> emulator_context \<Rightarrow> bool" where
  "acts s R s' \<longleftrightarrow> wf s' \<and> memory_context s' = memory_context s \<and> creg_of s' = creg_of s \<and> get_pos s' = get_pos s \<and>
     reg_of s' = R"

lemma acts_refl: "wf s \<Longrightarrow> acts s (reg_of s) s"
  by (simp add: acts_def)

lemma acts_upd:
  "acts s R t \<Longrightarrow> r < 16 \<Longrightarrow> acts s (R(r := v)) (upd_reg r v t)"
  "acts s R t \<Longrightarrow> acts s (set_fl b f R) (upd_flag b f t)"
  by (auto simp: acts_def ectx_simps set_fl_def upd_flag_def fun_eq_iff)

lemma source_b_of [simp]: "source_b i (reg_of s) = opb_of i s"
  by (simp add: source_b_def opb_of_def)

lemma sign_bit: "v AND 0x80000000 \<noteq> 0 \<longleftrightarrow> sint v < 0" for v :: dword
  using bit_last_iff[of v] by (simp add: test_bits(4))

lemma low_bit: "\<not> (v AND 1 \<noteq> 0) \<longleftrightarrow> even (unat v)" for v :: dword
  by (metis test_bits(1) bit_0 bit_unsigned_iff possible_bit_nat)

lemma parity_bit: "test_loop 32 v 0 mod 2 = 1 \<longleftrightarrow> odd (card {k. k < 32 \<and> bit v k})"
  by (simp add: test_loop_eq flip: odd_iff_mod_2_eq_one)

lemma sar_value: "drop_bit n (sint a) = sint a div 2 ^ n"
  by (rule drop_bit_eq_div)

lemma overflows:
  "sint a + sint b \<noteq> sint (a + b) \<longleftrightarrow> too_wide (sint a + sint b)"
  "sint a - sint b \<noteq> sint (a - b) \<longleftrightarrow> too_wide (sint a - sint b)"
  "sint a * sint b \<noteq> sint (a * b) \<longleftrightarrow> too_wide (sint a * sint b)"
  "k > 2147483647 \<or> k < -2147483648 \<longleftrightarrow> too_wide k" for a b :: dword
  unfolding sint_signed_ops signed_overflow_iff by (auto simp: too_wide_def)

lemma unsigned_less: "a < b \<longleftrightarrow> unat a < unat b" for a b :: dword
  by (rule word_less_nat_alt)

text \<open>Each instruction has the effect of the abstract machine.\<close>

lemmas effect_intros = acts_upd acts_refl

lemma alu_acts:
  assumes "wf s" and "wf_ins i"
  shows
    "opcode i = OP_ADD \<Longrightarrow> \<exists>s'. ins_add i s = Inr s' \<and> acts s (isa_effect i (reg_of s)) s'"
    "opcode i = OP_SUB \<Longrightarrow> \<exists>s'. ins_sub i s = Inr s' \<and> acts s (isa_effect i (reg_of s)) s'"
    "opcode i = OP_SMUL \<Longrightarrow> \<exists>s'. ins_smul i s = Inr s' \<and> acts s (isa_effect i (reg_of s)) s'"
    "opcode i = OP_AND \<Longrightarrow> \<exists>s'. ins_and i s = Inr s' \<and> acts s (isa_effect i (reg_of s)) s'"
    "opcode i = OP_OR \<Longrightarrow> \<exists>s'. ins_or i s = Inr s' \<and> acts s (isa_effect i (reg_of s)) s'"
    "opcode i = OP_XOR \<Longrightarrow> \<exists>s'. ins_xor i s = Inr s' \<and> acts s (isa_effect i (reg_of s)) s'"
    "opcode i = OP_NOT \<Longrightarrow> \<exists>s'. ins_not i s = Inr s' \<and> acts s (isa_effect i (reg_of s)) s'"
  using assms
  by (simp_all add: alu_norms Let_def isa_effect_def effect_intros wf_ins_less overflows)

lemma mul_acts:
  assumes "wf s" and "wf_ins i"
  shows
    "opcode i = OP_MUL \<Longrightarrow> \<exists>s'. ins_mul i s = Inr s' \<and> acts s (isa_effect i (reg_of s)) s'"
    "opcode i = OP_DIV \<Longrightarrow> \<exists>s'. ins_div i s = Inr s' \<and> acts s (isa_effect i (reg_of s)) s'"
    "opcode i = OP_MOD \<Longrightarrow> \<exists>s'. ins_mod i s = Inr s' \<and> acts s (isa_effect i (reg_of s)) s'"
    "opcode i = OP_SDIV \<Longrightarrow> \<exists>s'. ins_sdiv i s = Inr s' \<and> acts s (isa_effect i (reg_of s)) s'"
  using assms
  by (simp_all only: mul_norms Let_def isa_effect_def mul_carry_iff ucast_mul overflows source_b_of)
     (simp_all add: effect_intros wf_ins_less)

lemma shift_acts:
  assumes "wf s" and "wf_ins i"
  shows
    "opcode i = OP_SHL \<Longrightarrow> \<exists>s'. ins_shl i s = Inr s' \<and> acts s (isa_effect i (reg_of s)) s'"
    "opcode i = OP_SHR \<Longrightarrow> \<exists>s'. ins_shr i s = Inr s' \<and> acts s (isa_effect i (reg_of s)) s'"
    "opcode i = OP_SAR \<Longrightarrow> \<exists>s'. ins_sar i s = Inr s' \<and> acts s (isa_effect i (reg_of s)) s'"
  using assms
  by (simp_all only: shift_norms Let_def isa_effect_def test_bits sar_value source_b_of)
     (simp_all add: effect_intros wf_ins_less)

lemma compare_acts:
  assumes "wf s" and "wf_ins i"
  shows
    "opcode i = OP_CMP \<Longrightarrow> \<exists>s'. ins_cmp i s = Inr s' \<and> acts s (isa_effect i (reg_of s)) s'"
    "opcode i = OP_TEST \<Longrightarrow> \<exists>s'. ins_test i s = Inr s' \<and> acts s (isa_effect i (reg_of s)) s'"
  using assms
  by (simp_all only: cmp_test_norms Let_def isa_effect_def parity_bit low_bit sign_bit unsigned_less source_b_of test_val_def)
     (simp_all add: effect_intros wf_ins_less)

lemma move_acts:
  assumes "wf s" and "wf_ins i"
  shows
    "opcode i = OP_XCHG \<Longrightarrow> \<exists>s'. ins_xchg i s = Inr s' \<and> acts s (isa_effect i (reg_of s)) s'"
    "opcode i = OP_MOV \<Longrightarrow> \<exists>s'. ins_mov i s = Inr s' \<and> acts s (isa_effect i (reg_of s)) s'"
    "opcode i = OP_SEX \<Longrightarrow> \<exists>s'. ins_sex i s = Inr s' \<and> acts s (isa_effect i (reg_of s)) s'"
    "opcode i = OP_LOADI \<Longrightarrow> \<exists>s'. ins_loadi i s = Inr s' \<and> acts s (isa_effect i (reg_of s)) s'"
proof -
  have small: "r < 64" "r < 32" "r div 4 < 16" "r div 2 < 16" if "r < 16" for r :: byte
    using that div_bounds[of r] by (simp_all add: word_less_nat_alt)
  note parts = cpu_set_byte_reg_norm cpu_set_word_reg_norm cpu_get_byte_reg_norm cpu_get_word_reg_norm
    upd_byte_reg_def upd_word_reg_def byte_reg_def word_reg_def part_def put_part_def
  show "opcode i = OP_XCHG \<Longrightarrow> \<exists>s'. ins_xchg i s = Inr s' \<and> acts s (isa_effect i (reg_of s)) s'"
    using assms by (simp add: ins_xchg_def get_reg_norm set_reg_norm isa_effect_def Let_def effect_intros wf_ins_less)
  show "opcode i = OP_MOV \<Longrightarrow> \<exists>s'. ins_mov i s = Inr s' \<and> acts s (isa_effect i (reg_of s)) s'"
    using assms small[OF wf_ins_less(1)[OF assms(2)]] small[OF wf_ins_less(2)[OF assms(2)]] wf_ins_less[OF assms(2)]
    by (auto simp: acts_refl ins_mov_def get_reg_norm set_reg_norm isa_effect_def Let_def effect_intros parts)
  show "opcode i = OP_SEX \<Longrightarrow> \<exists>s'. ins_sex i s = Inr s' \<and> acts s (isa_effect i (reg_of s)) s'"
    using assms acts_upd(1)[OF acts_refl[OF assms(1)] wf_ins_less(1)[OF assms(2)], of "reg_of s (opa i)"]
    by (simp add: ins_sex_norm sex_val_def isa_effect_def Let_def effect_intros wf_ins_less)
  show "opcode i = OP_LOADI \<Longrightarrow> \<exists>s'. ins_loadi i s = Inr s' \<and> acts s (isa_effect i (reg_of s)) s'"
    using assms small[OF wf_ins_less(3)[OF assms(2)]]
    by (auto simp: ins_loadi_def isa_effect_def Let_def effect_intros parts)
qed

lemmas instruction_acts = alu_acts mul_acts shift_acts compare_acts move_acts

definition isa_exec :: "(byte \<times> (instruction_context \<Rightarrow> emulator_context \<Rightarrow> stop + emulator_context)) list" where
  "isa_exec = [(OP_ADD, ins_add), (OP_SUB, ins_sub), (OP_MUL, ins_mul), (OP_SMUL, ins_smul), (OP_DIV, ins_div),
     (OP_MOD, ins_mod), (OP_SDIV, ins_sdiv), (OP_AND, ins_and), (OP_OR, ins_or), (OP_XOR, ins_xor), (OP_NOT, ins_not),
     (OP_SHL, ins_shl), (OP_SHR, ins_shr), (OP_SAR, ins_sar), (OP_CMP, ins_cmp), (OP_TEST, ins_test),
     (OP_XCHG, ins_xchg), (OP_MOV, ins_mov), (OP_SEX, ins_sex), (OP_LOADI, ins_loadi)]"

lemma dispatch_exec: "(opcode i, f) \<in> set isa_exec \<Longrightarrow> cpu_dispatch i m = on_ectx (f i) m"
proof -
  have "\<forall>(c, f) \<in> set isa_exec. opcode i = c \<longrightarrow> cpu_dispatch i m = on_ectx (f i) m"
    by (simp add: isa_exec_def cpu_dispatch_def)
  then show "(opcode i, f) \<in> set isa_exec \<Longrightarrow> cpu_dispatch i m = on_ectx (f i) m" by blast
qed

lemma exec_acts:
  assumes "wf s" and "wf_ins i" and "isa_covers i" and "(opcode i, f) \<in> set isa_exec"
  shows "\<exists>s'. f i s = Inr s' \<and> acts s (isa_effect i (reg_of s)) s'"
proof -
  have "\<forall>(c, f) \<in> set isa_exec. opcode i = c \<longrightarrow> (\<exists>s'. f i s = Inr s' \<and> acts s (isa_effect i (reg_of s)) s')"
    unfolding isa_exec_def list.set ball_simps prod.case
    by (intro conjI impI TrueI; rule instruction_acts[OF assms(1,2)]; assumption)
  then show ?thesis using assms(4) by blast
qed

lemma dispatch_acts:
  assumes "isa_covers i" and "opcode i \<noteq> OP_JMP" and "opcode i \<noteq> OP_CALL" and "wf (ectx m)" and "wf_ins i"
  shows "\<exists>s'. cpu_dispatch i m = Inr (m\<lparr>ectx := s'\<rparr>) \<and> acts (ectx m) (isa_effect i (reg_of (ectx m))) s'"
proof -
  have "set isa_ops = fst ` set isa_exec \<union> {OP_JMP, OP_CALL}" by (auto simp: isa_ops_def isa_exec_def)
  then obtain f where f: "(opcode i, f) \<in> set isa_exec" using assms(1-3) by (auto simp: isa_covers_def)
  from exec_acts[OF assms(4,5,1) f] obtain s' where
    "f i (ectx m) = Inr s'" "acts (ectx m) (isa_effect i (reg_of (ectx m))) s'" by blast
  then show ?thesis using on_ectx_norm[of "f i" m s'] by (intro exI[of _ s']) (simp add: dispatch_exec[OF f])
qed

text \<open>What a program sees of a machine, and what a step of such an instruction leaves alone.\<close>

definition view :: "machine \<Rightarrow> dword \<times> regfile" where
  "view m = (get_pos (ectx m), reg_of (ectx m))"

definition same_rest :: "machine \<Rightarrow> machine \<Rightarrow> bool" where
  "same_rest m m' \<longleftrightarrow> memory_context (ectx m') = memory_context (ectx m) \<and> creg_of (ectx m') = creg_of (ectx m) \<and>
     ports m' = ports m \<and> latch m' = latch m"

lemma same_rest_trans: "same_rest m m1 \<Longrightarrow> same_rest m1 m2 \<Longrightarrow> same_rest m m2"
  by (simp add: same_rest_def)

lemma isa_dispatch:
  assumes "wf_machine m" and "isa_covers i" and "wf_ins i"
    and runs: "\<not> isa_skips i (reg_of (ectx m))"
  shows "\<exists>m'. cpu_dispatch i (fetched m) = Inr m' \<and> view m' = isa_step i (view m) \<and> same_rest m m'"
proof -
  have wf: "wf (ectx (fetched m))" using assms(1) by (simp add: wf_machine_def)
  show ?thesis
  proof (cases "opcode i = OP_JMP \<or> opcode i = OP_CALL")
    case True
    then show ?thesis
      using ins_jmp_norm[OF wf assms(3)] ins_call_norm[OF wf assms(3)] runs wf
      by (auto simp: cpu_dispatch_def on_ectx_def isa_step_def view_def isa_target_def same_rest_def ectx_simps fun_eq_iff)
  next
    case False
    then obtain s' where s': "cpu_dispatch i (fetched m) = Inr ((fetched m)\<lparr>ectx := s'\<rparr>)"
      "acts (ectx (fetched m)) (isa_effect i (reg_of (ectx m))) s'"
      using dispatch_acts[OF assms(2) _ _ wf assms(3)] by auto
    then show ?thesis using False runs
      by (intro exI[of _ "(fetched m)\<lparr>ectx := s'\<rparr>"]) (auto simp: acts_def isa_step_def view_def same_rest_def)
  qed
qed

lemma runs_isa: "runs m \<longleftrightarrow> \<not> isa_skips (next_ins m) (reg_of (ectx m))"
  by (auto simp: runs_def isa_skips_def)

lemma isa_step_refined:
  assumes "wf_machine m" and "fits 4 (get_pos (ectx m)) (ectx m)"
    and "isa_skips (next_ins m) (reg_of (ectx m)) \<or> isa_covers (next_ins m)"
  shows "\<exists>m'. cpu_step m m' \<and> wf_machine m' \<and> view m' = isa_step (next_ins m) (view m) \<and> same_rest m m'"
proof -
  have step: "\<exists>m'. cpu_step m m' \<and> view m' = isa_step (next_ins m) (view m) \<and> same_rest m m'"
  proof (cases "runs m")
    case True
    then have covers: "isa_covers (next_ins m)" using assms(3) by (simp add: runs_isa)
    obtain m' where
      "cpu_dispatch (next_ins m) (fetched m) = Inr m'" "view m' = isa_step (next_ins m) (view m)" "same_rest m m'"
      using isa_dispatch[OF assms(1) covers wf_next_ins] True by (auto simp: runs_isa)
    moreover have "opcode (next_ins m) \<noteq> OP_FAIL" "opcode (next_ins m) \<noteq> OP_STOP"
      using covers by (auto simp: isa_covers_def isa_ops_def)
    ultimately show ?thesis using cpu_stepI[OF assms(1,2) True] by blast
  next
    case False
    then show ?thesis using cpu_step_skip[OF assms(1,2)]
      by (intro exI[of _ "fetched m"]) (simp add: isa_step_def view_def runs_isa same_rest_def)
  qed
  then show ?thesis using reaches_wf[OF reaches_Suc[OF _ reaches_0] assms(1)] by blast
qed

lemma cpu_step_unique: "cpu_step m m1 \<Longrightarrow> cpu_step m m2 \<Longrightarrow> m1 = m2"
  by (simp add: cpu_step_iff)

text \<open>A run: step after step on the instructions of a memory, as long as they are covered.\<close>

fun isa_run :: "emulator_context \<Rightarrow> nat \<Rightarrow> dword \<times> regfile \<Rightarrow> (dword \<times> regfile) option" where
  "isa_run s 0 st = Some st"
| "isa_run s (Suc n) st =
     (let i = ins_at s (fst st) in
      if fits 4 (fst st) s \<and> (isa_skips i (snd st) \<or> isa_covers i) then isa_run s n (isa_step i st) else None)"

lemma isa_run_cong: "memory_context s = memory_context t \<Longrightarrow> isa_run s n st = isa_run t n st"
  by (induction n arbitrary: st) (auto simp: ins_at_def mem_at_def fits_def Let_def)

lemma isa_run_refined:
  "wf_machine m \<Longrightarrow> isa_run (ectx m) n (view m) = Some st \<Longrightarrow>
     \<exists>m'. reaches n m m' \<and> view m' = st \<and> same_rest m m' \<and> wf_machine m'"
proof (induction n arbitrary: m)
  case 0
  then show ?case using reaches_0 by (auto simp: same_rest_def)
next
  case (Suc n)
  have cov: "fits 4 (get_pos (ectx m)) (ectx m)" "isa_skips (next_ins m) (reg_of (ectx m)) \<or> isa_covers (next_ins m)"
    and run: "isa_run (ectx m) n (isa_step (next_ins m) (view m)) = Some st"
    using Suc.prems(2) by (auto simp: Let_def view_def next_ins_def split: if_splits)
  obtain m1 where m1: "cpu_step m m1" "wf_machine m1" "view m1 = isa_step (next_ins m) (view m)" "same_rest m m1"
    using isa_step_refined[OF Suc.prems(1) cov] by blast
  have "isa_run (ectx m1) n (view m1) = Some st"
    using run m1(3,4) isa_run_cong[of "ectx m1" "ectx m"] by (simp add: same_rest_def)
  from Suc.IH[OF m1(2) this] show ?case using m1 reaches_Suc same_rest_trans by blast
qed

lemma isa_run_add: "isa_run s (k + n) st = Option.bind (isa_run s k st) (isa_run s n)"
  by (induction k arbitrary: st) (auto simp: Let_def)

lemma isa_run_one:
  "fits 4 p s \<Longrightarrow> ins_at s p = i \<Longrightarrow> isa_skips i R \<or> isa_covers i \<Longrightarrow> isa_run s 1 (p, R) = Some (isa_step i (p, R))"
  by (simp add: Let_def)

section \<open>Instructions of emitted code\<close>

definition ins_code :: "byte list \<Rightarrow> instruction_context" where
  "ins_code w = decode_bytes (w ! 0) (w ! 1) (w ! 2) (w ! 3)"

lemma fields_ii [simp]:
  assumes "p < 4" and "c < 16" and "q < 64" and "d < 16" and "a < 16" and "b < 16"
  shows "condition (ins_code (code_ii (p, c, q, d, a, b))) = c" "opcode (ins_code (code_ii (p, c, q, d, a, b))) = q"
    "prefix (ins_code (code_ii (p, c, q, d, a, b))) = p" "dst (ins_code (code_ii (p, c, q, d, a, b))) = d"
    "opa (ins_code (code_ii (p, c, q, d, a, b))) = a" "opb (ins_code (code_ii (p, c, q, d, a, b))) = b"
  using code_fields[OF assms] by (simp_all add: ins_code_def code_eqs)

lemma fields_iii [simp]:
  assumes "p < 4" and "c < 16" and "q < 64" and "d < 16" and "a < 16" and "i < 0x1000"
  shows "condition (ins_code (code_iii (p, c, q, d, a, i))) = c" "opcode (ins_code (code_iii (p, c, q, d, a, i))) = q"
    "prefix (ins_code (code_iii (p, c, q, d, a, i))) = p" "dst (ins_code (code_iii (p, c, q, d, a, i))) = d"
    "opa (ins_code (code_iii (p, c, q, d, a, i))) = a" "imm12 (ins_code (code_iii (p, c, q, d, a, i))) = i"
  using code_fields[OF assms(1-5) imm12_high[OF assms(6)]] imm12_join[OF assms(6)] by (simp_all add: ins_code_def code_eqs)

lemma fields_iv [simp]:
  assumes "p < 4" and "c < 16" and "q < 64" and "d < 16"
  shows "condition (ins_code (code_iv (p, c, q, d, i))) = c" "opcode (ins_code (code_iv (p, c, q, d, i))) = q"
    "prefix (ins_code (code_iv (p, c, q, d, i))) = p" "dst (ins_code (code_iv (p, c, q, d, i))) = d"
    "imm16 (ins_code (code_iv (p, c, q, d, i))) = i"
  using code_fields[OF assms, of 0 0] imm16_join by (simp_all add: ins_code_def code_eqs)

text \<open>A list of instruction words in memory.\<close>

fun words_at :: "emulator_context \<Rightarrow> dword \<Rightarrow> byte list list \<Rightarrow> bool" where
  "words_at s a [] \<longleftrightarrow> True"
| "words_at s a (w # ws) \<longleftrightarrow> fits 4 a s \<and> ins_at s a = ins_code w \<and> words_at s (a + 4) ws"

lemma code_words: "code_at s a (concat ws) \<Longrightarrow> list_all (\<lambda>w. length w = 4) ws \<Longrightarrow> words_at s a ws"
proof (induction ws arbitrary: a)
  case (Cons w ws)
  obtain b1 b2 b3 b4 where w: "w = [b1, b2, b3, b4]"
    using Cons.prems(2) by (auto simp: length_Suc_conv eval_nat_numeral)
  have code: "code_at s a (w @ concat ws)" using Cons.prems(1) by simp
  have "code_at s a [b1, b2, b3, b4]" using code_at_appendD(1)[OF code] w by simp
  from code_at_ins[OF this] have "fits 4 a s" "ins_at s a = ins_code w" by (simp_all add: ins_code_def w)
  moreover have "words_at s (a + 4) ws"
    using Cons.IH[of "a + 4"] code_at_appendD(2)[OF code] Cons.prems(2) w by simp
  ultimately show ?case by simp
qed simp

text \<open>Straight-line code: neither jumps nor calls, and what is passed over.\<close>

fun isa_lines :: "byte list list \<Rightarrow> regfile \<Rightarrow> regfile option" where
  "isa_lines [] R = Some R"
| "isa_lines (w # ws) R =
     (let i = ins_code w in
      if isa_skips i R then isa_lines ws R
      else if isa_covers i \<and> opcode i \<noteq> OP_JMP \<and> opcode i \<noteq> OP_CALL then isa_lines ws (isa_effect i R) else None)"

lemma isa_lines_append: "isa_lines (vs @ ws) R = Option.bind (isa_lines vs R) (isa_lines ws)"
  by (induction vs arbitrary: R) (simp_all add: Let_def)

lemma isa_run_lines:
  "words_at s p ws \<Longrightarrow> isa_lines ws R = Some R' \<Longrightarrow> isa_run s (length ws) (p, R) = Some (p + 4 * of_nat (length ws), R')"
  by (induction ws arbitrary: p R) (auto simp: Let_def isa_step_def algebra_simps split: if_splits)

section \<open>Properties\<close>

lemma reaches_unique: "reaches n m m1 \<Longrightarrow> reaches n m m2 \<Longrightarrow> m1 = m2"
proof (induction arbitrary: m2 rule: reaches.induct)
  case (reaches_0 m)
  then show ?case by (auto elim: reaches_0E)
next
  case (reaches_Suc m m1 n t)
  from reaches_Suc.prems obtain u where "cpu_step m u" "reaches n u m2" by (auto elim: reaches_SucE)
  then show ?case using cpu_step_unique[OF reaches_Suc.hyps(1)] reaches_Suc.IH by blast
qed

text \<open>
  C2. The processor implements an abstract register machine: as long as the instructions on the way are
  among the 22 that work on registers alone and lie in memory, a run of the processor loop is the run of
  the abstract machine. It is the only run of that length, it ends with the pointer and the registers that
  the abstract machine gives, and it changes neither memory nor control registers nor devices. The abstract
  machine follows the code where the manual differs: a zero divisor makes \<open>DIV\<close>, \<open>SDIV\<close> and \<open>MOD\<close> do nothing (the
  manual has an exception fire), and \<open>SEX\<close> extends the low part of the dword register numbered by operand B
  (the manual, the assembler and the disassembler take it as a byte or word register).
\<close>

theorem isa_refinement:
  assumes "wf_machine m" and "isa_run (ectx m) n (view m) = Some st"
  shows "\<exists>m'. reaches n m m' \<and> view m' = st \<and> same_rest m m' \<and> (\<forall>m''. reaches n m m'' \<longrightarrow> m'' = m')"
  using isa_run_refined[OF assms] reaches_unique by blast

theorem isa_refinement_witness:
  "\<exists>m m'. reaches 3 m m' \<and> get_pos (ectx m') = 0x20 \<and> reg_of (ectx m') 1 = 42 \<and> reg_of (ectx m) 1 = 0"
proof -
  let ?ws = "[code_iv (1, 0, OP_LOADI, 0, 7), code_iii (3, 0, OP_MUL, 1, 0, 6)]" and ?j = "code_iv (3, 0, OP_JMP, 0, 0x14)"
  let ?m = "code_machine (concat (?ws @ [?j]))"
  have at: "words_at (ectx ?m) 0 (?ws @ [?j])" by (rule code_words) (simp_all add: code_eqs)
  have zero: "reg_of (ectx ?m) 0 = 0" "reg_of (ectx ?m) 1 = 0" using code_machine_simps(5) by simp_all
  have seven: "set_field 16 0 7 0 = 7" by (simp add: set_field_def)
  obtain R where R: "isa_lines ?ws (reg_of (ectx ?m)) = Some R" "R 1 = 42"
    by (simp add: isa_skips_def isa_covers_def isa_ops_def isa_effect_def source_b_def put_part_def Let_def zero seven set_fl_def)
  from at have ins: "words_at (ectx ?m) 0 ?ws" "fits 4 8 (ectx ?m)" "ins_at (ectx ?m) 8 = ins_code ?j" by simp_all
  have two: "isa_run (ectx ?m) 2 (view ?m) = Some (8, R)"
    using isa_run_lines[OF ins(1) R(1)] by (simp add: view_def eval_nat_numeral)
  have jmp: "isa_covers (ins_code ?j)" "isa_step (ins_code ?j) (8, R) = (0x20, R)"
    by (simp_all add: isa_skips_def isa_covers_def isa_ops_def isa_step_def isa_target_def)
  have "isa_run (ectx ?m) 1 (8, R) = Some (0x20, R)"
    using isa_run_one[OF ins(2,3)] jmp by simp
  then have run: "isa_run (ectx ?m) 3 (view ?m) = Some (0x20, R)"
    using isa_run_add[of "ectx ?m" 2 1 "view ?m"] two by (simp add: eval_nat_numeral)
  obtain m' where "reaches 3 ?m m'" "view m' = (0x20, R)"
    using isa_refinement[OF code_machine_simps(1) run] by blast
  then show ?thesis using R(2) zero(2) by (intro exI[of _ ?m] exI[of _ m']) (simp add: view_def)
qed

end
