(* ===== verification/Evaluate.thy ===== *)
theory Evaluate
  imports Texts
begin

text \<open>
  Running the lexer and the parser in the logic, on the text of a file: equations for evaluation, and
  the statements of a text by parsing one after the other.
\<close>

section \<open>Evaluating the lexer\<close>

text \<open>
  Equations by which the lexer can be run on the text of a file: characters are taken to upper case by
  their bits, a word is given up at its first difference, numbers are integers, and a text that does not
  begin with a letter is not compared with the words.
\<close>

lemma letter_code [code]:
  "letter (Char b0 b1 b2 b3 b4 b5 b6 b7) \<longleftrightarrow>
     \<not> b7 \<and> b6 \<and> \<not> b5 \<and> (b0 \<or> b1 \<or> b2 \<or> b3 \<or> b4) \<and> \<not> (b4 \<and> b3 \<and> (b2 \<or> b1 \<and> b0))"
  by (cases b0; cases b1; cases b2; cases b3; cases b4; cases b5; cases b6; cases b7; simp add: letter_def)

fun begins :: "string \<Rightarrow> string \<Rightarrow> bool" where
  "begins [] s \<longleftrightarrow> True"
| "begins (p # ps) [] \<longleftrightarrow> False"
| "begins (p # ps) (a # s) \<longleftrightarrow> p = toupper a \<and> begins ps s"

lemma begins: "begins w s \<longleftrightarrow> map toupper (take (length w) s) = w"
  by (induction w s rule: begins.induct) auto

lemma kw_code [code]: "kw w s = (if begins w s then length w else 0)"
  by (simp add: kw_def begins)

definition int_value :: "int \<Rightarrow> string \<Rightarrow> int" where
  "int_value base ds = foldl (\<lambda>n c. base * n + int (digit_value c)) 0 ds"

lemma int_value: "int (number_value b ds) = int_value (int b) ds"
proof -
  have "int (foldl (\<lambda>n c. b * n + digit_value c) k ds) = foldl (\<lambda>n c. int b * n + int (digit_value c)) (int k) ds" for k
    by (induction ds arbitrary: k) simp_all
  from this[of 0] show ?thesis by (simp add: number_value_def int_value_def)
qed

lemma hexToDec32_code [code]:
  "hexToDec32 s = (let v = int_value 16 (drop 2 s) in if v > 0xFFFFFFFF then Inl (Exit 1) else Inr (of_int v))"
proof -
  have "int (strtoull s) = int_value 16 (drop 2 s)" using int_value[of 16 "drop 2 s"] by (simp add: strtoull_def)
  then have v: "int_value 16 (drop 2 s) = int (strtoull s)" ..
  have "0xFFFFFFFF < int (strtoull s) \<longleftrightarrow> 0xFFFFFFFF < strtoull s"
    using of_nat_less_iff[where 'a = int, of "0xFFFFFFFF" "strtoull s"] by (simp only: of_nat_numeral)
  then show ?thesis unfolding v hexToDec32_def Let_def of_int_of_nat_eq by (simp only:)
qed

lemma hexToDec_code [code]:
  "hexToDec s = (let v = int_value 16 (drop 2 s) in if v > 0xFFFF then Inl (Exit 1) else Inr (of_int v))"
proof -
  have "int (strtoull s) = int_value 16 (drop 2 s)" using int_value[of 16 "drop 2 s"] by (simp add: strtoull_def)
  then have v: "int_value 16 (drop 2 s) = int (strtoull s)" ..
  have "0xFFFF < int (strtoull s) \<longleftrightarrow> 0xFFFF < strtoull s"
    using of_nat_less_iff[where 'a = int, of "0xFFFF" "strtoull s"] by (simp only: of_nat_numeral)
  then show ?thesis unfolding v hexToDec_def Let_def of_int_of_nat_eq by (simp only:)
qed

lemma strtoll_code [code]:
  "strtoll s =
     (case s of
        [] \<Rightarrow> 0
      | c # ds \<Rightarrow>
          if c = CHR ''-'' then (if ds \<noteq> [] \<and> is_digit (hd ds) then - int_value 10 ds else 0)
          else int_value 10 s)"
  using int_value[of 10] by (simp add: strtoll_def split: list.split)

lemma p_comment_code [code]:
  "p_comment s =
     (if kw '';'' s = 0 \<or> dropWhile (\<lambda>c. c \<noteq> NL) s = [] then 0 else Suc (length (takeWhile (\<lambda>c. c \<noteq> NL) s)))"
proof -
  have "length (takeWhile (\<lambda>c. c \<noteq> NL) s) < length s \<longleftrightarrow> dropWhile (\<lambda>c. c \<noteq> NL) s \<noteq> []"
    by (metis length_append length_greater_0_conv less_add_same_cancel1 takeWhile_dropWhile_id)
  moreover have "kw '';'' s = 0 \<or> kw '';'' s = 1" by (simp add: kw_def)
  ultimately show ?thesis unfolding p_comment_def span_def Let_def by auto
qed

lemma scan_code [code]:
  "scan s =
     (let rs = (case s of [] \<Rightarrow> rules | a # _ \<Rightarrow> if letter (toupper a) then rules else other_rules);
          n = longest rs s
      in (n, snd (hd (filter (\<lambda>(f, b). f s = n) rs))))"
proof (cases "\<exists>a t. s = a # t \<and> \<not> letter (toupper a)")
  case True
  then show ?thesis using scan_nonletter by (auto simp: Let_def)
next
  case False
  then show ?thesis by (auto simp: scan_def Let_def split: list.split)
qed

text \<open>A file by its lines, a line by its cells between tabs.\<close>

fun joined :: "char \<Rightarrow> string list \<Rightarrow> string" where
  "joined c [] = []"
| "joined c [s] = s"
| "joined c (s # ss) = s @ c # joined c ss"

definition text_file :: "string list list \<Rightarrow> string" where
  "text_file ls = joined NL (map (joined TAB) ls)"

text \<open>The statements of a text without \<open>.bytes\<close>, parsed one by one.\<close>

function statements :: "stream \<Rightarrow> exp list option" where
  "statements ts =
     (case ts of
        [] \<Rightarrow> Some []
      | _ \<Rightarrow> (case parse_exp ts of Inl e \<Rightarrow> None | Inr (e, rest) \<Rightarrow> map_option (Cons e) (statements rest)))"
  by pat_completeness auto
termination by (relation "measure length") (auto dest!: parse_exp_shorter)

lemma statements_exps:
  "statements ts = Some es \<Longrightarrow> \<exists>us uss. ts = map Inr us \<and> us = concat uss \<and> list_all2 exp_rule es uss"
proof (induction ts arbitrary: es rule: statements.induct)
  case (1 ts)
  show ?case
  proof (cases ts)
    case Nil
    then show ?thesis using "1.prems" by (intro exI[of _ "[]"]) simp
  next
    case (Cons t ts')
    then obtain e rest fs where p: "parse_exp ts = Inr (e, rest)" "statements rest = Some fs" "es = e # fs"
      using "1.prems" by (auto split: sum.splits)
    obtain us uss where u: "rest = map Inr us" "us = concat uss" "list_all2 exp_rule fs uss"
      using "1.IH"[OF Cons p(1) refl p(2)] by blast
    from parse_exp_Inr[OF p(1)] have e: "ts = map Inr (used ts rest) @ rest" "exp_rule e (used ts rest)" by blast+
    show ?thesis
      by (rule exI[of _ "used ts rest @ us"], rule exI[of _ "used ts rest # uss"]) (use e u p(3) in simp)
  qed
qed

lemma statements_read: "statements (lex s) = Some es \<Longrightarrow> es \<noteq> [] \<Longrightarrow> reads s es"
  using statements_exps[of "lex s" es] by (auto simp: reads_def exps_rule_list)

end
