(* ===== verification/Rejects.thy ===== *)
theory Rejects
  imports Evaluate
begin

text \<open>
  Which programs the assembler accepts, in terms of their statements.
\<close>

section \<open>Errors in a program\<close>

text \<open>
  A statement that is wrong by itself: an immediate too wide for its field, an immediate where the
  mnemonic takes none, a reference through a register behind \<open>R7\<close>, a byte above 255.
\<close>

fun faulty :: "exp \<Rightarrow> bool" where
  "faulty (Fmt (Fmt_II_imm op c d a i)) \<longleftrightarrow> 0x1000 \<le> i"
| "faulty (Fmt (Fmt_VI_imm op c a i)) \<longleftrightarrow> op \<noteq> ''CMP'' \<or> 0x1000 \<le> i"
| "faulty (Data (Loadid k c d a i)) \<longleftrightarrow> 0x1000 \<le> i"
| "faulty (Data (Storeid k c d a i)) \<longleftrightarrow> 0x1000 \<le> i"
| "faulty (Pseudo (Loadadr c r n)) \<longleftrightarrow> get_reg_for_name r > 7"
| "faulty (Pseudo (Ldcall c r n)) \<longleftrightarrow> get_reg_for_name r > 7"
| "faulty (Pseudo (Ldjmp c r n)) \<longleftrightarrow> get_reg_for_name r > 7"
| "faulty (Directive (Byte i)) \<longleftrightarrow> i > 0xFF"
| "faulty (Directive (Bytes bs)) \<longleftrightarrow> list_ex (\<lambda>b. case b of Byte_INT i \<Rightarrow> i > 0xFF | _ \<Rightarrow> False) bs"
| "faulty e \<longleftrightarrow> False"

fun defines_label :: "exp \<Rightarrow> string list" where
  "defines_label (Directive (Label n)) = [n]"
| "defines_label e = []"

fun refers :: "exp \<Rightarrow> string list" where
  "refers (Pseudo (Loadadr c r n)) = [n]"
| "refers (Pseudo (Ldcall c r n)) = [n]"
| "refers (Pseudo (Ldjmp c r n)) = [n]"
| "refers e = []"

definition flawless :: "exp list \<Rightarrow> bool" where
  "flawless es \<longleftrightarrow> list_all (\<lambda>e. \<not> faulty e) es \<and> distinct (concat (map defines_label es)) \<and>
     set (concat (map refers es)) \<subseteq> set (concat (map defines_label es))"

section \<open>The same for chunks\<close>

fun labs :: "chunk list \<Rightarrow> string list" where
  "labs [] = []" | "labs (Lab n # cs) = n # labs cs" | "labs (_ # cs) = labs cs"

fun ref_names :: "chunk list \<Rightarrow> string list" where
  "ref_names [] = []" | "ref_names (Ref r c n # cs) = n # ref_names cs" | "ref_names (_ # cs) = ref_names cs"

lemma names_append: "labs (xs @ ys) = labs xs @ labs ys" "ref_names (xs @ ys) = ref_names xs @ ref_names ys"
  by (induction xs rule: labs.induct) simp_all

lemma accepted_labs: "accepted S cs \<longleftrightarrow> Bad \<notin> set cs \<and> distinct (labs cs) \<and> S \<inter> set (labs cs) = {}"
  by (induction S cs rule: accepted.induct) auto

lemma resolved_refs: "resolved L cs \<longleftrightarrow> set (ref_names cs) \<subseteq> dom L"
  by (induction L cs rule: resolved.induct) auto

lemma place_labs: "dom (place p d L cs) = dom L \<union> set (labs cs)"
  by (induction p d L cs rule: place.induct) (auto simp del: fun_upd_apply simp: fun_upd_def[symmetric])

lemma chunk_names_plain:
  "labs (replicate k (Code bs)) = []" "ref_names (replicate k (Code bs)) = []" "labs (bytes_chunks bs') = []" "ref_names (bytes_chunks bs') = []"
  "Bad \<in> set (bytes_chunks bs') \<longleftrightarrow> list_ex (\<lambda>b. case b of Byte_INT i \<Rightarrow> i > 0xFF | _ \<Rightarrow> False) bs'"
proof -
  show "labs (replicate k (Code bs)) = []" "ref_names (replicate k (Code bs)) = []" by (induction k) simp_all
  show "labs (bytes_chunks bs') = []" "ref_names (bytes_chunks bs') = []" 
   "Bad \<in> set (bytes_chunks bs') \<longleftrightarrow> list_ex (\<lambda>b. case b of Byte_INT i \<Rightarrow> i > 0xFF | _ \<Rightarrow> False) bs'"
    by (induction bs' rule: bytes_chunks.induct) simp_all
qed

lemma chunk_facts:
  "Bad \<in> set (chunks p e) \<longleftrightarrow> faulty e" "labs (chunks p e) = defines_label e" "\<not> faulty e \<Longrightarrow> ref_names (chunks p e) = refers e"
proof -
  have f: "Bad \<in> set (fmt_chunks f) \<longleftrightarrow> faulty (Fmt f)" "labs (fmt_chunks f) = []" "ref_names (fmt_chunks f) = []" for f
    by (cases f; simp add: check12_def wide12)+
  have d: "Bad \<in> set (data_chunks f) \<longleftrightarrow> faulty (Data f)" "labs (data_chunks f) = []" "ref_names (data_chunks f) = []" for f
    by (cases f; simp add: check12_def wide12)+
  have p: "Bad \<in> set (pseudo_chunks f) \<longleftrightarrow> faulty (Pseudo f)" "labs (pseudo_chunks f) = []"
    "\<not> faulty (Pseudo f) \<Longrightarrow> ref_names (pseudo_chunks f) = refers (Pseudo f)" for f
    by (cases f; simp add: ref_chunks_def Let_def)+
  have r: "Bad \<in> set (directive_chunks p f) \<longleftrightarrow> faulty (Directive f)" "labs (directive_chunks p f) = defines_label (Directive f)"
    "ref_names (directive_chunks p f) = []" for f
    by (cases f; simp add: chunk_names_plain)+
  show "Bad \<in> set (chunks p e) \<longleftrightarrow> faulty e" "labs (chunks p e) = defines_label e"
    "\<not> faulty e \<Longrightarrow> ref_names (chunks p e) = refers e"
    by (cases e; simp add: f d p r)+
qed

lemma prog_facts:
  "Bad \<in> set (prog_chunks p es) \<longleftrightarrow> \<not> list_all (\<lambda>e. \<not> faulty e) es" "labs (prog_chunks p es) = concat (map defines_label es)"
  "list_all (\<lambda>e. \<not> faulty e) es \<Longrightarrow> ref_names (prog_chunks p es) = concat (map refers es)"
  by (induction p es rule: prog_chunks.induct) (simp_all add: chunk_facts names_append)

lemma flawless_chunks:
  "accepted {} (prog_chunks 0 es) \<and> resolved (place 0 d Map.empty (prog_chunks 0 es)) (prog_chunks 0 es) \<longleftrightarrow> flawless es"
  unfolding accepted_labs resolved_refs place_labs prog_facts flawless_def
  using prog_facts(3)[of es 0] by (auto simp del: set_concat)

section \<open>Properties\<close>

text \<open>The files of \<open>tests/fail\<close>.\<close>

definition fail_V :: string where
  "fail_V = text_file
    [[''; Test for the FAIL instruction''],
     [''''],
     ['''', ''FAIL'', ''3'']]"

definition loadadr_fail_V :: string where
  "loadadr_fail_V = text_file
    [[''; It should not be possible to load an address into registers > R7''],
     [''''],
     ['''', ''.label _test''],
     ['''', ''LOADADR'', ''R8,'', ''_test''],
     ['''', ''STOP'']]"

definition unknown_label_V :: string where
  "unknown_label_V = text_file
    [[''; Test if unknown labels produce an error''],
     [''''],
     ['''', ''.label _label1''],
     [''''],
     ['''', ''''],
     ['''', ''LOADADR'', ''R0,'', ''_label2''],
     ['''', ''''],
     ['''', ''FAIL'', ''0x01'']]"

text \<open>
  C6. Which programs are assembled, in a layout as in the correctness of the assembler (nothing crosses a
  block, no \<open>.at\<close>, less than four gigabytes) and with an allocator that serves every request: a text
  that reads as some statements gives an image exactly when no statement is wrong by itself (an immediate
  above twelve bits where the format has twelve, an immediate for another mnemonic than \<open>CMP\<close>, a reference
  through a register above \<open>R7\<close>, a byte above 255), no label is defined twice, and every label that is
  referred to is defined; the image is then the linked code, and in every other case the assembler exits
  with status -1. (The manual has VASM truncate the immediate and the byte that are too large; the code
  rejects them.)
\<close>

theorem vasm_accepts:
  assumes "\<And>n. heap n" and "reads yyin es" and "fits_all 0 (prog_chunks 0 es)"
  shows "vasm heap None yyin =
    (if flawless es then Inr (map Some (link (place 0 4096 Map.empty (prog_chunks 0 es)) (prog_chunks 0 es)))
     else Inl (Exit (- 1)))"
proof -
  have "vasm heap None yyin = vasm_main heap None es" using assms(2) vasm_derives by (auto simp: reads_def)
  then show ?thesis using vasm_main_links[OF assms(1,3)] flawless_chunks[of es 4096] by (simp add: Let_def)
qed

theorem vasm_accepts_witness:
  "vasm (\<lambda>n. True) None fail_V = Inr (map Some [0xC1, 0, 3, 0]) \<and>
   vasm (\<lambda>n. True) None loadadr_fail_V = Inl (Exit (- 1)) \<and> vasm (\<lambda>n. True) None unknown_label_V = Inl (Exit (- 1))"
proof -
  let ?a = "[ENDL, SPACE, Fmt (Fmt_VIII ''FAIL'' None 3)]"
  let ?b = "[ENDL, SPACE, Directive (Label ''_TEST''), ENDL, SPACE, Pseudo (Loadadr None ''R8'' ''_TEST''), ENDL, SPACE,
    Fmt (Fmt_I ''STOP'' None)]"
  let ?c = "[ENDL, SPACE, Directive (Label ''_LABEL1''), ENDL, ENDL, SPACE, ENDL, SPACE, Pseudo (Loadadr None ''R0'' ''_LABEL2''),
    ENDL, SPACE, ENDL, SPACE, Fmt (Fmt_VIII ''FAIL'' None 1)]"
  have reads: "reads fail_V ?a" "reads loadadr_fail_V ?b" "reads unknown_label_V ?c"
    by (rule statements_read, code_simp, simp)+
  have names: "get_reg_for_name ''R0'' = 0" "get_reg_for_name ''R8'' = 8" "get_op_for_name ''FAIL'' = OP_FAIL"
    "get_op_for_name ''STOP'' = OP_STOP" by code_simp+
  have fits: "fits_all 0 (prog_chunks 0 ?a)" "fits_all 0 (prog_chunks 0 ?b)" "fits_all 0 (prog_chunks 0 ?c)"
    by (simp_all add: names ref_chunks_def code_eqs)
  have img: "link L (prog_chunks 0 ?a) = [0xC1, 0, 3, 0]" for L
    by (simp add: names cond_code_def code_eqs)
  have flaws: "flawless ?a" "\<not> flawless ?b" "\<not> flawless ?c"
    by (simp_all add: flawless_def names)
  show ?thesis
    using vasm_accepts[of "\<lambda>n. True", OF TrueI reads(1) fits(1)] vasm_accepts[of "\<lambda>n. True", OF TrueI reads(2) fits(2)]
      vasm_accepts[of "\<lambda>n. True", OF TrueI reads(3) fits(3)]
    unfolding img by (simp only: flaws if_True if_False)
qed

end
