(* ===== verification/Programs.thy ===== *)
theory Programs
  imports Isa Rejects
begin

text \<open>
  Programs of the repository's test directory, from their text to the status with which the emulator
  exits.
\<close>

unbundle bit_operations_syntax

section \<open>Flags\<close>

lemma set_fl_frame [simp]: "r \<noteq> CPU_REG_FLGS \<Longrightarrow> set_fl b f R r = R r"
  by (simp add: set_fl_def)

lemma fl_set_fl: "f \<noteq> 0 \<Longrightarrow> fl (set_fl b f R) f = b"
  by (auto simp: fl_def set_fl_def bit.conj_disj_distrib2 and.assoc)

lemma fl_other: "g AND f = 0 \<Longrightarrow> fl (set_fl b g R) f = fl R f"
proof -
  assume none: "g AND f = 0"
  then have "NOT g AND f = f" by (auto simp: bit_eq_iff bit_simps)
  then show ?thesis using none by (auto simp: fl_def set_fl_def bit.conj_disj_distrib2 and.assoc)
qed

lemma fl_upd [simp]: "r \<noteq> CPU_REG_FLGS \<Longrightarrow> fl (R(r := v)) f = fl R f"
  by (simp add: fl_def)

lemma skips_flags:
  "condition i = COND_ALWAYS \<Longrightarrow> isa_skips i R \<longleftrightarrow> False"
  "condition i = COND_NZ \<Longrightarrow> isa_skips i R \<longleftrightarrow> fl R FLGS_Z"
  "condition i = COND_IC \<Longrightarrow> isa_skips i R \<longleftrightarrow> \<not> fl R FLGS_C"
  by (simp_all add: isa_skips_def cond_holds_def fl_def Let_def)

section \<open>Straight-line programs\<close>

text \<open>
  An image of straight-line code up to a \<open>STOP\<close> or \<open>FAIL\<close> makes the emulator exit with its status,
  whatever the registers hold at the start.
\<close>

definition halts_with :: "byte list \<Rightarrow> int \<Rightarrow> bool" where
  "halts_with w r \<longleftrightarrow> opcode (ins_code w) = OP_STOP \<and> r = 0 \<or> opcode (ins_code w) = OP_FAIL \<and> r = uint (imm16 (ins_code w))"

lemma halt_exit:
  assumes "wf_machine m" and "words_at (ectx m) (get_pos (ectx m)) (w # us)" and "\<not> isa_skips (ins_code w) (reg_of (ectx m))"
    and "halts_with w r"
  shows "cpu_loop False m 0 = Some (Inr (r, fetched m))"
proof -
  have i: "next_ins m = ins_code w" and fit: "fits 4 (get_pos (ectx m)) (ectx m)" using assms(2) by (simp_all add: next_ins_def)
  have "runs m" using assms(3) by (simp add: runs_isa i)
  with cpu_pass_norm[OF _ fit, of 0] assms(1,4) show ?thesis
    by (auto intro!: cpu_loop_done(1) simp: i wf_machine_def halts_with_def)
qed

lemma words_at_append: "words_at s p (vs @ ws) \<longleftrightarrow> words_at s p vs \<and> words_at s (p + 4 * of_nat (length vs)) ws"
  by (induction vs arbitrary: p) (auto simp: algebra_simps)

lemma words_at_memory: "memory_context s = memory_context t \<Longrightarrow> words_at s p ws = words_at t p ws"
  by (induction ws arbitrary: p) (simp_all add: ins_at_def mem_at_def fits_def)

lemma length_words: "list_all (\<lambda>w. length w = 4) ws \<Longrightarrow> length (concat ws) = 4 * length ws"
  by (induction ws) simp_all

lemma program_exit:
  assumes "\<forall>n x. ok n x" and "files path = Some (concat ws)" and "list_all (\<lambda>w. length w = 4) ws" and "length ws \<le> 1000000"
    and "ws = vs @ w # us" and "halts_with w r"
    and ends: "\<And>R. \<exists>R'. isa_lines vs R = Some R' \<and> \<not> isa_skips (ins_code w) R'"
  shows "\<exists>m. main ok jr jc files [prog, path] = Some (Inr (r, m))"
proof -
  have "length (concat ws) \<le> 4194304 - 4096" using length_words[OF assms(3)] assms(4) by simp
  then obtain m where m: "emu_load_img files path (init_machine jr jc) = Inr m" "wf_machine m"
    "get_pos (ectx m) = 4096" "code_at (ectx m) 4096 (concat ws)"
    using loaded_code[of files path "concat ws" jr jc] assms(2) by blast
  have "words_at (ectx m) 4096 (vs @ w # us)" using code_words[OF m(4) assms(3)] unfolding assms(5) .
  then have at: "words_at (ectx m) 4096 vs" "words_at (ectx m) (4096 + 4 * of_nat (length vs)) (w # us)"
    unfolding words_at_append by blast+
  obtain R where R: "isa_lines vs (reg_of (ectx m)) = Some R" "\<not> isa_skips (ins_code w) R" using ends by blast
  have "isa_run (ectx m) (length vs) (view m) = Some (4096 + 4 * of_nat (length vs), R)"
    using isa_run_lines[OF at(1) R(1)] m(3) by (simp add: view_def)
  from isa_run_refined[OF m(2) this] obtain m' where m': "reaches (length vs) m m'"
    "view m' = (4096 + 4 * of_nat (length vs), R)" "same_rest m m'" "wf_machine m'" by blast
  have "words_at (ectx m') (get_pos (ectx m')) (w # us)"
    using at(2) m'(2,3) words_at_memory[of "ectx m'" "ectx m"] by (simp add: view_def same_rest_def del: words_at.simps)
  from halt_exit[OF m'(4) this _ assms(6)] have "cpu_loop False m' 0 = Some (Inr (r, fetched m'))"
    using R(2) m'(2) by (simp add: view_def)
  moreover have "main ok jr jc files [prog, path] = cpu_loop False m' 0"
    using cpu_loop_reaches[OF m'(1)] m(1) by (simp add: main_def emu_init_ok[OF assms(1)] cpu_execute_def)
  ultimately show ?thesis by simp
qed

text \<open>Statements that are one instruction each assemble to the instructions.\<close>

lemma fits_words:
  "list_all (\<lambda>w. length w = 4) ws \<Longrightarrow> k + length ws \<le> 1000000 \<Longrightarrow> fits_all (4 * k) (map Code ws)"
proof (induction ws arbitrary: k)
  case (Cons w ws)
  have "4 * k mod 512 = 4 * (k mod 128)" by (simp add: mult_mod_right)
  moreover have "k mod 128 < 128" by simp
  ultimately have "4 * k mod 512 + 4 \<le> 512" by linarith
  moreover have "fits_all (4 * Suc k) (map Code ws)" using Cons.IH[of "Suc k"] Cons.prems by simp
  ultimately show ?case using Cons.prems by (auto simp: add.commute)
qed simp

lemma link_words: "link L (map Code ws) = concat ws" "accepted S (map Code ws)" "resolved L (map Code ws)"
  by (induction ws) simp_all

lemma vasm_words:
  assumes "\<And>n. heap n" and "reads yyin es" and "prog_chunks 0 es = map Code ws"
    and "list_all (\<lambda>w. length w = 4) ws" and "length ws \<le> 1000000"
  shows "vasm heap None yyin = Inr (map Some (concat ws))"
proof -
  have "fits_all 0 (prog_chunks 0 es)" using fits_words[OF assms(4), of 0] assms(3,5) by simp
  from vasm_main_links[OF assms(1) this] show ?thesis
    using assms(2) vasm_derives[of yyin _ es heap None] by (auto simp: assms(3) link_words reads_def)
qed

section \<open>The 64-bit adder\<close>

text \<open>The statements of \<open>tests/64adder.V\<close>, for all constants.\<close>

definition adder :: "dword \<Rightarrow> dword \<Rightarrow> dword \<Rightarrow> dword \<Rightarrow> dword \<Rightarrow> exp list" where
  "adder lo hi b x y =
     [SPACE, Pseudo (Load32 None ''R0'' lo), ENDL,
      SPACE, Pseudo (Load32 None ''R1'' hi), ENDL,
      SPACE, Pseudo (Load32 None ''R2'' b), ENDL,
      SPACE, Fmt (Fmt_II ''ADD'' None ''R0'' ''R0'' ''R2''), ENDL,
      SPACE, Fmt (Fmt_II_imm ''ADD'' (Some ''IC'') ''R1'' ''R1'' 1), ENDL,
      SPACE, Pseudo (Load32 None ''R3'' x), ENDL,
      SPACE, Pseudo (Load32 None ''R4'' y), ENDL,
      SPACE, Fmt (Fmt_VI ''CMP'' None ''R3'' ''R0''), ENDL,
      SPACE, Fmt (Fmt_VIII ''FAIL'' (Some ''NZ'') 1), ENDL,
      SPACE, Fmt (Fmt_VI ''CMP'' None ''R4'' ''R1''), ENDL,
      SPACE, Fmt (Fmt_VIII ''FAIL'' (Some ''NZ'') 2), ENDL,
      SPACE, Fmt (Fmt_I ''STOP'' None), ENDL, SPACE, ENDL, SPACE, ENDL]"

definition load_words :: "byte \<Rightarrow> dword \<Rightarrow> byte list list" where
  "load_words n v = [code_iv (1, 0, OP_LOADI, n * 2, ucast v), code_iv (1, 0, OP_LOADI, n * 2 + 1, ucast (drop_bit 16 v))]"

abbreviation fail_nz :: "word16 \<Rightarrow> byte list" where
  "fail_nz k \<equiv> code_iv (3, COND_NZ, OP_FAIL, 0, k)"

definition sum_words :: "dword \<Rightarrow> dword \<Rightarrow> dword \<Rightarrow> byte list list" where
  "sum_words lo hi b = load_words 0 lo @ load_words 1 hi @ load_words 2 b @
     [code_ii (0, 0, OP_ADD, 0, 0, 2), code_iii (3, COND_IC, OP_ADD, 1, 1, 1)]"

definition adder_words :: "dword \<Rightarrow> dword \<Rightarrow> dword \<Rightarrow> dword \<Rightarrow> dword \<Rightarrow> byte list list" where
  "adder_words lo hi b x y = sum_words lo hi b @ load_words 3 x @ load_words 4 y @ [code_ii (0, 0, OP_CMP, 0, 3, 0), fail_nz 1,
     code_ii (0, 0, OP_CMP, 0, 4, 1), fail_nz 2, code_i (0, 0, OP_STOP)]"

lemma adder_chunks: "prog_chunks 0 (adder lo hi b x y) = map Code (adder_words lo hi b x y)"
  by (simp add: adder_def adder_words_def sum_words_def load_words_def Let_def check12_def cond_code_def
      get_reg_for_name_def reg32lkupbuf_def get_op_for_name_def oplkupbuf_def get_cond_for_name_def)

lemma adder_size: "list_all (\<lambda>w. length w = 4) (adder_words lo hi b x y)" "length (adder_words lo hi b x y) \<le> 1000000"
  by (simp_all add: adder_words_def sum_words_def load_words_def code_eqs)

lemma lines_load:
  assumes "n < 8"
  shows "isa_lines (load_words n v @ ws) R = isa_lines ws (R(n := v))"
proof -
  note h = halves[OF assms]
  have "isa_covers i" if "opcode i = OP_LOADI" for i using that by (simp add: isa_covers_def isa_ops_def)
  then show ?thesis using h set_halves[of v "R n"]
    by (simp add: load_words_def isa_skips_def isa_effect_def put_part_def Let_def)
qed

lemma lines_sum: "\<exists>R'. isa_lines (sum_words lo hi b) R = Some R' \<and> R' 0 = lo + b \<and>
    R' 1 = (if 2 ^ 32 \<le> unat lo + unat b then hi + 1 else hi)"
proof -
  let ?add = "code_ii (0, 0, OP_ADD, 0, 0, 2)" and ?addic = "code_iii (3, COND_IC, OP_ADD, 1, 1, 1)"
  define S where "S = isa_effect (ins_code ?add) (R(0 := lo, 1 := hi, 2 := b))"
  have covers: "isa_covers (ins_code ?add)" "isa_covers (ins_code ?addic)" by (simp_all add: isa_covers_def isa_ops_def)
  have S: "S 0 = lo + b" "S 1 = hi" "fl S FLGS_C \<longleftrightarrow> 2 ^ 32 \<le> unat lo + unat b"
    unfolding S_def by (simp_all add: isa_effect_def source_b_def fl_set_fl Let_def)
  have T: "isa_effect (ins_code ?addic) S 0 = S 0" "isa_effect (ins_code ?addic) S 1 = S 1 + 1"
    by (simp_all add: isa_effect_def source_b_def Let_def)
  have "isa_lines (sum_words lo hi b) R = isa_lines [?add, ?addic] (R(0 := lo, 1 := hi, 2 := b))"
    by (simp add: sum_words_def lines_load del: isa_lines.simps)
  also have "\<dots> = isa_lines [?addic] S" using covers(1) by (simp add: S_def skips_flags Let_def)
  also have "\<dots> = Some (if fl S FLGS_C then isa_effect (ins_code ?addic) S else S)" using covers(2) by (simp add: skips_flags Let_def)
  finally show ?thesis using S T by simp
qed

lemma lines_cmp:
  assumes "a < 16" and "b < 16"
  shows "\<exists>R'. isa_lines (code_ii (0, 0, OP_CMP, 0, a, b) # ws) R = isa_lines ws R' \<and>
    (\<forall>r. r \<noteq> CPU_REG_FLGS \<longrightarrow> R' r = R r) \<and> (fl R' FLGS_Z \<longleftrightarrow> R a = R b)"
proof -
  let ?i = "ins_code (code_ii (0, 0, OP_CMP, 0, a, b))"
  have i: "isa_covers ?i" "\<not> isa_skips ?i R" "opcode ?i = OP_CMP"
    using assms by (simp_all add: isa_covers_def isa_ops_def isa_skips_def)
  have "fl (isa_effect ?i R) FLGS_Z \<longleftrightarrow> R a = R b"
    using assms by (simp add: isa_effect_def source_b_def Let_def fl_set_fl fl_other)
  moreover have "isa_effect ?i R r = R r" if "r \<noteq> CPU_REG_FLGS" for r
    using assms that by (simp add: isa_effect_def Let_def)
  ultimately show ?thesis using i by (intro exI[of _ "isa_effect ?i R"]) (simp add: Let_def)
qed

lemma lines_one: "\<not> isa_skips (ins_code w) R \<Longrightarrow> isa_covers (ins_code w) \<Longrightarrow> opcode (ins_code w) \<noteq> OP_JMP \<Longrightarrow> 
   opcode (ins_code w) \<noteq> OP_CALL \<Longrightarrow> isa_lines (w # ws) R = isa_lines ws (isa_effect (ins_code w) R)"
  "isa_skips (ins_code w) R \<Longrightarrow> isa_lines (w # ws) R = isa_lines ws R"
  by (simp_all add: Let_def)

lemma ends:
  "isa_skips (ins_code (fail_nz k)) R \<longleftrightarrow> fl R FLGS_Z" "halts_with (fail_nz k) (uint k)"
  "\<not> isa_skips (ins_code (code_i (0, 0, OP_STOP))) R" "halts_with (code_i (0, 0, OP_STOP)) 0"
  by (simp_all add: skips_flags halts_with_def) (simp_all add: ins_code_def code_eqs decode_bytes_def isa_skips_def)

lemma lines_adder:
  assumes "H = (if 2 ^ 32 \<le> unat lo + unat b then hi + 1 else hi)"
    and "vs = sum_words lo hi b @ load_words 3 x @ load_words 4 y @ [code_ii (0, 0, OP_CMP, 0, 3, 0)]"
  shows "\<exists>R'. isa_lines vs R = Some R' \<and> (fl R' FLGS_Z \<longleftrightarrow> lo + b = x) \<and> R' 1 = H \<and> R' 4 = y"
proof -
  obtain S where S: "isa_lines (sum_words lo hi b) R = Some S" "S 0 = lo + b" "S 1 = H"
    using lines_sum[of lo hi b R] assms(1) by auto
  obtain T where T: "isa_lines [code_ii (0, 0, OP_CMP, 0, 3, 0)] (S(3 := x, 4 := y)) = Some T"
    "\<forall>r. r \<noteq> CPU_REG_FLGS \<longrightarrow> T r = (S(3 := x, 4 := y)) r" "fl T FLGS_Z \<longleftrightarrow> x = S 0"
    using lines_cmp[of 3 0 "[]" "S(3 := x, 4 := y)"] by auto
  have "isa_lines vs R = Some T"
    unfolding assms(2) isa_lines_append[of "sum_words lo hi b"] S(1) by (simp add: lines_load T(1) del: isa_lines.simps)
  then show ?thesis using S T(2,3) by auto
qed

lemma adder_exit:
  assumes "\<forall>n x. ok n x" and "files path = Some (concat (adder_words lo hi b x y))"
    and H: "H = (if 2 ^ 32 \<le> unat lo + unat b then hi + 1 else hi)"
  shows "\<exists>m. main ok jr jc files [prog, path] = Some (Inr (if lo + b \<noteq> x then 1 else if H \<noteq> y then 2 else 0, m))"
proof -
  define vs where "vs = sum_words lo hi b @ load_words 3 x @ load_words 4 y @ [code_ii (0, 0, OP_CMP, 0, 3, 0)]"
  define cmp where "cmp = code_ii (0, 0, OP_CMP, 0, 4, 1)"
  let ?stop = "code_i (0, 0, OP_STOP)"
  have words: "adder_words lo hi b x y = vs @ [fail_nz 1, cmp, fail_nz 2, ?stop]"
    by (simp add: adder_words_def vs_def cmp_def)
  note exits = program_exit[of ok files path "adder_words lo hi b x y", OF assms(1,2) adder_size]
  have first: "\<exists>R'. isa_lines vs R = Some R' \<and> (fl R' FLGS_Z \<longleftrightarrow> lo + b = x) \<and> R' 1 = H \<and> R' 4 = y" for R
    using lines_adder[OF H vs_def] .
  have second: "\<exists>R'. isa_lines (vs @ [fail_nz 1, cmp]) R = Some R' \<and> (fl R' FLGS_Z \<longleftrightarrow> H = y)" if "lo + b = x" for R
  proof -
    obtain S where S: "isa_lines vs R = Some S" "fl S FLGS_Z" "S 1 = H" "S 4 = y" using first[of R] \<open>lo + b = x\<close> by auto
    obtain T where "isa_lines [cmp] S = Some T" "fl T FLGS_Z \<longleftrightarrow> S 4 = S 1"
      using lines_cmp[of 4 1 "[]" S] by (auto simp: cmp_def)
    then show ?thesis using S by (auto simp: isa_lines_append lines_one(2) ends simp del: isa_lines.simps(2))
  qed
  consider (low) "lo + b \<noteq> x" | (high) "lo + b = x" "H \<noteq> y" | (same) "lo + b = x" "H = y" by blast
  then show ?thesis
  proof cases
    case low
    have "\<exists>R'. isa_lines vs R = Some R' \<and> \<not> isa_skips (ins_code (fail_nz 1)) R'" for R
      using first[of R] low by (auto simp: ends)
    from exits[OF words ends(2) this] low show ?thesis by simp
  next
    case high
    have "\<exists>R'. isa_lines (vs @ [fail_nz 1, cmp]) R = Some R' \<and> \<not> isa_skips (ins_code (fail_nz 2)) R'" for R
      using second[of R] high by (auto simp: ends)
    from exits[OF _ ends(2) this, of "[?stop]"] high words show ?thesis by simp
  next
    case same
    have "\<exists>R'. isa_lines (vs @ [fail_nz 1, cmp, fail_nz 2]) R = Some R' \<and> \<not> isa_skips (ins_code ?stop) R'" for R
      using second[of R] same isa_lines_append[of "vs @ [fail_nz 1, cmp]" "[fail_nz 2]" R]
      by (auto simp: ends lines_one(2) simp del: isa_lines.simps(2))
    from exits[OF _ ends(4) this, of "[]"] same words show ?thesis by simp
  qed
qed

section \<open>Properties\<close>

text \<open>
  C5. The test program \<open>64adder.V\<close> from its text to the exit status, for all constants: \<open>vasm\<close> accepts every
  text of these statements, and the emulator, started on the image whatever its registers hold, returns
  with status 0 when the 64-bit sum of \<open>hi:lo\<close> and \<open>b\<close>, modulo 2^64, is \<open>y:x\<close>, with 1 when the low dwords
  differ and with 2 when only the high ones do.
\<close>

theorem adder_program:
  assumes "\<And>n. heap n" and "\<forall>n x. ok n x" and "reads yyin (adder lo hi b x y)"
    and "sum64 = (2 ^ 32 * uint hi + uint lo + uint b) mod 2 ^ 64"
  shows "\<exists>img. vasm heap None yyin = Inr (map Some img) \<and>
    (files path = Some img \<longrightarrow> (\<exists>m. main ok jr jc files [prog, path] =
       Some (Inr (if sum64 mod 2 ^ 32 \<noteq> uint x then 1 else if sum64 div 2 ^ 32 \<noteq> uint y then 2 else 0, m))))"
proof -
  define H where "H = (if 2 ^ 32 \<le> unat lo + unat b then hi + 1 else hi)"
  have sum: "sum64 = 2 ^ 32 * uint H + uint (lo + b)"
    using add_with_carry[of lo b hi] assms(4) unfolding H_def by (simp only: add.commute add.left_commute)
  have "uint (lo + b) < 2 ^ 32" using uint_bounded[of "lo + b"] by simp
  then have "sum64 mod 2 ^ 32 = uint (lo + b)" "sum64 div 2 ^ 32 = uint H" unfolding sum by simp_all
  then have flags: "sum64 mod 2 ^ 32 \<noteq> uint x \<longleftrightarrow> lo + b \<noteq> x" "sum64 div 2 ^ 32 \<noteq> uint y \<longleftrightarrow> H \<noteq> y"
    by (simp_all only: word_uint_eq_iff)
  have img: "vasm heap None yyin = Inr (map Some (concat (adder_words lo hi b x y)))"
    using assms(1,3) adder_chunks adder_size by (rule vasm_words)
  show ?thesis unfolding flags using img adder_exit[OF assms(2) _ H_def] by blast
qed

text \<open>The file \<open>tests/64adder.V\<close>.\<close>

definition adder_V :: string where
  "adder_V = text_file
    [['';''],
     [''; Add a 32 bit unsigned number to a 64 bit unsigned number''],
     [''; 0xFFFFFFFF + 0x00000003 = 0x0000000100000002''],
     ['';''],
     ['''', ''load32'', ''r0,'', ''@0xFFFFFFFF''],
     ['''', ''load32'', ''r1,'', ''@0x00000000''],
     ['''', ''load32'', ''r2,'', ''@0x00000003''],
     ['''', ''add'', ''r0,'', ''r0,'', ''r2''],
     ['''', ''addic'', ''r1,'', ''r1,'', ''1''],
     ['''', ''load32'', ''r3,'', ''@0x00000002''],
     ['''', ''load32'', ''r4,'', ''@0x00000001''],
     ['''', ''cmp'', ''r3,'', ''r0''],
     ['''', ''failnz'', ''0x01''],
     ['''', ''cmp'', ''r4,'', ''r1''],
     ['''', ''failnz'', ''0x02''],
     ['''', ''stop''],
     ['''', ''''],
     ['''', ''''],
     ['''']]"

theorem adder_program_witness:
  "\<exists>img m. vasm (\<lambda>n. True) None adder_V = Inr (map Some img) \<and>
     main (\<lambda>n x. True) (\<lambda>_. 7) (\<lambda>_. 8) (\<lambda>_. Some img) [''va'', ''64adder''] = Some (Inr (0, m))"
proof -
  have read: "reads adder_V (adder 0xFFFFFFFF 0 3 2 1)"
    by (rule statements_read) (code_simp, simp add: adder_def)
  note runs = adder_program[of "\<lambda>n. True" "\<lambda>n x. True", OF TrueI _ read refl, of _ "''64adder''" "\<lambda>_. 7" "\<lambda>_. 8" "''va''"]
  obtain img where img: "vasm (\<lambda>n. True) None adder_V = Inr (map Some img)" using runs by blast
  obtain img' where img': "vasm (\<lambda>n. True) None adder_V = Inr (map Some img')"
    "img = img' \<longrightarrow> (\<exists>m. main (\<lambda>n x. True) (\<lambda>_. 7) (\<lambda>_. 8) (\<lambda>_. Some img) [''va'', ''64adder''] = Some (Inr (0, m)))"
    using runs[of "\<lambda>_. Some img"] by auto
  have "img' = img" using img img'(1) by (simp add: inj_map_eq_map)
  then show ?thesis using img img'(2) by blast
qed

end
