(* ===== verification/X86tov.thy ===== *)
theory X86tov
  imports Programs Cmdline
begin

text \<open>
  The translator \<^verbatim>\<open>src/assembler/x86tov.l\<close> and \<^verbatim>\<open>src/assembler/x86tov.y\<close>, which turns some x86 assembly into
  assembly for the emulated processor: its lexer, its grammar with the text that each action prints, and
  \<open>main\<close>, which reads the file \<^verbatim>\<open>test.S\<close>.
\<close>

section \<open>The lexer\<close>

datatype x86_token =
    X_ENDL | X_SPACE | X_INT int | X_MREG32 string | X_COMMA | X_REG32 string
  | X_MOVL string | X_PUSHL string | X_IMULL string | X_RET string | X_LEAL string | X_GARBAGE

text \<open>Patterns, as for the assembler, but with respect for case.\<close>

definition word :: "string \<Rightarrow> string \<Rightarrow> nat" where
  "word w s = (if take (length w) s = w then length w else 0)"

definition words :: "string list \<Rightarrow> string \<Rightarrow> nat" where
  "words ws s = foldr (\<lambda>w. max (word w s)) ws 0"

definition x86_REG32 :: "string list" where
  "x86_REG32 = [''%eax'', ''%ebx'', ''%ecx'', ''%edx'', ''%ebp'', ''%esp'']"

definition x86_int :: "string \<Rightarrow> nat" where
  "x86_int = p_dec"

definition x86_endl :: "string \<Rightarrow> nat" where
  "x86_endl = words [[NL], [CHR 0x0D, NL]]"

definition x86_mreg :: "string \<Rightarrow> nat" where
  "x86_mreg = words (map (\<lambda>r. CHR ''('' # r @ '')'') x86_REG32)"

text \<open>
  \<open>remove_brackets\<close> allocates a block without room for a terminating zero and writes none, so whoever reads
  its result as a string goes on behind the block: \<open>junk\<close> is what the memory holds there, up to a zero.
\<close>

definition remove_brackets :: "string \<Rightarrow> string \<Rightarrow> string" where
  "remove_brackets junk c = take (length c - 2) (drop 1 c) @ junk"

type_synonym x86_action = "string \<Rightarrow> string \<Rightarrow> x86_token option"

definition x86_rules :: "((string \<Rightarrow> nat) \<times> x86_action) list" where
  "x86_rules =
     [(x86_endl, \<lambda>junk yytext. Some X_ENDL),
      (span blank, \<lambda>junk yytext. Some X_SPACE),
      (followed (word ''$'') x86_int, \<lambda>junk yytext. Some (X_INT (atoi (tl yytext)))),
      (x86_int, \<lambda>junk yytext. Some (X_INT (atoi yytext))),
      (x86_mreg, \<lambda>junk yytext. Some (X_MREG32 (tl (remove_brackets junk yytext)))),
      (p_comma, \<lambda>junk yytext. Some X_COMMA),
      (words x86_REG32, \<lambda>junk yytext. Some (X_REG32 (tl yytext))),
      (word ''movl'', \<lambda>junk yytext. Some (X_MOVL yytext)),
      (word ''pushl'', \<lambda>junk yytext. Some (X_PUSHL yytext)),
      (word ''imull'', \<lambda>junk yytext. Some (X_IMULL yytext)),
      (word ''ret'', \<lambda>junk yytext. Some (X_RET yytext)),
      (word ''leal'', \<lambda>junk yytext. Some (X_LEAL yytext)),
      (word ''IGND'', \<lambda>junk yytext. None),
      (p_any, \<lambda>junk yytext. Some X_GARBAGE)]"

definition x86_scan :: "string \<Rightarrow> nat \<times> x86_action" where
  "x86_scan s = (let n = longest x86_rules s in (n, snd (hd (filter (\<lambda>(f, a). f s = n) x86_rules))))"

lemma x86_rules_pos:
  assumes "s \<noteq> []"
  shows "0 < longest x86_rules s"
proof -
  have rules: "(x86_endl, \<lambda>junk yytext. Some X_ENDL) \<in> set x86_rules" "(p_any, \<lambda>junk yytext. Some X_GARBAGE) \<in> set x86_rules"
    by (simp_all only: x86_rules_def set_simps insert_iff refl simp_thms)
  have "0 < x86_endl s \<or> 0 < p_any s"
    using assms by (cases s) (auto simp: x86_endl_def words_def word_def p_any_def)
  then show ?thesis using longest_ge[OF rules(1), of s] longest_ge[OF rules(2), of s] by linarith
qed

text \<open>The tokens of a text; \<open>junk\<close> may differ from block to block.\<close>

function x86_lex :: "(nat \<Rightarrow> string) \<Rightarrow> string \<Rightarrow> x86_token list" where
  "x86_lex junk s =
     (if s = [] then []
      else
        let (n, act) = x86_scan s; ts = x86_lex junk (drop n s) in
        case act (junk (length s)) (take n s) of None \<Rightarrow> ts | Some t \<Rightarrow> t # ts)"
  by pat_completeness auto
termination
  by (relation "measure (length \<circ> snd)") (auto simp: x86_scan_def Let_def x86_rules_pos)

declare x86_lex.simps [simp del]

section \<open>The grammar\<close>

definition translate_reg :: "string \<Rightarrow> string" where
  "translate_reg reg =
     (if reg = ''ebp'' then ''bp''
      else if reg = ''esp'' then ''sp''
      else if reg = ''eax'' then ''r0''
      else if reg = ''ebx'' then ''r1''
      else if reg = ''ecx'' then ''r2''
      else if reg = ''edx'' then ''r3''
      else ''n/a'')"

text \<open>\<open>%d\<close>, and an instruction line: a mnemonic, two tabs, and the operands.\<close>

fun digits :: "nat \<Rightarrow> string" where
  "digits n = (if n < 10 then [''0123456789'' ! n] else digits (n div 10) @ [''0123456789'' ! (n mod 10)])"

declare digits.simps [simp del]

definition fmt_d :: "int \<Rightarrow> string" where
  "fmt_d i = (if i < 0 then CHR ''-'' # digits (nat (- i)) else digits (nat i))"

definition line :: "string \<Rightarrow> string list \<Rightarrow> string" where
  "line op args = op @ [TAB, TAB] @ joined CHR '','' (case args of [] \<Rightarrow> [] | a # as \<Rightarrow> a # map (Cons CHR '' '') as) @ [NL]"

definition load_offset :: "int \<Rightarrow> string" where
  "load_offset k = line ''xchg'' [''ra'', ''r0''] @ line ''load32'' [''r0'', fmt_d k] @ line ''xchg'' [''ra'', ''r0'']"

definition load_constant :: "int \<Rightarrow> string" where
  "load_constant c = line ''xchg'' [''r9'', ''r0''] @ line ''load32'' [''r0'', fmt_d c] @ line ''xchg'' [''r9'', ''r0'']"

definition note_of :: "string list \<Rightarrow> string" where
  "note_of parts = ''; '' @ concat parts @ [NL]"

text \<open>One alternative of \<open>exp\<close>: what it prints and the tokens behind it; no alternative is a syntax error.\<close>

definition two_regs :: "x86_token list \<Rightarrow> (string \<times> string \<times> x86_token list) option" where
  "two_regs ts = (case ts of X_SPACE # X_REG32 a # X_COMMA # X_REG32 b # ts \<Rightarrow> Some (a, b, ts) | _ \<Rightarrow> None)"

definition one_reg :: "x86_token list \<Rightarrow> (string \<times> x86_token list) option" where
  "one_reg ts = (case ts of X_SPACE # X_REG32 a # ts \<Rightarrow> Some (a, ts) | _ \<Rightarrow> None)"

definition x86_mov_regs :: "string \<Rightarrow> x86_token list \<Rightarrow> (string \<times> x86_token list) option" where
  "x86_mov_regs op ts =
     map_option (\<lambda>(a, b, ts).
       (note_of [op, '' %'', a, '', %'', b] @ line ''mov'' [translate_reg a, translate_reg b], ts)) (two_regs ts)"

definition x86_store :: "string \<Rightarrow> x86_token list \<Rightarrow> (string \<times> x86_token list) option" where
  "x86_store op ts =
     (case ts of
        X_SPACE # X_INT c # X_COMMA # X_INT k # X_MREG32 m # ts \<Rightarrow>
          Some (note_of [op, '' '', fmt_d c, '', '', fmt_d k, ''(%'', m, '')''] @ load_offset k @ load_constant c @
            line ''storerd'' [translate_reg m, ''ra'', ''r5''], ts)
      | _ \<Rightarrow> None)"

definition x86_load :: "string \<Rightarrow> x86_token list \<Rightarrow> (string \<times> x86_token list) option" where
  "x86_load op ts =
     (case ts of
        X_SPACE # X_INT k # X_MREG32 m # X_COMMA # X_REG32 b # ts \<Rightarrow>
          Some (note_of [op, '' '', fmt_d k, ''(%'', m, ''), '', b] @ load_offset k @
            line ''loadrd'' [translate_reg b, translate_reg m, ''ra''], ts)
      | _ \<Rightarrow> None)"

definition x86_movl :: "string \<Rightarrow> x86_token list \<Rightarrow> (string \<times> x86_token list) option" where
  "x86_movl op ts =
     (case x86_mov_regs op ts of
        Some r \<Rightarrow> Some r
      | None \<Rightarrow> (case x86_store op ts of Some r \<Rightarrow> Some r | None \<Rightarrow> x86_load op ts))"

definition x86_imull :: "string \<Rightarrow> x86_token list \<Rightarrow> (string \<times> x86_token list) option" where
  "x86_imull op ts =
     map_option (\<lambda>(a, b, ts).
       (note_of [op, '' %'', a, '', %'', b] @ line ''mul'' [translate_reg a, translate_reg a, translate_reg b], ts)) (two_regs ts)"

definition x86_pushl :: "string \<Rightarrow> x86_token list \<Rightarrow> (string \<times> x86_token list) option" where
  "x86_pushl op ts =
     map_option (\<lambda>(a, ts). (note_of [op, '' %'', a] @ line ''push'' [translate_reg a], ts)) (one_reg ts)"

fun x86_exp :: "x86_token list \<Rightarrow> (string \<times> x86_token list) option" where
  "x86_exp [] = None"
| "x86_exp (X_ENDL # ts) = Some ([], ts)"
| "x86_exp (X_MOVL op # ts) = x86_movl op ts"
| "x86_exp (X_IMULL op # ts) = x86_imull op ts"
| "x86_exp (X_PUSHL op # ts) = x86_pushl op ts"
| "x86_exp (X_RET op # ts) = Some (note_of [op] @ line ''jmp'' [''rc''], ts)"
| "x86_exp (X_SPACE # ts) = Some ([], ts)"
| "x86_exp (X_GARBAGE # ts) = Some ([], ts)"
| "x86_exp (X_COMMA # ts) = Some ([], ts)"
| "x86_exp (X_REG32 a # ts) = Some ([], ts)"
| "x86_exp (X_INT i # ts) = Some ([], ts)"
| "x86_exp (X_MREG32 m # ts) = None"
| "x86_exp (X_LEAL op # ts) = None"

lemma x86_operands_shorter:
  "two_regs ts = Some (a, b, rest) \<Longrightarrow> length rest < length ts" "one_reg ts = Some (a, rest) \<Longrightarrow> length rest < length ts"
  "x86_store op ts = Some (txt, rest) \<Longrightarrow> length rest < length ts" "x86_load op ts = Some (txt, rest) \<Longrightarrow> length rest < length ts"
  by (auto simp: two_regs_def one_reg_def x86_store_def x86_load_def split: list.splits x86_token.splits)

lemma x86_exp_shorter: "x86_exp ts = Some (txt, rest) \<Longrightarrow> length rest < length ts"
  by (induction ts rule: x86_exp.induct)
     (auto simp: x86_movl_def x86_mov_regs_def x86_imull_def x86_pushl_def split: option.splits
      dest: x86_operands_shorter)

text \<open>The whole file: what was printed, and whether the text is one of the grammar.\<close>

function x86_yyparse :: "x86_token list \<Rightarrow> string \<times> bool" where
  "x86_yyparse ts =
     (case x86_exp ts of
        None \<Rightarrow> ([], False)
      | Some (txt, rest) \<Rightarrow>
          if rest = [] then (txt, True) else let (txt', fine) = x86_yyparse rest in (txt @ txt', fine))"
  by pat_completeness auto
termination
  by (relation "measure length") (auto dest: x86_exp_shorter)

declare x86_yyparse.simps [simp del]

text \<open>\<open>main\<close>: the output and the exit status.\<close>

definition x86tov_main :: "(string \<Rightarrow> string option) \<Rightarrow> (nat \<Rightarrow> string) \<Rightarrow> string \<times> int" where
  "x86tov_main files junk =
     (case files ''test.S'' of
        None \<Rightarrow> ([], - 1)
      | Some yyin \<Rightarrow> let (txt, fine) = x86_yyparse (x86_lex junk yyin) in (txt, if fine then 0 else - 1))"

section \<open>Statements on registers\<close>

definition x86_regs :: "string list" where
  "x86_regs = map tl x86_REG32"

text \<open>A statement \<open>movl\<close> or, with \<open>True\<close>, \<open>imull\<close>, on two registers.\<close>

type_synonym x86_stmt = "bool \<times> string \<times> string"

definition x86_op :: "bool \<Rightarrow> string" where
  "x86_op m = (if m then ''imull'' else ''movl'')"

definition x86_line :: "x86_stmt \<Rightarrow> string" where
  "x86_line = (\<lambda>(m, a, b). x86_op m @ '' %'' @ a @ '', %'' @ b @ [NL])"

fun x86_stmt_ok :: "x86_stmt \<Rightarrow> bool" where
  "x86_stmt_ok (m, a, b) \<longleftrightarrow> a \<in> set x86_regs \<and> b \<in> set x86_regs"

definition translation :: "x86_stmt \<Rightarrow> string" where
  "translation = (\<lambda>(m, a, b). note_of [x86_op m, '' %'', a, '', %'', b] @
     (if m then line ''mul'' [translate_reg a, translate_reg a, translate_reg b]
      else line ''mov'' [translate_reg a, translate_reg b]))"

lemma toupper_chars:
  "toupper CHR '','' = CHR '',''" "toupper CHR '' '' = CHR '' ''" "toupper CHR ''%'' = CHR ''%''" "toupper NL = NL"
  "toupper CHR ''m'' = CHR ''M''" "toupper CHR ''i'' = CHR ''I''"
  by code_simp+

lemmas x86_scan_simps = toupper_chars x86_scan_def x86_rules_def Let_def words_def word_def x86_endl_def x86_mreg_def x86_REG32_def x86_int_def
  followed_def p_dec_def p_comma_def p_any_def span_first kw_def blank_def is_digit_def

lemma x86_lex_next:
  assumes "longest x86_rules s = n" and "s \<noteq> []"
    and "snd (hd (filter (\<lambda>(f, a). f s = n) x86_rules)) (junk (length s)) (take n s) = Some t"
  shows "x86_lex junk s = t # x86_lex junk (drop n s)"
  using assms by (subst x86_lex.simps) (simp add: x86_scan_def Let_def)

lemma x86_lex_reg:
  assumes "a \<in> set x86_regs"
  shows "x86_lex junk (CHR ''%'' # a @ rest) = X_REG32 a # x86_lex junk rest"
proof -
  have "a = ''eax'' \<or> a = ''ebx'' \<or> a = ''ecx'' \<or> a = ''edx'' \<or> a = ''ebp'' \<or> a = ''esp''"
    using assms by (auto simp: x86_regs_def x86_REG32_def)
  then show ?thesis
    by (elim disjE; hypsubst; subst x86_lex_next[of _ 4]) (simp_all add: x86_scan_simps)
qed

lemma x86_lex_rest:
  "x86_lex junk [] = []" "rest = [] \<or> hd rest \<in> {CHR ''m'', CHR ''i''} \<Longrightarrow> x86_lex junk (NL # rest) = X_ENDL # x86_lex junk rest"
  "x86_lex junk (CHR '','' # CHR '' '' # CHR ''%'' # s) = X_COMMA # x86_lex junk (CHR ''%'' # s)"
  "x86_lex junk (CHR '' '' # CHR ''%'' # s) = X_SPACE # x86_lex junk (CHR ''%'' # s)"
  "x86_lex junk (x86_op m @ CHR '' '' # s) = (if m then X_IMULL else X_MOVL) (x86_op m) # x86_lex junk (CHR '' '' # s)"
proof -
  show nil: "x86_lex junk [] = []" by (simp add: x86_lex.simps)
  have one: "x86_lex junk (NL # CHR ''m'' # r) = X_ENDL # x86_lex junk (CHR ''m'' # r)"
    "x86_lex junk (NL # CHR ''i'' # r) = X_ENDL # x86_lex junk (CHR ''i'' # r)" "x86_lex junk [NL] = [X_ENDL]" for r
    by (subst x86_lex_next[of _ 1], simp_all add: x86_scan_simps nil)+
  show "rest = [] \<or> hd rest \<in> {CHR ''m'', CHR ''i''} \<Longrightarrow> x86_lex junk (NL # rest) = X_ENDL # x86_lex junk rest"
    using one by (cases rest) (auto simp: nil)
  show "x86_lex junk (CHR '','' # CHR '' '' # CHR ''%'' # s) = X_COMMA # x86_lex junk (CHR ''%'' # s)"
    by (subst x86_lex_next[of _ 2]) (simp_all add: x86_scan_simps)
  show "x86_lex junk (CHR '' '' # CHR ''%'' # s) = X_SPACE # x86_lex junk (CHR ''%'' # s)"
    by (subst x86_lex_next[of _ 1]) (simp_all add: x86_scan_simps)
  show "x86_lex junk (x86_op m @ CHR '' '' # s) = (if m then X_IMULL else X_MOVL) (x86_op m) # x86_lex junk (CHR '' '' # s)"
    by (cases m; subst x86_lex_next[of _ "length (x86_op m)"]) (simp_all add: x86_scan_simps x86_op_def)
qed

lemma x86_lex_line:
  assumes "x86_stmt_ok st" and "rest = [] \<or> hd rest \<in> {CHR ''m'', CHR ''i''}"
  shows "x86_lex junk (x86_line st @ rest) = (case st of (m, a, b) \<Rightarrow>
    [(if m then X_IMULL else X_MOVL) (x86_op m), X_SPACE, X_REG32 a, X_COMMA, X_REG32 b, X_ENDL]) @ x86_lex junk rest"
  using assms by (cases st) (simp add: x86_line_def x86_lex_rest x86_lex_reg)

lemma x86_line_first: "hd (x86_line st @ rest) \<in> {CHR ''m'', CHR ''i''}" "x86_line st \<noteq> []"
  by (cases st; simp add: x86_line_def x86_op_def)+

lemma x86_translate:
  assumes "list_all x86_stmt_ok p" and "p \<noteq> []"
  shows "x86_yyparse (x86_lex junk (concat (map x86_line p))) = (concat (map translation p), True)"
  using assms
proof (induction p)
  case (Cons st p)
  have rest: "concat (map x86_line p) = [] \<or> hd (concat (map x86_line p)) \<in> {CHR ''m'', CHR ''i''}"
    using x86_line_first by (cases p) auto
  obtain m a b where st: "st = (m, a, b)" by (cases st) auto
  have tokens: "x86_lex junk (concat (map x86_line (st # p))) =
    (if m then X_IMULL else X_MOVL) (x86_op m) # X_SPACE # X_REG32 a # X_COMMA # X_REG32 b # X_ENDL # x86_lex junk (concat (map x86_line p))"
    using x86_lex_line[OF _ rest, of st junk] Cons.prems(1) st by simp
  have exp: "x86_exp (x86_lex junk (concat (map x86_line (st # p)))) =
    Some (translation st, X_ENDL # x86_lex junk (concat (map x86_line p)))"
    unfolding tokens by (cases m) (simp_all add: x86_movl_def x86_mov_regs_def x86_imull_def two_regs_def translation_def st)
  have endl: "x86_yyparse (X_ENDL # ts) = (if ts = [] then ([], True) else x86_yyparse ts)" for ts
    by (subst x86_yyparse.simps) (simp add: case_prod_unfold)
  have "x86_lex junk (concat (map x86_line p)) = [] \<longleftrightarrow> p = []"
  proof (cases p)
    case (Cons st' p')
    then have "x86_stmt_ok st'" using \<open>list_all x86_stmt_ok (st # p)\<close> by simp
    moreover have "concat (map x86_line p') = [] \<or> hd (concat (map x86_line p')) \<in> {CHR ''m'', CHR ''i''}"
      using x86_line_first by (cases p') auto
    ultimately show ?thesis using x86_lex_line[of st' "concat (map x86_line p')" junk] Cons by (cases st') simp
  qed (simp add: x86_lex_rest)
  then show ?case
    using Cons by (subst x86_yyparse.simps) (simp add: exp[simplified] endl)
qed simp

section \<open>The translation read by the assembler\<close>

lemma lex_gap:
  assumes "\<not> blank c" and "c \<noteq> NL" and "toupper c \<noteq> CHR '',''"
  shows "lex (TAB # TAB # c # rest) = Inr T_SPACE # lex (c # rest)"
    "lex (CHR '','' # CHR '' '' # c # rest) = Inr COMMA # lex (c # rest)"
proof -
  have "scan (TAB # TAB # c # rest) = (2, always T_SPACE)"
    using assms scan_other[of TAB "span blank" "always T_SPACE" "TAB # c # rest"]
    by (simp add: other_rules_def pattern_defs)
  then show "lex (TAB # TAB # c # rest) = Inr T_SPACE # lex (c # rest)"
    using lex_token[of "TAB # TAB # c # rest"] by (simp add: always_def)
  have "blank CHR '' ''" by (simp add: blank_def)
  with assms have "scan (CHR '','' # CHR '' '' # c # rest) = (2, always COMMA)"
    using scan_other[of "CHR '',''" p_comma "always COMMA" "CHR '' '' # c # rest"]
    by (simp add: other_rules_def pattern_defs)
  then show "lex (CHR '','' # CHR '' '' # c # rest) = Inr COMMA # lex (c # rest)"
    using lex_token[of "CHR '','' # CHR '' '' # c # rest"] by (simp add: always_def)
qed

lemma lex_line_end:
  assumes "rest = [] \<or> hd rest = CHR '';''"
  shows "lex (NL # rest) = Inr T_ENDL # lex rest"
proof -
  have "scan (NL # rest) = (1, always T_ENDL)"
    using scan_other[of NL p_endl "always T_ENDL" rest] assms
    by (cases rest) (auto simp: other_rules_def pattern_defs span_def)
  then show ?thesis using lex_token[of "NL # rest"] by (simp add: always_def)
qed

text \<open>The registers of the translation.\<close>

definition v_reg :: "string \<Rightarrow> string" where
  "v_reg a = upper (translate_reg a)"

definition v_no :: "string \<Rightarrow> byte" where
  "v_no a = get_reg_for_name (v_reg a)"

lemma v_regs:
  assumes "a \<in> set x86_regs"
  shows "v_reg a \<in> set REG32_names" "v_no a < 16" "v_no a \<noteq> CPU_REG_FLGS" "NL \<notin> set a"
    "\<not> blank (hd (translate_reg a))" "hd (translate_reg a) \<noteq> NL" "toupper (hd (translate_reg a)) \<noteq> CHR '',''" "translate_reg a \<noteq> []"
proof -
  have "list_all (\<lambda>a. v_reg a \<in> set REG32_names \<and> v_no a < 16 \<and> v_no a \<noteq> CPU_REG_FLGS \<and> NL \<notin> set a \<and>
    \<not> blank (hd (translate_reg a)) \<and> hd (translate_reg a) \<noteq> NL \<and> toupper (hd (translate_reg a)) \<noteq> CHR '','' \<and> translate_reg a \<noteq> []) x86_regs"
    by code_simp
  with assms show "v_reg a \<in> set REG32_names" "v_no a < 16" "v_no a \<noteq> CPU_REG_FLGS" "NL \<notin> set a"
    "\<not> blank (hd (translate_reg a))" "hd (translate_reg a) \<noteq> NL" "toupper (hd (translate_reg a)) \<noteq> CHR '',''" "translate_reg a \<noteq> []"
    by (simp_all add: list_all_iff)
qed

lemma lex_v_reg:
  assumes "a \<in> set x86_regs" and "c \<in> {TAB, NL, CHR '',''}"
  shows "lex (translate_reg a @ c # rest) = Inr (REG32 (v_reg a)) # lex (c # rest)"
    "lex (TAB # TAB # translate_reg a @ c # rest) = Inr T_SPACE # Inr (REG32 (v_reg a)) # lex (c # rest)"
    "lex (CHR '','' # CHR '' '' # translate_reg a @ c # rest) = Inr COMMA # Inr (REG32 (v_reg a)) # lex (c # rest)"
proof -
  have "(REG32_names, REG32) \<in> set word_classes" by (simp add: word_classes_def)
  from lex_word_ci[OF this, of "translate_reg a" c rest] show reg: "lex (translate_reg a @ c # rest) = Inr (REG32 (v_reg a)) # lex (c # rest)"
    using v_regs(1)[OF assms(1)] stops_sep[OF assms(2)] by (simp add: v_reg_def)
  obtain d u where u: "translate_reg a = d # u" using v_regs(8)[OF assms(1)] by (cases "translate_reg a") auto
  have d: "\<not> blank d" "d \<noteq> NL" "toupper d \<noteq> CHR '',''" using v_regs(5-7)[OF assms(1)] u by simp_all
  show "lex (TAB # TAB # translate_reg a @ c # rest) = Inr T_SPACE # Inr (REG32 (v_reg a)) # lex (c # rest)"
    "lex (CHR '','' # CHR '' '' # translate_reg a @ c # rest) = Inr COMMA # Inr (REG32 (v_reg a)) # lex (c # rest)"
    using lex_gap[OF d, of "u @ c # rest"] reg u by simp_all
qed

lemma lex_v_op:
  "lex (''mov'' @ TAB # rest) = Inr (OP OP_S_MOV ''MOV'') # lex (TAB # rest)"
  "lex (''mul'' @ TAB # rest) = Inr (OP OP_FMT_II ''MUL'') # lex (TAB # rest)"
proof -
  have c: "([''MOV''], OP OP_S_MOV) \<in> set word_classes"
    "([''ADD'', ''AND'', ''DIV'', ''OR'', ''MOD'', ''MUL'', ''SAR'', ''SDIV'', ''SHL'', ''SHR'', ''SMUL'', ''SUB'', ''XOR''], OP OP_FMT_II)
      \<in> set word_classes"
    by (simp_all add: word_classes_def op_names_def)
  have up: "upper ''mov'' = ''MOV''" "upper ''mul'' = ''MUL''" by code_simp+
  show "lex (''mov'' @ TAB # rest) = Inr (OP OP_S_MOV ''MOV'') # lex (TAB # rest)"
    using lex_word_ci[OF c(1), of "''mov''" TAB rest] stops_sep[of TAB] by (simp add: up)
  show "lex (''mul'' @ TAB # rest) = Inr (OP OP_FMT_II ''MUL'') # lex (TAB # rest)"
    using lex_word_ci[OF c(2), of "''mul''" TAB rest] stops_sep[of TAB] by (simp add: up)
qed

text \<open>What the assembler makes of a translated statement: tokens, statements and the instruction.\<close>

definition v_exp :: "x86_stmt \<Rightarrow> exp" where
  "v_exp = (\<lambda>(m, a, b). if m then Fmt (Fmt_II ''MUL'' None (v_reg a) (v_reg a) (v_reg b))
     else Data (Mov Reg32 ''MOV'' None (v_reg a) (v_reg b)))"

definition v_word :: "x86_stmt \<Rightarrow> byte list" where
  "v_word = (\<lambda>(m, a, b). if m then code_ii (0, 0, OP_MUL, v_no a, v_no a, v_no b)
     else code_ii (0, 0, OP_MOV, 0, v_no a, v_no b))"

lemma lex_translation:
  assumes "x86_stmt_ok st" and "rest = [] \<or> hd rest = CHR '';''"
  shows "\<exists>us. lex (translation st @ rest) = map Inr us @ Inr T_ENDL # lex rest \<and> exp_rule (v_exp st) us"
proof -
  obtain m a b where st: "st = (m, a, b)" "a \<in> set x86_regs" "b \<in> set x86_regs" using assms(1) by (cases st) auto
  have note_lex: "lex (note_of [x86_op m, '' %'', a, '', %'', b] @ s) = lex s" for s
    using lex_comment_line[of "CHR '' '' # x86_op m @ '' %'' @ a @ '', %'' @ b" s] v_regs(4)[OF st(2)] v_regs(4)[OF st(3)]
    by (auto simp: note_of_def x86_op_def split: if_splits)
  note regs = lex_v_reg[OF st(2), of "CHR '',''"] lex_v_reg[OF st(3), of NL] lex_line_end[OF assms(2)]
  show ?thesis
  proof (cases m)
    case True
    have "lex (translation st @ rest) =
      map Inr [OP OP_FMT_II ''MUL'', T_SPACE, REG32 (v_reg a), COMMA, REG32 (v_reg a), COMMA, REG32 (v_reg b)] @ Inr T_ENDL # lex rest"
      using True regs lex_v_op(2) note_lex by (simp add: st(1) translation_def line_def)
    moreover have "exp_rule (v_exp st) [OP OP_FMT_II ''MUL'', T_SPACE, REG32 (v_reg a), COMMA, REG32 (v_reg a), COMMA, REG32 (v_reg b)]"
      using rule_fmt_ii[of "''MUL''" None] True by (simp add: v_exp_def st(1))
    ultimately show ?thesis by blast
  next
    case False
    have "lex (translation st @ rest) =
      map Inr [OP OP_S_MOV ''MOV'', T_SPACE, REG32 (v_reg a), COMMA, REG32 (v_reg b)] @ Inr T_ENDL # lex rest"
      using False regs lex_v_op(1) note_lex by (simp add: st(1) translation_def line_def)
    moreover have "exp_rule (v_exp st) [OP OP_S_MOV ''MOV'', T_SPACE, REG32 (v_reg a), COMMA, REG32 (v_reg b)]"
      using rule_mov[of Reg32 "''MOV''" None] False by (simp add: v_exp_def st(1))
    ultimately show ?thesis by blast
  qed
qed

lemma translation_reads:
  assumes "list_all x86_stmt_ok p" and "p \<noteq> []"
  shows "reads (concat (map translation p)) (concat (map (\<lambda>st. [v_exp st, ENDL]) p))"
proof -
  have "\<exists>uss. lex (concat (map translation p)) = map Inr (concat uss) \<and>
    list_all2 exp_rule (concat (map (\<lambda>st. [v_exp st, ENDL]) p)) uss"
    using assms(1)
  proof (induction p)
    case Nil
    have "lex [] = []" by (simp add: lex.simps)
    then show ?case by (intro exI[of _ "[]"]) simp
  next
    case (Cons st p)
    then obtain uss where uss: "lex (concat (map translation p)) = map Inr (concat uss)"
      "list_all2 exp_rule (concat (map (\<lambda>st. [v_exp st, ENDL]) p)) uss" by auto
    have rest: "concat (map translation p) = [] \<or> hd (concat (map translation p)) = CHR '';''"
      by (cases p) (auto simp: translation_def note_of_def)
    obtain us where "lex (translation st @ concat (map translation p)) =
        map Inr us @ Inr T_ENDL # lex (concat (map translation p))" "exp_rule (v_exp st) us"
      using lex_translation[OF _ rest, of st] Cons.prems by auto
    then show ?case using uss rule_endl by (intro exI[of _ "us # [T_ENDL] # uss"]) simp
  qed
  moreover have "concat (map (\<lambda>st. [v_exp st, ENDL]) p) \<noteq> []" using assms(2) by (cases p) simp_all
  ultimately show ?thesis by (auto simp: reads_def exps_rule_list)
qed

lemma v_chunks: "prog_chunks n (concat (map (\<lambda>st. [v_exp st, ENDL]) p)) = map Code (map v_word p)"
proof -
  have ops: "get_op_for_name ''MOV'' = OP_MOV" "get_op_for_name ''MUL'' = OP_MUL" by code_simp+
  show ?thesis
    by (induction p arbitrary: n) (auto simp: v_exp_def v_word_def v_no_def cond_code_def ops)
qed

lemma v_words: "list_all (\<lambda>w. length w = 4) (map v_word p)"
  by (induction p) (auto simp: v_word_def code_eqs)

text \<open>The effect on the registers: the first operand is the target.\<close>

fun v_effect :: "x86_stmt \<Rightarrow> regfile \<Rightarrow> regfile" where
  "v_effect (m, a, b) R = R(v_no a := if m then R (v_no a) * R (v_no b) else R (v_no b))"

definition same_regs :: "regfile \<Rightarrow> regfile \<Rightarrow> bool" where
  "same_regs R S \<longleftrightarrow> (\<forall>r. r \<noteq> CPU_REG_FLGS \<longrightarrow> R r = S r)"

lemma v_effect_flags: "x86_stmt_ok st \<Longrightarrow> same_regs R S \<Longrightarrow> same_regs (v_effect st R) (v_effect st S)"
  using v_regs(3) by (cases st) (auto simp: same_regs_def)

lemma v_lines:
  assumes "x86_stmt_ok st"
  shows "\<exists>S. isa_lines (v_word st # ws) R = isa_lines ws S \<and> same_regs S (v_effect st R)"
proof -
  obtain m a b where st: "st = (m, a, b)" "a \<in> set x86_regs" "b \<in> set x86_regs" using assms by (cases st) auto
  note n = v_regs(2,3)[OF st(2)] v_regs(2,3)[OF st(3)]
  have i: "\<not> isa_skips (ins_code (v_word st)) R" "isa_covers (ins_code (v_word st))"
    "opcode (ins_code (v_word st)) \<noteq> OP_JMP" "opcode (ins_code (v_word st)) \<noteq> OP_CALL"
    using n by (simp_all add: st(1) v_word_def isa_skips_def isa_covers_def isa_ops_def)
  have "same_regs (isa_effect (ins_code (v_word st)) R) (v_effect st R)"
    using n by (cases m) (simp_all add: st(1) v_word_def isa_effect_def source_b_def Let_def same_regs_def)
  then show ?thesis using lines_one(1)[OF i] by blast
qed

lemma v_runs:
  assumes "list_all x86_stmt_ok p" and "same_regs R S"
  shows "\<exists>R'. isa_lines (map v_word p) R = Some R' \<and> same_regs R' (fold v_effect p S)"
  using assms
proof (induction p arbitrary: R S)
  case (Cons st p)
  obtain T where T: "isa_lines (map v_word (st # p)) R = isa_lines (map v_word p) T" "same_regs T (v_effect st R)"
    using v_lines[of st "map v_word p" R] Cons.prems(1) by auto
  have "same_regs T (v_effect st S)"
    using T(2) v_effect_flags[of st R S] Cons.prems by (simp add: same_regs_def)
  then show ?case using Cons.IH[of T "v_effect st S"] Cons.prems(1) T(1) by (simp del: isa_lines.simps)
qed simp

section \<open>Properties\<close>

text \<open>
  C18. The x86 translator on register code: for every nonempty file of at most a million lines \<open>movl %a, %b\<close> and \<open>imull %a, %b\<close>, it prints a
  program and returns 0; the assembler makes one word of each line; and these words, as long as nothing jumps
  into them, compute with the first operand as the target, \<open>a := b\<close> and \<open>a := a * b\<close>, line after line, up to
  the flags. In the notation with percent signs, which the memory forms of the translator follow, the last
  operand is the target: \<open>movl %eax, %ebx\<close> should copy \<open>eax\<close> to \<open>ebx\<close>, and the translation copies it the
  other way.
\<close>

theorem x86_registers:
  assumes "p \<noteq> []" and "list_all x86_stmt_ok p" and "files ''test.S'' = Some (concat (map x86_line p))"
    and "\<And>n. heap n" and "length p \<le> 1000000"
  shows "\<exists>txt ws R'. x86tov_main files junk = (txt, 0) \<and> vasm heap None txt = Inr (map Some (concat ws)) \<and>
    list_all (\<lambda>w. length w = 4) ws \<and> length ws = length p \<and> isa_lines ws R = Some R' \<and> same_regs R' (fold v_effect p R)"
proof -
  let ?txt = "concat (map translation p)" and ?ws = "map v_word p"
  have "x86tov_main files junk = (?txt, 0)"
    using assms(3) x86_translate[OF assms(2,1), of junk] by (simp add: x86tov_main_def)
  moreover have "vasm heap None ?txt = Inr (map Some (concat ?ws))"
    by (rule vasm_words[OF assms(4) translation_reads[OF assms(2,1)] v_chunks v_words]) (simp add: assms(5))
  moreover obtain R' where "isa_lines ?ws R = Some R'" "same_regs R' (fold v_effect p R)"
    using v_runs[OF assms(2), of R R] by (auto simp: same_regs_def)
  moreover have "length ?ws = length p" by simp
  ultimately show ?thesis using v_words[of p] by blast
qed

theorem x86_registers_witness:
  "\<exists>txt ws R'. x86tov_main (\<lambda>_. Some (''movl %eax, %ebx'' @ [NL])) (\<lambda>_. []) = (txt, 0) \<and>
     vasm (\<lambda>n. True) None txt = Inr (map Some (concat ws)) \<and> isa_lines ws (\<lambda>r. if r = 0 then 7 else 0) = Some R' \<and>
     R' 0 = 0 \<and> R' 1 = 0"
proof -
  let ?p = "[(False, ''eax'', ''ebx'')]" and ?R = "(\<lambda>r. if r = 0 then 7 else 0) :: regfile"
  have no: "v_no ''eax'' = 0" "v_no ''ebx'' = 1" by code_simp+
  have p: "?p \<noteq> []" "list_all x86_stmt_ok ?p" "Some (''movl %eax, %ebx'' @ [NL]) = Some (concat (map x86_line ?p))" "length ?p \<le> 1000000"
    by (simp_all add: x86_line_def x86_op_def x86_regs_def x86_REG32_def)
  obtain out ws R' where "x86tov_main (\<lambda>_. Some (''movl %eax, %ebx'' @ [NL])) (\<lambda>_. []) = (out, 0)"
    "vasm (\<lambda>n. True) None out = Inr (map Some (concat ws))" "isa_lines ws ?R = Some R'" "same_regs R' (fold v_effect ?p ?R)"
    using x86_registers[of ?p "\<lambda>_. Some (''movl %eax, %ebx'' @ [NL])" "\<lambda>n. True" "\<lambda>_. []" ?R, OF p(1-3) TrueI p(4)] by blast
  then show ?thesis by (auto simp: same_regs_def no)
qed

end
