(* ===== verification/Spec2Isabelle.thy ===== *)
theory Spec2Isabelle
  imports Toolchain Assembler_Inv Reassemble Cmdline Dump Texts Isa Rejects Programs X86tov
begin

text \<open>
  Verification development for VA, an emulator for a 32-bit processor with its assembler and
  disassembler.

  \<^bold>\<open>The program.\<close> \<^verbatim>\<open>src/emulator.c\<close> starts a machine (\<^verbatim>\<open>src/mkcontext.c\<close>), copies an image to address 4096
  and runs the processor loop (\<^verbatim>\<open>src/cpu/cpu.c\<close>), which fetches and decodes words (\<^verbatim>\<open>src/cpu/decode.c\<close>)
  from a flat memory (\<^verbatim>\<open>src/cpu/memory.c\<close>) and reaches devices through a table of ports
  (\<^verbatim>\<open>src/cpu/pio.c\<close>). The assembler is a grammar (\<^verbatim>\<open>src/assembler/vasm.y\<close>) whose actions call an emitter
  (\<^verbatim>\<open>src/assembler/emit.c\<close>); the disassembler is a library (\<^verbatim>\<open>src/disassembler/lib_vasmdis.c\<close>) with a
  small main (\<^verbatim>\<open>src/disassembler/vdis.c\<close>); a separate experiment translates x86 assembly; all but the last share the tables of
  names (\<^verbatim>\<open>src/common/lookup.c\<close>) and the constants (\<^verbatim>\<open>src/common/rawdefs.h\<close>).

  \<^bold>\<open>Conventions.\<close> A C function is the definition of its name. Unsigned integers are words of their
  width, the signed ones integers under the cast macros; structs are records; the mutable contexts
  are passed and returned. A function that can stop has a result of type \<open>stop + 'a\<close>: \<open>Exit n\<close> is a
  call of \<open>exit\<close>, and the other values of \<open>stop\<close> are the points at which the C code leaves defined
  behaviour (an access beyond the emulated memory, the register files, the handler table, a heap
  block or an image; a null pointer; a remainder by zero), so that a proof that no such value occurs
  is a proof of memory safety. The functions are sequenced by \<open>ubind\<close>.

  \<^item> \<open>Prelude\<close>, \<open>Rawdefs\<close>, \<open>Contexts\<close>: the result type and its algebra, facts on words, the constants
    and macros, the records of \<^verbatim>\<open>types.h\<close> with the views \<open>reg_of\<close>, \<open>creg_of\<close>, \<open>get_pos\<close> on which the later
    lemmas are stated.
  \<^item> \<open>Memory\<close>: the memory functions. The locale \<open>cells\<close> states what a client relies on (a read
    after a write, independence of distinct cells, stability of the range); it is interpreted on the
    emulated memory, and multi-byte accesses are verified from it.
  \<^item> \<open>Registers\<close>: the byte and word views of the register file, with the locale \<open>register_file\<close>
    interpreted for the dword, word and byte accessors and the control registers.
  \<^item> \<open>Pio\<close>: the table of 128 ports, its null device (locale \<open>latch_handler\<close>) and its static latch.
  \<^item> \<open>Decode\<close>: fetch and decode; a decoded instruction determines its four bytes.
  \<^item> \<open>Alu\<close>, \<open>Moves\<close>: every instruction of \<^verbatim>\<open>cpu.c\<close>, errors included: for each one a normal form
    (\<open>..._norm\<close>) that describes its effect on the views and that it stops only at a memory access. The locales
    \<open>three_operand\<close> and \<open>displaced\<close> are the contracts of the arithmetic and the load and store instructions.
  \<^item> \<open>Cpu\<close>: jumps, calls and port instructions, conditions, dispatch, one pass of the loop
    (\<open>cpu_pass\<close>) and the loop itself (\<open>cpu_loop\<close>, a partial function, since it need not end); the step
    relation \<open>cpu_step\<close>, the states it reaches, and the invariant \<open>wf_machine\<close>.
  \<^item> \<open>Emulator\<close>: start-up under an allocator that may refuse, the image loader and \<open>main\<close>.
  \<^item> \<open>Lookup\<close>: the tables of names in both directions, with the locale \<open>name_table\<close> interpreted for the
    six tables.
  \<^item> \<open>Emit\<close>: the emitter with its growing buffer; the locale \<open>encoder\<close> (an operation that emits a fixed
    code) is interpreted for the eight instruction formats.
  \<^item> \<open>Assembler\<close>: the actions of the grammar on statements, label resolution and the output file; the
    specification by chunks (\<open>chunks\<close>, \<open>place\<close>, \<open>link\<close>) and the proof that both passes implement it.
  \<^item> \<open>Assembler_Inv\<close>: the invariant of the assembler without any condition on the layout, by the locale
    \<open>extending\<close>, interpreted for runs of bytes, chunks and statements.
  \<^item> \<open>Disasm\<close>: the disassembler, its static buffers and its main loop.
  \<^item> \<open>Toolchain\<close>: assembled code run on the processor model, and programs from source to boot.
  \<^item> \<open>Lexer\<close>: the patterns and actions of \<^verbatim>\<open>src/assembler/vasm.l\<close> and the scanner (longest match, first
    rule) that turns a text into tokens; the conversions of its numbers; lemmas that scan a word, a
    separator or a number in front of any rest.
  \<^item> \<open>Parser\<close>: the rules of \<^verbatim>\<open>src/assembler/vasm.y\<close> as a recursive-descent parser that runs each action
    when its statement is read, and \<open>vasm\<close>, the assembler on a text. \<open>Grammar\<close>: the same rules as an
    inductive relation, one rule for each alternative, and the proof that both agree.
  \<^item> \<open>Reassemble\<close>: the text that the disassembler prints goes back through the assembler.
  \<^item> \<open>Cmdline\<close>: the options of the assembler. \<open>Dump\<close>: the register dump of \<^verbatim>\<open>src/cpu/dump.c\<close>.
  \<^item> \<open>Texts\<close>: the typing of tokens and statements, a text for every list of well-typed statements, and
    \<open>reads\<close>, the relation between a text and its statements. \<open>Evaluate\<close>: equations by which the lexer and the
    parser run on the text of a file inside the logic.
  \<^item> \<open>Isa\<close>: an abstract register machine, a function on the pointer and sixteen registers, for the 22
    instructions that touch nothing else, and the proof that the loop refines it. It is the manual's
    instruction set but for the zero divisors and the source of \<open>SEX\<close>, where it follows the code.
  \<^item> \<open>Rejects\<close>: which programs the assembler accepts, on the statements. \<open>Programs\<close>: programs of
    \<^verbatim>\<open>src/tests\<close> from their text to the exit status of the emulator, by straight-line runs of \<open>Isa\<close>.
  \<^item> \<open>X86tov\<close>: the translator \<^verbatim>\<open>src/assembler/x86tov.l\<close>, \<^verbatim>\<open>x86tov.y\<close> from x86 assembly to assembly for this processor.

  \<^bold>\<open>What is shown.\<close> Safety: a run of the processor leaves defined behaviour only at a cell past the end of
  memory, by its fetch or by one of seven instructions, or at an \<open>IN\<close> from a port above 127, and keeps the
  shape of the machine; start-up exits exactly when one of its 26 requests for memory is refused. Function: the
  results and flags of the instructions, the meaning of the conditions, the multi-register
  instructions as inverse of each other, sub-register access. Refinement: the two passes of the
  assembler produce exactly the linked chunks of the program or exit, and the processor loop implements the
  abstract register machine. Types: texts express exactly the well-typed programs. Errors: the assembler
  rejects exactly the programs with a wrong statement, a label defined twice or a reference without a label.
  Equivalence: the parser accepts
  exactly what the unambiguous grammar derives; the processor and the disassembler take words apart
  alike. Round trips: a dump and the register values read off it, names, encoding and decoding, stores and
  loads, and program to image to disassembled text to the same image. The command line: what the
  assembler reads and writes for every order and spelling of its options. Liveness: assembled jumps and calls arrive at their labels after
  three instructions, from the boot of the emulator on, and the test program \<^verbatim>\<open>64adder.V\<close> exits with the status
  that its 64-bit sum calls for. Several properties state a defect of
  the code as it is: the unchecked image length, the unmasked port, the table rows of \<open>ST2\<close> to \<open>ST4\<close>,
  the growth of the buffer when an instruction straddles a block, the read past an image of odd size, the
  operands that the x86 translator exchanges. Where the manual and the code differ the development follows the
  code: truncated and rejected immediates, the exceptions for alignment, address overflow and division by
  zero, the privileged mode, the addresses of the boot process, the operand of \<open>SEX\<close>.

  \<^bold>\<open>Termination and bounds.\<close> The processor loop is \<open>partial_function (option)\<close>: not returning is \<open>None\<close>,
  which a jump to itself is shown to have, and with the step argument the loop is shown to return.
  So is the loop of the disassembler, which is shown to end for images of less than 2^32 - 1 bytes and for
  no others. All other loops are total: the loops of the multi-register instructions and of \<open>TEST\<close> by the distance of
  their counters, \<open>.align\<close> by the distance of the position to its wrap-around, the scanner by the length of
  the text (a longest match is never empty), the parser by the number of tokens, \<open>getopt_long\<close> by the
  arguments that are left, the x86 translator's scanner and parser by the text and tokens left.
  No fuel is used; the runs of \<open>Isa\<close> are counted in steps, and a program's number of steps is its number of
  words.

  \<^bold>\<open>Hypotheses.\<close> The allocator (\<open>heap\<close>, \<open>ok\<close>), the file system (\<open>files\<close>) and the initial contents of the
  registers, which \<open>malloc\<close> leaves indeterminate, are parameters. The inline assembly of \<^verbatim>\<open>cpu.c\<close> is
  modelled by the result and flags that the x86 manual gives \<open>addl\<close>, \<open>subl\<close> and \<open>imull\<close>. The C library
  is modelled by its documentation: \<open>getopt_long\<close> (arguments permuted, as without POSIXLY_CORRECT), \<open>atoi\<close>,
  \<open>snprintf\<close>, \<open>fwrite\<close>; so are GLib's number conversions, and flex and bison by the meaning of their input:
  longest match with the first rule, and derivation from the rules. What the memory holds behind a block
  that the x86 translator leaves without a terminating zero is a parameter (\<open>junk\<close>).

  \<^bold>\<open>Not modelled.\<close> Mutexes, log output and the performance counter; the text of error messages and
  warnings; rlang and the scripts, which are in other languages; the sample programs apart from the four
  test files that \<open>Programs\<close> and \<open>Rejects\<close> run.
\<close>

end
